(* ===== verification/Prelude.thy ===== *)
theory Prelude
  imports Main "HOL-Library.Word"
begin

text \<open>
  Shared vocabulary of the development: the machine integers of the two 32-bit targets,
  the target architecture that the source selects with \<open>cfg(target_arch)\<close>, checked
  indexing and slicing of arrays, Rust's checked, saturating and shifting operations, and
  the list and word lemmas that several components use.
\<close>

unbundle bit_operations_syntax

section \<open>Machine integers and targets\<close>

type_synonym u8 = "8 word"
type_synonym u16 = "16 word"
type_synonym u32 = "32 word"

text \<open>
  \<open>usize\<close> is 32 bits wide on both targets. Where a \<open>usize\<close> is a value of the running
  program (a word of a token stream, a cell of the operand stack) it is \<open>usize\<close> here;
  where it only counts or indexes a fixed array and cannot overflow it is a \<open>nat\<close>.
\<close>

type_synonym usize = "32 word"

datatype arch = Arm | Riscv32

named_theorems hw_simps \<open>equations of the bus primitives\<close>
named_theorems reg_simps \<open>laws of the capability registry\<close>

section \<open>Arrays\<close>

text \<open>\<open>slice.get(i)\<close>: \<open>None\<close> out of range.\<close>

definition slice_get :: "'a list \<Rightarrow> nat \<Rightarrow> 'a option" where
  "slice_get xs i = (if i < length xs then Some (xs ! i) else None)"

lemma slice_get_in [simp]: "i < length xs \<Longrightarrow> slice_get xs i = Some (xs ! i)"
  by (simp add: slice_get_def)

lemma slice_get_out [simp]: "length xs \<le> i \<Longrightarrow> slice_get xs i = None"
  by (simp add: slice_get_def)

lemma slice_get_Some_iff: "slice_get xs i = Some x \<longleftrightarrow> i < length xs \<and> xs ! i = x"
  by (auto simp: slice_get_def)

text \<open>
  \<open>dst[..src.len()].copy_from_slice(src)\<close>: the prefix is overwritten, the rest keeps its
  old contents.
\<close>

definition copy_prefix :: "'a list \<Rightarrow> 'a list \<Rightarrow> 'a list" where
  "copy_prefix src dst = src @ drop (length src) dst"

lemma length_copy_prefix [simp]:
  "length src \<le> length dst \<Longrightarrow> length (copy_prefix src dst) = length dst"
  by (simp add: copy_prefix_def)

lemma take_copy_prefix [simp]: "take (length src) (copy_prefix src dst) = src"
  by (simp add: copy_prefix_def)

lemma drop_nth_Cons: "i < length xs \<Longrightarrow> drop i xs = xs ! i # drop (Suc i) xs"
  by (simp add: Cons_nth_drop_Suc)

lemma take_Suc_snoc: "i < length xs \<Longrightarrow> take (Suc i) xs = take i xs @ [xs ! i]"
  by (simp add: take_Suc_conv_app_nth)

lemma take_update_snoc: "i < length xs \<Longrightarrow> take (Suc i) (xs[i := x]) = take i xs @ [x]"
  by (simp add: take_Suc_conv_app_nth)

section \<open>Rust integer operations\<close>

text \<open>\<open>u32::checked_mul\<close> and \<open>u32::checked_add\<close>.\<close>

definition checked_mul :: "u32 \<Rightarrow> u32 \<Rightarrow> u32 option" where
  "checked_mul a b = (if unat a * unat b < 2 ^ 32 then Some (a * b) else None)"

definition checked_add :: "u32 \<Rightarrow> u32 \<Rightarrow> u32 option" where
  "checked_add a b = (if unat a + unat b < 2 ^ 32 then Some (a + b) else None)"

lemma unat_mult_small:
  fixes a b :: u32
  shows "unat a * unat b < 2 ^ 32 \<Longrightarrow> unat (a * b) = unat a * unat b"
  by (simp add: unat_word_ariths)

lemma unat_add_small:
  fixes a b :: u32
  shows "unat a + unat b < 2 ^ 32 \<Longrightarrow> unat (a + b) = unat a + unat b"
  by (simp add: unat_word_ariths)

lemma u32_eqI_unat: "unat a = unat (b :: u32) \<Longrightarrow> a = b"
  by (rule word_unat_eq_iff [THEN iffD2])

lemma unat_u32_less [simp]: "unat (a :: u32) < 4294967296"
  using unsigned_less [of a] by simp

text \<open>\<open>usize::saturating_add\<close> on a counter.\<close>

definition saturating_add :: "nat \<Rightarrow> nat \<Rightarrow> nat" where
  "saturating_add a b = min (a + b) (2 ^ 32 - 1)"

lemma saturating_add_bound: "saturating_add a b \<le> 2 ^ 32 - 1"
  by (simp add: saturating_add_def)

text \<open>
  \<open>1u32 << n\<close> with a run-time \<open>n\<close>: with overflow checks (the dev profile) a shift
  amount of 32 or more panics (\<open>None\<close>); without them (the release profile of
  Cargo.toml) the amount is masked to its low five bits.
\<close>

definition shl_one :: "bool \<Rightarrow> u32 \<Rightarrow> u32 option" where
  "shl_one overflow_checks n =
     (if 32 \<le> unat n \<and> overflow_checks then None
      else Some (push_bit (unat n mod 32) 1))"

lemma shl_one_small [simp]: "unat n < 32 \<Longrightarrow> shl_one c n = Some (push_bit (unat n) 1)"
  by (simp add: shl_one_def)

section \<open>Single bits of a word\<close>

lemma and_single_bit_eq_0: "(w :: 'a::len word) AND push_bit n 1 = 0 \<longleftrightarrow> \<not> bit w n"
  by (simp add: push_bit_of_1 and_exp_eq_0_iff_not_bit)

lemma bit_single_u32: "bit (push_bit n (1 :: u32)) m \<longleftrightarrow> m = n \<and> n < 32"
  by (auto simp: bit_simps)

lemma bit_u32_bound: "bit (w :: u32) n \<Longrightarrow> n < 32"
  using bit_imp_le_length by fastforce

section \<open>Byte strings\<close>

text \<open>A byte-string literal \<open>b"..."\<close>, and the line ending \<open>\r\n\<close>.\<close>

definition byte_str :: "string \<Rightarrow> u8 list" where
  "byte_str s = map of_char s"

definition crlf :: "u8 list" where "crlf = [13, 10]"

section \<open>Reference numerals\<close>

text \<open>The decimal digits of a number and the eight hex digits of a word, as ASCII bytes.\<close>

fun dec_digits :: "nat \<Rightarrow> u8 list" where
  "dec_digits n = (if n < 10 then [0x30 + of_nat n] else dec_digits (n div 10) @ [0x30 + of_nat (n mod 10)])"

declare dec_digits.simps [simp del]

definition hex_char :: "nat \<Rightarrow> u8" where
  "hex_char d = (if d < 10 then 0x30 + of_nat d else 0x41 + of_nat (d - 10))"

definition hex_digits :: "u32 \<Rightarrow> u8 list" where
  "hex_digits v = map (\<lambda>i. hex_char (unat v div 16 ^ i mod 16)) [7, 6, 5, 4, 3, 2, 1, 0]"

lemma dec_digits_nonempty [simp]: "dec_digits n \<noteq> []"
  by (subst dec_digits.simps) simp

lemma less_10_cases: "(d::nat) < 10 \<Longrightarrow>
    d = 0 \<or> d = 1 \<or> d = 2 \<or> d = 3 \<or> d = 4 \<or> d = 5 \<or> d = 6 \<or> d = 7 \<or> d = 8 \<or> d = 9"
  by arith

lemma less_16_cases: "(d::nat) < 16 \<Longrightarrow> d < 10 \<or> d = 10 \<or> d = 11 \<or> d = 12 \<or> d = 13 \<or> d = 14 \<or> d = 15"
  by arith

section \<open>Fallible state passing\<close>

text \<open>
  Rust's \<open>?\<close> in a method that mutates its receiver: the state is passed on, and the
  first error ends the sequence, keeping the state it was raised in.
\<close>

definition ok_with :: "'a \<Rightarrow> 's \<Rightarrow> ('e + 'a) \<times> 's" where
  "ok_with x s = (Inr x, s)"

definition fail_with :: "'e \<Rightarrow> 's \<Rightarrow> ('e + 'a) \<times> 's" where
  "fail_with e s = (Inl e, s)"

definition try_bind :: "('s \<Rightarrow> ('e + 'a) \<times> 's) \<Rightarrow> ('a \<Rightarrow> 's \<Rightarrow> ('e + 'b) \<times> 's) \<Rightarrow> 's \<Rightarrow> ('e + 'b) \<times> 's" where
  "try_bind m f s = (case m s of (Inl e, s') \<Rightarrow> (Inl e, s') | (Inr x, s') \<Rightarrow> f x s')"

definition try_then :: "('s \<Rightarrow> ('e + 'a) \<times> 's) \<Rightarrow> ('s \<Rightarrow> ('e + 'b) \<times> 's) \<Rightarrow> 's \<Rightarrow> ('e + 'b) \<times> 's" where
  "try_then m f = try_bind m (\<lambda>_. f)"

lemma try_bind_ok: "m s = (Inr x, s') \<Longrightarrow> try_bind m f s = f x s'"
  by (simp add: try_bind_def)

lemma try_bind_err: "m s = (Inl e, s') \<Longrightarrow> try_bind m f s = (Inl e, s')"
  by (simp add: try_bind_def)

lemma try_then_ok: "m s = (Inr x, s') \<Longrightarrow> try_then m f s = f s'"
  by (simp add: try_then_def try_bind_def)

lemma try_then_err: "m s = (Inl e, s') \<Longrightarrow> try_then m f s = (Inl e, s')"
  by (simp add: try_then_def try_bind_def)

lemma try_bind_Inr_iff:
  "try_bind m f s = (Inr y, t) \<longleftrightarrow> (\<exists>x s'. m s = (Inr x, s') \<and> f x s' = (Inr y, t))"
  by (auto simp: try_bind_def split: prod.splits sum.splits)

lemma try_then_Inr_iff:
  "try_then m f s = (Inr y, t) \<longleftrightarrow> (\<exists>x s'. m s = (Inr x, s') \<and> f s' = (Inr y, t))"
  by (auto simp: try_then_def try_bind_Inr_iff)

lemma with_simps [simp]:
  "ok_with x s = (Inr y, t) \<longleftrightarrow> x = y \<and> s = t" "fst (ok_with x s) = Inr x" "snd (ok_with x s) = s"
  "fail_with e s \<noteq> (Inr y, t)" "fst (fail_with e s) = Inl e" "snd (fail_with e s) = s"
  by (simp_all add: ok_with_def fail_with_def)

lemma try_bind_assoc: "try_bind (try_bind m f) g = try_bind m (\<lambda>x. try_bind (f x) g)"
  by (rule ext) (simp add: try_bind_def split: prod.split sum.split)

end
