(* ===== verification/Registry.thy ===== *)
theory Registry
  imports Prelude
begin

text \<open>
  The capability registry (src/capabilities/registry.rs): the identifiers, the address map
  of both targets, the eight-word bitfield with its atomic test-and-set operations, and the
  access check. The bitfield is refined to the set of claimed resource numbers, and the
  interface that its clients rely on is the locale \<open>cap_store\<close>.
\<close>

section \<open>Identifiers and address map\<close>

definition MAX_RESOURCES :: nat where "MAX_RESOURCES = 256"

definition WORDS :: nat where "WORDS = MAX_RESOURCES div 32"

datatype CapId = GpioA | GpioB | Uart0 | Spi0 | I2c0 | Timer0 | Dma0 | SuperUser

text \<open>The discriminants of the \<open>repr(u16)\<close> enum, as the casts \<open>cap_id as usize\<close> read them.\<close>

fun cap_num :: "CapId \<Rightarrow> nat" where
  "cap_num GpioA = 0"
| "cap_num GpioB = 1"
| "cap_num Uart0 = 2"
| "cap_num Spi0 = 3"
| "cap_num I2c0 = 4"
| "cap_num Timer0 = 5"
| "cap_num Dma0 = 6"
| "cap_num SuperUser = 31"

definition arm_addr_to_cap :: "u32 \<Rightarrow> CapId option" where
  "arm_addr_to_cap addr =
     (if 0x40020000 \<le> addr \<and> addr \<le> 0x400203FF then Some GpioA
      else if 0x40020400 \<le> addr \<and> addr \<le> 0x400207FF then Some GpioB
      else if 0x40011000 \<le> addr \<and> addr \<le> 0x400113FF then Some Uart0
      else if 0x40013000 \<le> addr \<and> addr \<le> 0x400133FF then Some Spi0
      else if 0x40015400 \<le> addr \<and> addr \<le> 0x400157FF then Some I2c0
      else if 0x40000000 \<le> addr \<and> addr \<le> 0x400003FF then Some Timer0
      else if 0x40002000 \<le> addr \<and> addr \<le> 0x400023FF then Some Dma0
      else None)"

definition riscv_addr_to_cap :: "u32 \<Rightarrow> CapId option" where
  "riscv_addr_to_cap addr =
     (if 0x10012000 \<le> addr \<and> addr \<le> 0x10012FFF then Some GpioA
      else if 0x10013000 \<le> addr \<and> addr \<le> 0x10013FFF then Some Uart0
      else if 0x10014000 \<le> addr \<and> addr \<le> 0x10014FFF then Some Spi0
      else if 0x10020000 \<le> addr \<and> addr \<le> 0x10020FFF then Some I2c0
      else if 0x10015000 \<le> addr \<and> addr \<le> 0x10015FFF then Some Timer0
      else if 0x10000000 \<le> addr \<and> addr \<le> 0x10000FFF then Some Dma0
      else None)"

fun addr_to_cap_id :: "arch \<Rightarrow> u32 \<Rightarrow> CapId option" where
  "addr_to_cap_id Arm addr = arm_addr_to_cap addr"
| "addr_to_cap_id Riscv32 addr = riscv_addr_to_cap addr"

text \<open>The \<open>is_ram_flash\<close> ranges of \<open>check_access\<close>.\<close>

fun is_ram_flash :: "arch \<Rightarrow> u32 \<Rightarrow> bool" where
  "is_ram_flash Arm addr =
     ((0x08000000 \<le> addr \<and> addr \<le> 0x080FFFFF) \<or> (0x20000000 \<le> addr \<and> addr \<le> 0x2001C000))"
| "is_ram_flash Riscv32 addr =
     ((0x20000000 \<le> addr \<and> addr \<le> 0x2000FFFF) \<or> (0x80000000 \<le> addr \<and> addr \<le> 0x8000FFFF))"

section \<open>The bitfield\<close>

type_synonym registry = "u32 list"

definition REGISTRY_BITS :: registry where
  "REGISTRY_BITS = replicate WORDS 0"

definition available :: "registry \<Rightarrow> nat \<Rightarrow> bool" where
  "available r resource_id =
     (let word = resource_id div 32; b = resource_id mod 32 in
      case slice_get r word of
        Some w \<Rightarrow> w AND push_bit b 1 = 0
      | None \<Rightarrow> False)"

definition is_claimed :: "registry \<Rightarrow> nat \<Rightarrow> bool" where
  "is_claimed r resource_id = (\<not> available r resource_id)"

text \<open>One \<open>fetch_or\<close>: the previous word decides the result, the bit is set in any case.\<close>

definition acquire :: "registry \<Rightarrow> nat \<Rightarrow> bool \<times> registry" where
  "acquire r resource_id =
     (let word = resource_id div 32; b = resource_id mod 32 in
      case slice_get r word of
        Some prev \<Rightarrow>
          (let mask = push_bit b 1 in (prev AND mask = 0, r[word := prev OR mask]))
      | None \<Rightarrow> (False, r))"

definition release :: "registry \<Rightarrow> nat \<Rightarrow> registry" where
  "release r resource_id =
     (let word = resource_id div 32; b = resource_id mod 32 in
      case slice_get r word of
        Some w \<Rightarrow> r[word := w AND NOT (push_bit b 1)]
      | None \<Rightarrow> r)"

definition is_superuser_active :: "registry \<Rightarrow> bool" where
  "is_superuser_active r = (\<not> available r (cap_num SuperUser))"

definition check_access :: "arch \<Rightarrow> registry \<Rightarrow> u32 \<Rightarrow> CapId + unit" where
  "check_access a r addr =
     (if is_superuser_active r then Inr ()
      else case addr_to_cap_id a addr of
        Some cap_id \<Rightarrow> (if \<not> is_claimed r (cap_num cap_id) then Inl cap_id else Inr ())
      | None \<Rightarrow> (if is_ram_flash a addr then Inr () else Inl SuperUser))"

section \<open>Refinement to the set of claimed resources\<close>

definition wf_registry :: "registry \<Rightarrow> bool" where
  "wf_registry r = (length r = WORDS)"

definition claimed_set :: "registry \<Rightarrow> nat set" where
  "claimed_set r = {i. i < 32 * length r \<and> bit (r ! (i div 32)) (i mod 32)}"

lemma WORDS_eq [simp]: "WORDS = 8"
  by (simp add: WORDS_def MAX_RESOURCES_def)

lemma div32_less: "i div 32 < n \<longleftrightarrow> i < 32 * (n::nat)"
  by (auto simp: div_less_iff_less_mult mult.commute)

lemma available_iff: "available r i \<longleftrightarrow> i < 32 * length r \<and> i \<notin> claimed_set r"
  by (auto simp: available_def claimed_set_def slice_get_def and_single_bit_eq_0 div32_less
      simp del: push_bit_of_1)

lemma acquire_fst: "fst (acquire r i) \<longleftrightarrow> i < 32 * length r \<and> i \<notin> claimed_set r"
  by (auto simp: acquire_def claimed_set_def slice_get_def and_single_bit_eq_0 div32_less Let_def
      simp del: push_bit_of_1)

lemma acquire_length [simp]: "length (snd (acquire r i)) = length r"
  by (simp add: acquire_def Let_def split: option.split)

lemma release_length [simp]: "length (release r i) = length r"
  by (simp add: release_def Let_def split: option.split)

lemma same_word_bit: "i div 32 = j div 32 \<Longrightarrow> i mod 32 = j mod 32 \<longleftrightarrow> i = (j::nat)"
  by (metis div_mult_mod_eq)

lemma acquire_claimed:
  assumes "i < 32 * length r"
  shows "claimed_set (snd (acquire r i)) = insert i (claimed_set r)"
proof (rule set_eqI)
  fix j
  have upd: "snd (acquire r i) = r[i div 32 := r ! (i div 32) OR push_bit (i mod 32) 1]"
    using assms by (simp add: acquire_def slice_get_def Let_def div32_less)
  show "j \<in> claimed_set (snd (acquire r i)) \<longleftrightarrow> j \<in> insert i (claimed_set r)"
  proof (cases "j div 32 = i div 32")
    case True
    then show ?thesis
      using assms same_word_bit [OF True]
      by (auto simp: upd claimed_set_def bit_or_iff bit_single_u32 div32_less [symmetric]
          simp del: push_bit_of_1)
  next
    case False
    then show ?thesis by (auto simp: upd claimed_set_def)
  qed
qed

lemma release_claimed: "claimed_set (release r i) = claimed_set r - {i}"
proof (cases "i < 32 * length r")
  case True
  then have upd: "release r i = r[i div 32 := r ! (i div 32) AND NOT (push_bit (i mod 32) 1)]"
    by (simp add: release_def slice_get_def Let_def div32_less)
  show ?thesis
  proof (rule set_eqI)
    fix j
    show "j \<in> claimed_set (release r i) \<longleftrightarrow> j \<in> claimed_set r - {i}"
    proof (cases "j div 32 = i div 32")
      case same: True
      then show ?thesis
        using True same_word_bit [OF same] bit_u32_bound
        by (auto simp: upd claimed_set_def bit_and_iff bit_not_iff bit_single_u32
            div32_less [symmetric] simp del: push_bit_of_1)
    next
      case False
      then show ?thesis by (auto simp: upd claimed_set_def)
    qed
  qed
next
  case False
  then show ?thesis
    by (auto simp: release_def slice_get_def Let_def div32_less claimed_set_def)
qed

lemma wf_registry_ops [simp, intro]:
  "wf_registry r \<Longrightarrow> wf_registry (snd (acquire r i))"
  "wf_registry r \<Longrightarrow> wf_registry (release r i)"
  "wf_registry REGISTRY_BITS"
  by (simp_all add: wf_registry_def REGISTRY_BITS_def)

lemma claimed_set_boot [simp]: "claimed_set REGISTRY_BITS = {}"
  by (auto simp: claimed_set_def REGISTRY_BITS_def div32_less)


section \<open>The interface of a capability store\<close>

text \<open>
  What the token engine and the REPL rely on: availability, test-and-set and clear over a
  fixed range of resource numbers, each seen through the set \<open>held\<close> of claimed numbers.
\<close>

datatype cap_op = Acquire nat | Release nat

text \<open>
  A history of operations by any number of callers, in the order in which the atomic
  operations take effect; the result lists what each call returned (a release returns
  nothing, recorded as \<open>None\<close>).
\<close>

fun cap_run :: "('r \<Rightarrow> nat \<Rightarrow> bool \<times> 'r) \<Rightarrow> ('r \<Rightarrow> nat \<Rightarrow> 'r) \<Rightarrow> 'r \<Rightarrow> cap_op list
    \<Rightarrow> bool option list \<times> 'r" where
  "cap_run acq rel r [] = ([], r)"
| "cap_run acq rel r (Acquire i # ops) =
     (let (ok, r') = acq r i; (res, r'') = cap_run acq rel r' ops in (Some ok # res, r''))"
| "cap_run acq rel r (Release i # ops) =
     (let (res, r'') = cap_run acq rel (rel r i) ops in (None # res, r''))"

text \<open>The abstract store: a plain set of claimed numbers below a bound.\<close>

definition set_acquire :: "nat \<Rightarrow> nat set \<Rightarrow> nat \<Rightarrow> bool \<times> nat set" where
  "set_acquire n S i = (if i < n \<and> i \<notin> S then (True, insert i S) else (False, S))"

definition set_release :: "nat set \<Rightarrow> nat \<Rightarrow> nat set" where
  "set_release S i = S - {i}"

locale cap_store =
  fixes avail :: "'r \<Rightarrow> nat \<Rightarrow> bool"
    and acq :: "'r \<Rightarrow> nat \<Rightarrow> bool \<times> 'r"
    and rel :: "'r \<Rightarrow> nat \<Rightarrow> 'r"
    and held :: "'r \<Rightarrow> nat set"
    and ok :: "'r \<Rightarrow> bool"
    and bound :: nat
  assumes avail_law: "ok r \<Longrightarrow> avail r i \<longleftrightarrow> i < bound \<and> i \<notin> held r"
    and acq_result: "ok r \<Longrightarrow> fst (acq r i) \<longleftrightarrow> avail r i"
    and acq_held: "ok r \<Longrightarrow> held (snd (acq r i)) = (if i < bound then insert i (held r) else held r)"
    and rel_held: "ok r \<Longrightarrow> held (rel r i) = held r - {i}"
    and ok_acq: "ok r \<Longrightarrow> ok (snd (acq r i))"
    and ok_rel: "ok r \<Longrightarrow> ok (rel r i)"
begin

lemma acq_refines: "ok r \<Longrightarrow> set_acquire bound (held r) i = (fst (acq r i), held (snd (acq r i)))"
  by (auto simp: set_acquire_def acq_result avail_law acq_held)

lemma run_refines:
  "ok r \<Longrightarrow> cap_run (set_acquire bound) set_release (held r) ops =
     (fst (cap_run acq rel r ops), held (snd (cap_run acq rel r ops)))"
proof (induction ops arbitrary: r)
  case Nil
  then show ?case by simp
next
  case (Cons x ops)
  show ?case
  proof (cases x)
    case (Acquire i)
    then show ?thesis
      using Cons.IH [OF ok_acq [OF Cons.prems, of i]]
      by (auto simp: acq_refines [OF Cons.prems] split: prod.splits)
  next
    case (Release i)
    then show ?thesis
      using Cons.IH [OF ok_rel [OF Cons.prems, of i]]
      by (auto simp: set_release_def rel_held [OF Cons.prems] split: prod.splits)
  qed
qed

lemma run_ok: "ok r \<Longrightarrow> ok (snd (cap_run acq rel r ops))"
proof (induction ops arbitrary: r)
  case (Cons x ops)
  then show ?case by (cases x) (auto simp: split_beta ok_acq ok_rel)
qed simp

lemma run_keeps_held:
  "ok r \<Longrightarrow> i \<in> held r \<Longrightarrow> Release i \<notin> set ops \<Longrightarrow> i \<in> held (snd (cap_run acq rel r ops))"
proof (induction ops arbitrary: r)
  case (Cons x ops)
  then show ?case by (cases x) (auto simp: split_beta acq_held rel_held ok_acq ok_rel)
qed simp

lemma acquired_until_released:
  assumes "ok r" and "fst (acq r i)" and "Release i \<notin> set ops"
  shows "\<not> fst (acq (snd (cap_run acq rel (snd (acq r i)) ops)) i)"
proof -
  have "i \<in> held (snd (acq r i))"
    using assms(1,2) by (simp add: acq_result avail_law acq_held)
  then have "i \<in> held (snd (cap_run acq rel (snd (acq r i)) ops))"
    using run_keeps_held ok_acq assms(1,3) by blast
  then show ?thesis
    using run_ok [OF ok_acq [OF assms(1)]] by (simp add: acq_result avail_law)
qed

lemma release_frees: "ok r \<Longrightarrow> i < bound \<Longrightarrow> fst (acq (rel r i) i)"
  by (simp add: acq_result avail_law ok_rel rel_held)

end

interpretation reg: cap_store available acquire release claimed_set wf_registry MAX_RESOURCES
proof
  fix r :: registry and i :: nat
  assume ok: "wf_registry r"
  then have len: "32 * length r = MAX_RESOURCES"
    by (simp add: wf_registry_def MAX_RESOURCES_def)
  show "available r i \<longleftrightarrow> i < MAX_RESOURCES \<and> i \<notin> claimed_set r"
    by (simp add: available_iff len)
  show "fst (acquire r i) \<longleftrightarrow> available r i"
    by (simp add: available_iff acquire_fst)
  show "claimed_set (snd (acquire r i)) =
      (if i < MAX_RESOURCES then insert i (claimed_set r) else claimed_set r)"
    using acquire_claimed [of i r] len
    by (auto simp: acquire_def slice_get_def div32_less)
  show "claimed_set (release r i) = claimed_set r - {i}"
    by (rule release_claimed)
  show "wf_registry (snd (acquire r i))" and "wf_registry (release r i)"
    using ok by simp_all
qed

lemma cap_num_bound [simp]: "cap_num c < MAX_RESOURCES"
  by (cases c) (simp_all add: MAX_RESOURCES_def)

lemma cap_num_inject [simp]: "cap_num c = cap_num d \<longleftrightarrow> c = d"
  by (cases c; cases d) simp_all

lemma is_claimed_cap [reg_simps]:
  "wf_registry r \<Longrightarrow> is_claimed r (cap_num c) \<longleftrightarrow> cap_num c \<in> claimed_set r"
  by (simp add: is_claimed_def reg.avail_law)

lemma is_superuser_active_iff [reg_simps]:
  "wf_registry r \<Longrightarrow> is_superuser_active r \<longleftrightarrow> 31 \<in> claimed_set r"
  using is_claimed_cap [of r SuperUser] by (simp add: is_superuser_active_def is_claimed_def)

lemma arm_windows:
  "arm_addr_to_cap addr = Some c \<Longrightarrow>
     c \<noteq> SuperUser \<and> \<not> is_ram_flash Arm addr \<and> 0x40000000 \<le> addr \<and> addr \<le> 0x400207FF"
  by (auto simp: arm_addr_to_cap_def word_le_nat_alt split: if_splits)

lemma riscv_windows:
  "riscv_addr_to_cap addr = Some c \<Longrightarrow>
     c \<noteq> SuperUser \<and> c \<noteq> GpioB \<and> \<not> is_ram_flash Riscv32 addr
     \<and> 0x10000000 \<le> addr \<and> addr \<le> 0x10020FFF"
  by (auto simp: riscv_addr_to_cap_def word_le_nat_alt split: if_splits)

lemma addr_to_cap_not_ram: "addr_to_cap_id a addr = Some c \<Longrightarrow> \<not> is_ram_flash a addr"
  by (cases a) (auto dest: arm_windows riscv_windows simp del: is_ram_flash.simps)


lemma block_range:
  fixes x :: u32
  assumes "unat lo = k * s" and "unat hi = k * s + (s - 1)" and "0 < s"
  shows "lo \<le> x \<and> x \<le> hi \<longleftrightarrow> unat x div s = k"
proof -
  have "unat x div s = k \<longleftrightarrow> k * s \<le> unat x \<and> unat x < k * s + s"
    using assms(3) by (metis add.commute div_nat_eqI dividend_less_div_times div_times_less_eq_dividend
        less_Suc_eq_le mult.commute mult_Suc)
  then show ?thesis
    using assms by (auto simp: word_le_nat_alt)
qed

lemma arm_addr_to_cap_blocks:
  "arm_addr_to_cap x =
     (let k = unat x div 1024 in
      if k = 0x100080 then Some GpioA else if k = 0x100081 then Some GpioB
      else if k = 0x100044 then Some Uart0 else if k = 0x10004C then Some Spi0
      else if k = 0x100055 then Some I2c0 else if k = 0x100000 then Some Timer0
      else if k = 0x100008 then Some Dma0 else None)"
proof -
  have "0x40020000 \<le> x \<and> x \<le> 0x400203FF \<longleftrightarrow> unat x div 1024 = 0x100080"
    "0x40020400 \<le> x \<and> x \<le> 0x400207FF \<longleftrightarrow> unat x div 1024 = 0x100081"
    "0x40011000 \<le> x \<and> x \<le> 0x400113FF \<longleftrightarrow> unat x div 1024 = 0x100044"
    "0x40013000 \<le> x \<and> x \<le> 0x400133FF \<longleftrightarrow> unat x div 1024 = 0x10004C"
    "0x40015400 \<le> x \<and> x \<le> 0x400157FF \<longleftrightarrow> unat x div 1024 = 0x100055"
    "0x40000000 \<le> x \<and> x \<le> 0x400003FF \<longleftrightarrow> unat x div 1024 = 0x100000"
    "0x40002000 \<le> x \<and> x \<le> 0x400023FF \<longleftrightarrow> unat x div 1024 = 0x100008"
    by (rule block_range; simp)+
  then show ?thesis unfolding arm_addr_to_cap_def Let_def by (simp only:)
qed

lemma riscv_addr_to_cap_blocks:
  "riscv_addr_to_cap x =
     (let k = unat x div 4096 in
      if k = 0x10012 then Some GpioA else if k = 0x10013 then Some Uart0
      else if k = 0x10014 then Some Spi0 else if k = 0x10020 then Some I2c0
      else if k = 0x10015 then Some Timer0 else if k = 0x10000 then Some Dma0 else None)"
proof -
  have "0x10012000 \<le> x \<and> x \<le> 0x10012FFF \<longleftrightarrow> unat x div 4096 = 0x10012"
    "0x10013000 \<le> x \<and> x \<le> 0x10013FFF \<longleftrightarrow> unat x div 4096 = 0x10013"
    "0x10014000 \<le> x \<and> x \<le> 0x10014FFF \<longleftrightarrow> unat x div 4096 = 0x10014"
    "0x10020000 \<le> x \<and> x \<le> 0x10020FFF \<longleftrightarrow> unat x div 4096 = 0x10020"
    "0x10015000 \<le> x \<and> x \<le> 0x10015FFF \<longleftrightarrow> unat x div 4096 = 0x10015"
    "0x10000000 \<le> x \<and> x \<le> 0x10000FFF \<longleftrightarrow> unat x div 4096 = 0x10000"
    by (rule block_range; simp)+
  then show ?thesis unfolding riscv_addr_to_cap_def Let_def by (simp only:)
qed

lemma addr_to_cap_block:
  assumes "unat y div 1024 = unat x div 1024"
  shows "addr_to_cap_id a y = addr_to_cap_id a x"
proof -
  have "unat z div 4096 = unat z div 1024 div 4" for z :: u32
    by (simp add: div_mult2_eq [symmetric])
  with assms have "unat y div 4096 = unat x div 4096" by simp
  with assms show ?thesis
    by (cases a) (simp_all only: addr_to_cap_id.simps arm_addr_to_cap_blocks riscv_addr_to_cap_blocks)
qed

section \<open>Properties\<close>

text \<open>C30: the bitfield behaves as a set of claimed resource numbers. For every history of
  \<open>acquire\<close> and \<open>release\<close> calls, from any callers in any order, each \<open>acquire\<close>
  returns exactly what a test-and-set on the set returns, and the bits afterwards are the
  set afterwards.\<close>

theorem registry_refines_set:
  assumes "wf_registry r"
  shows "cap_run (set_acquire MAX_RESOURCES) set_release (claimed_set r) ops =
    (fst (cap_run acquire release r ops), claimed_set (snd (cap_run acquire release r ops)))"
  using assms by (rule reg.run_refines)

theorem registry_refines_set_witness:
  "cap_run acquire release REGISTRY_BITS [Acquire 5, Acquire 37, Acquire 5, Release 5, Acquire 5]
     = ([Some True, Some True, Some False, None, Some True],
        snd (cap_run acquire release REGISTRY_BITS
          [Acquire 5, Acquire 37, Acquire 5, Release 5, Acquire 5]))"
proof -
  let ?ops = "[Acquire 5, Acquire 37, Acquire 5, Release 5, Acquire 5]"
  have abs: "fst (cap_run (set_acquire MAX_RESOURCES) set_release {} ?ops)
      = [Some True, Some True, Some False, None, Some True]"
    by (simp add: set_acquire_def set_release_def MAX_RESOURCES_def)
  have "fst (cap_run acquire release REGISTRY_BITS ?ops)
      = fst (cap_run (set_acquire MAX_RESOURCES) set_release {} ?ops)"
    using registry_refines_set [OF wf_registry_ops(3), of ?ops] by (simp only: claimed_set_boot fst_conv)
  with abs show ?thesis by (metis prod.collapse)
qed

text \<open>C1: exclusive ownership. Once \<open>acquire\<close> has succeeded on a resource, every later
  \<open>acquire\<close> of it fails until some caller releases it, whatever else happens to the
  registry in between.\<close>

theorem acquire_exclusive:
  assumes "wf_registry r" and "fst (acquire r i)" and "Release i \<notin> set ops"
  shows "\<not> fst (acquire (snd (cap_run acquire release (snd (acquire r i)) ops)) i)"
  using assms by (rule reg.acquired_until_released)

theorem acquire_exclusive_witness:
  "\<not> fst (acquire (snd (cap_run acquire release (snd (acquire REGISTRY_BITS 2)) [Acquire 3, Release 3])) 2)"
  by (rule acquire_exclusive)
     (simp_all add: wf_registry_def REGISTRY_BITS_def acquire_def slice_get_def)

text \<open>C2: the access check, on every branch. Access is granted exactly when SUPERUSER is
  claimed, or the address lies in a peripheral window whose capability is claimed, or it lies
  in RAM or flash; otherwise the refusal names the capability of the window, or SUPERUSER
  for an address outside every window (fail-closed).\<close>

theorem check_access_spec:
  assumes "wf_registry r"
  shows "check_access a r addr =
    (if 31 \<in> claimed_set r \<or> is_ram_flash a addr
        \<or> (\<exists>c. addr_to_cap_id a addr = Some c \<and> cap_num c \<in> claimed_set r)
     then Inr ()
     else Inl (case addr_to_cap_id a addr of Some c \<Rightarrow> c | None \<Rightarrow> SuperUser))"
  using assms addr_to_cap_not_ram [of a addr]
  by (auto simp: check_access_def reg_simps simp del: cap_num.simps split: option.split)

theorem check_access_spec_witness:
  "check_access Arm REGISTRY_BITS 0x40020014 = Inl GpioA
   \<and> check_access Riscv32 REGISTRY_BITS 0x50000000 = Inl SuperUser
   \<and> check_access Arm REGISTRY_BITS 0x20000100 = Inr ()"
  using check_access_spec [of REGISTRY_BITS Arm "0x40020014"]
    check_access_spec [of REGISTRY_BITS Riscv32 "0x50000000"]
    check_access_spec [of REGISTRY_BITS Arm "0x20000100"]
  by (simp add: arm_addr_to_cap_def riscv_addr_to_cap_def wf_registry_ops(3))

text \<open>The address map. A peripheral window never overlaps RAM or flash and never yields
  SUPERUSER, GPIOB has no window on RISC-V, and the window is decided by the 1 KiB block of
  the address, so every register of a block needs the same capability.\<close>

lemma addr_map_windows:
  assumes "addr_to_cap_id a x = Some c"
  shows "c \<noteq> SuperUser \<and> (a, c) \<noteq> (Riscv32, GpioB) \<and> \<not> is_ram_flash a x
    \<and> (unat y div 1024 = unat x div 1024 \<longrightarrow> addr_to_cap_id a y = Some c)"
proof -
  have "c \<noteq> SuperUser \<and> (a, c) \<noteq> (Riscv32, GpioB)"
    using assms by (cases a) (auto dest: arm_windows riscv_windows simp del: is_ram_flash.simps)
  then show ?thesis
    using assms addr_to_cap_not_ram [OF assms] addr_to_cap_block [of y x a] by (simp del: is_ram_flash.simps)
qed

end
