(* ===== verification/Bus.thy ===== *)
theory Bus
  imports Prelude
begin

text \<open>
  Raw memory access (the unchecked half of src/kernel/memory.rs). The hardware behind the
  address bus is not part of the source: it is a parameter, a record of the three ways in
  which the code touches it, over any type \<open>'h\<close> of hardware states. A read may change
  the state (a UART data register does), so it returns one. \<open>ram_bus\<close> is plain memory
  and \<open>traced\<close> records what any bus was asked to do; both serve to state properties.
\<close>

record 'h bus =
  rd :: "u32 \<Rightarrow> 'h \<Rightarrow> u32 \<times> 'h"
  wr :: "u32 \<Rightarrow> u32 \<Rightarrow> 'h \<Rightarrow> 'h"
  mcycle :: "'h \<Rightarrow> u32 \<times> 'h"

section \<open>Volatile accesses\<close>

definition peek_u32 :: "'h bus \<Rightarrow> u32 \<Rightarrow> 'h \<Rightarrow> u32 \<times> 'h" where
  "peek_u32 B addr h = rd B addr h"

definition poke_u32 :: "'h bus \<Rightarrow> u32 \<Rightarrow> u32 \<Rightarrow> 'h \<Rightarrow> 'h" where
  "poke_u32 B addr value h = wr B addr value h"

definition reg_set_bit :: "'h bus \<Rightarrow> u32 \<Rightarrow> nat \<Rightarrow> 'h \<Rightarrow> 'h" where
  "reg_set_bit B addr b h =
     (let (v, h') = peek_u32 B addr h; updated = v OR push_bit b 1 in poke_u32 B addr updated h')"

definition reg_clr_bit :: "'h bus \<Rightarrow> u32 \<Rightarrow> nat \<Rightarrow> 'h \<Rightarrow> 'h" where
  "reg_clr_bit B addr b h =
     (let (v, h') = peek_u32 B addr h; updated = v AND NOT (push_bit b 1) in poke_u32 B addr updated h')"

section \<open>Boot: .data and .bss\<close>

text \<open>The linker symbols that \<open>init_data_bss\<close> takes from the layout script.\<close>

record linker =
  sidata :: u32
  sdata :: u32
  edata :: u32
  sbss :: u32
  ebss :: u32

text \<open>
  The two loops advance a word pointer until it reaches the end symbol; nothing in the code
  excludes a misaligned end near the top of the address space, where the pointer would wrap,
  so each is a partial function (\<open>None\<close>: it does not return).
\<close>

partial_function (option) copy_data :: "'h bus \<Rightarrow> u32 \<Rightarrow> u32 \<Rightarrow> u32 \<Rightarrow> 'h \<Rightarrow> 'h option" where
  "copy_data B src dst data_end h =
     (if dst < data_end then
        copy_data B (src + 4) (dst + 4) data_end
          (poke_u32 B dst (fst (peek_u32 B src h)) (snd (peek_u32 B src h)))
      else Some h)"

partial_function (option) zero_bss :: "'h bus \<Rightarrow> u32 \<Rightarrow> u32 \<Rightarrow> 'h \<Rightarrow> 'h option" where
  "zero_bss B z bss_end h =
     (if z < bss_end then zero_bss B (z + 4) bss_end (poke_u32 B z 0 h) else Some h)"

definition init_data_bss :: "'h bus \<Rightarrow> linker \<Rightarrow> 'h \<Rightarrow> 'h option" where
  "init_data_bss B l h =
     Option.bind (copy_data B (sidata l) (sdata l) (edata l) h)
       (\<lambda>h'. zero_bss B (sbss l) (ebss l) h')"

section \<open>Reference buses\<close>

text \<open>Plain word-addressed memory with a free-running cycle counter of value 0.\<close>

definition ram_bus :: "(u32 \<Rightarrow> u32) bus" where
  "ram_bus = \<lparr>rd = (\<lambda>a m. (m a, m)), wr = (\<lambda>a v m. m(a := v)), mcycle = (\<lambda>m. (0, m))\<rparr>"

datatype access = Rd u32 u32 | Wr u32 u32

fun is_write :: "access \<Rightarrow> bool" where
  "is_write (Rd a v) = False"
| "is_write (Wr a v) = True"

fun acc_addr :: "access \<Rightarrow> u32" where
  "acc_addr (Rd a v) = a"
| "acc_addr (Wr a v) = a"

text \<open>Any bus, with a log of the accesses, oldest first.\<close>

definition traced :: "'h bus \<Rightarrow> ('h \<times> access list) bus" where
  "traced B =
     \<lparr>rd = (\<lambda>a (h, tr). let (v, h') = rd B a h in (v, (h', tr @ [Rd a v]))),
      wr = (\<lambda>a v (h, tr). (wr B a v h, tr @ [Wr a v])),
      mcycle = (\<lambda>(h, tr). let (c, h') = mcycle B h in (c, (h', tr)))\<rparr>"

lemma ram_bus_simps [simp]:
  "rd ram_bus a m = (m a, m)" "wr ram_bus a v m = m(a := v)" "mcycle ram_bus m = (0, m)"
  by (simp_all add: ram_bus_def)

lemma traced_simps [hw_simps]:
  "rd (traced B) a (h, tr) = (fst (rd B a h), (snd (rd B a h), tr @ [Rd a (fst (rd B a h))]))"
  "wr (traced B) a v (h, tr) = (wr B a v h, tr @ [Wr a v])"
  "mcycle (traced B) (h, tr) = (fst (mcycle B h), (snd (mcycle B h), tr))"
  by (simp_all add: traced_def split_beta)

text \<open>
  Bus faults. The accesses of a bus are total: each one returns and the code goes on. A core that
  is asked for an address where nothing answers, or for a misaligned one, takes an exception
  instead and does not come back (\<open>fault_hang\<close> on ARM, \<open>trap_stub\<close> on RISC-V). With \<open>F\<close> the
  set of such addresses, what happens on a real core is what happens on the total bus up to its
  first access in \<open>F\<close>, and there the execution ends.
\<close>

definition first_fault :: "(u32 \<Rightarrow> bool) \<Rightarrow> access list \<Rightarrow> access option" where
  "first_fault F s = find (\<lambda>x. F (acc_addr x)) s"

lemma first_fault_simps [simp]:
  "first_fault F [] = None" "first_fault F (x # s) = (if F (acc_addr x) then Some x else first_fault F s)"
  by (simp_all add: first_fault_def)

lemma first_fault_SomeD: "first_fault F s = Some x \<Longrightarrow> x \<in> set s \<and> F (acc_addr x)"
  by (auto simp: first_fault_def find_Some_iff in_set_conv_nth)

lemma first_fault_None: "first_fault F s = None \<longleftrightarrow> (\<forall>x \<in> set s. \<not> F (acc_addr x))"
  by (auto simp: first_fault_def find_None_iff)

lemma first_fault_append:
  "first_fault F (s @ t) = (case first_fault F s of Some x \<Rightarrow> Some x | None \<Rightarrow> first_fault F t)"
  by (induction s) simp_all

text \<open>A predicate on hardware states that reading does not change.\<close>

definition read_closed :: "'h bus \<Rightarrow> ('h \<Rightarrow> bool) \<Rightarrow> bool" where
  "read_closed B P \<longleftrightarrow> (\<forall>a h. P h \<longrightarrow> P (snd (rd B a h)))"

lemma read_closedD: "read_closed B P \<Longrightarrow> P h \<Longrightarrow> P (snd (rd B a h))"
  by (simp add: read_closed_def)

lemma peek_ram [simp]: "peek_u32 ram_bus a m = (m a, m)"
  by (simp add: peek_u32_def)

lemma poke_ram [simp]: "poke_u32 ram_bus a v m = m(a := v)"
  by (simp add: poke_u32_def)

section \<open>Bit updates\<close>

lemma reg_set_bit_ram:
  "reg_set_bit ram_bus a b m = m(a := m a OR push_bit b 1)"
  by (simp add: reg_set_bit_def)

lemma reg_clr_bit_ram:
  "reg_clr_bit ram_bus a b m = m(a := m a AND NOT (push_bit b 1))"
  by (simp add: reg_clr_bit_def)

text \<open>The read-modify-write helpers change exactly one bit of exactly one word of plain
  memory: \<open>reg_set_bit\<close> sets it, \<open>reg_clr_bit\<close> clears it, and every other bit of the
  register and every other word keeps its value.\<close>

lemma reg_bit_exact:
  assumes "b < 32"
  shows "bit (reg_set_bit ram_bus a b m x) k = (if x = a \<and> k = b then True else bit (m x) k)
    \<and> bit (reg_clr_bit ram_bus a b m x) k = (if x = a \<and> k = b then False else bit (m x) k)"
  using assms bit_u32_bound [of "m a" k]
  by (auto simp: reg_set_bit_ram reg_clr_bit_ram bit_or_iff bit_and_iff bit_not_iff bit_single_u32
      simp del: push_bit_of_1)

section \<open>Boot initialisation on plain memory\<close>

text \<open>The word addresses of a section of \<open>n\<close> words.\<close>

definition words_at :: "u32 \<Rightarrow> nat \<Rightarrow> u32 set" where
  "words_at d n = (\<lambda>i. d + 4 * of_nat i) ` {..<n}"

lemma words_at_0 [simp]: "words_at d 0 = {}"
  by (simp add: words_at_def)

lemma words_at_Suc: "words_at d (Suc n) = insert d (words_at (d + 4) n)"
  by (auto simp: words_at_def lessThan_Suc_eq_insert_0 image_image algebra_simps)

lemma words_at_offset: "x \<in> words_at d n \<Longrightarrow> s + (x - d) \<in> words_at s n"
  by (auto simp: words_at_def)

lemma section_end:
  fixes d :: u32
  assumes "unat d + 4 * n < 2 ^ 32"
  shows "unat (d + 4 * of_nat n) = unat d + 4 * n"
proof -
  have "unat (of_nat (4 * n) :: u32) = 4 * n"
    using assms by (simp add: unat_of_nat del: of_nat_mult)
  then show ?thesis
    using assms unat_add_small [of d "of_nat (4 * n)"] by simp
qed

lemma section_step:
  fixes d :: u32
  assumes "unat d + 4 * Suc n < 2 ^ 32"
  shows "d < d + 4 * of_nat (Suc n)" "unat (d + 4) + 4 * n < 2 ^ 32"
    "d + 4 + 4 * of_nat n = d + 4 * of_nat (Suc n)" "d \<notin> words_at (d + 4) n"
proof -
  show "d < d + 4 * of_nat (Suc n)"
    using section_end [OF assms] by (simp add: word_less_nat_alt)
  have d4: "unat (d + 4) = unat d + 4"
    using assms unat_add_small [of d 4] by simp
  then show "unat (d + 4) + 4 * n < 2 ^ 32" using assms by simp
  show "d + 4 + 4 * of_nat n = d + 4 * of_nat (Suc n)" by (simp add: algebra_simps)
  have "d \<noteq> d + 4 + 4 * of_nat i" if "i < n" for i
  proof
    assume eq: "d = d + 4 + 4 * of_nat i"
    have "unat (d + 4 + 4 * of_nat i) = unat d + 4 + 4 * i"
      using section_end [of "d + 4" i] assms that d4 by simp
    with arg_cong [OF eq, of unat] show False by linarith
  qed
  then show "d \<notin> words_at (d + 4) n" by (auto simp: words_at_def)
qed

lemma copy_data_ram:
  assumes "unat d + 4 * n < 2 ^ 32" and "words_at s n \<inter> words_at d n = {}"
  shows "copy_data ram_bus s d (d + 4 * of_nat n) m =
    Some (\<lambda>x. if x \<in> words_at d n then m (s + (x - d)) else m x)"
  using assms
proof (induction n arbitrary: s d m)
  case 0
  then show ?case by (simp add: copy_data.simps)
next
  case (Suc n)
  note step = section_step [OF Suc.prems(1)]
  have disj: "words_at (s + 4) n \<inter> words_at (d + 4) n = {}" and "d \<notin> words_at s (Suc n)"
    using Suc.prems(2) by (auto simp: words_at_Suc)
  then have m1: "(m(d := m s)) (s + 4 + (x - (d + 4))) = m (s + (x - d))"
    if "x \<in> words_at (d + 4) n" for x
    using words_at_offset [OF that, of "s + 4"] by (auto simp: words_at_Suc algebra_simps)
  have "copy_data ram_bus s d (d + 4 * of_nat (Suc n)) m =
      copy_data ram_bus (s + 4) (d + 4) (d + 4 + 4 * of_nat n) (m(d := m s))"
    using step(1) by (subst copy_data.simps) (simp only: step(3) peek_ram poke_ram fst_conv snd_conv if_True)
  also have "\<dots> = Some (\<lambda>x. if x \<in> words_at (d + 4) n
      then (m(d := m s)) (s + 4 + (x - (d + 4))) else (m(d := m s)) x)"
    by (rule Suc.IH [OF step(2) disj])
  also have "\<dots> = Some (\<lambda>x. if x \<in> words_at d (Suc n) then m (s + (x - d)) else m x)"
  proof (intro arg_cong [where f = Some] ext)
    fix x
    show "(if x \<in> words_at (d + 4) n then (m(d := m s)) (s + 4 + (x - (d + 4))) else (m(d := m s)) x)
      = (if x \<in> words_at d (Suc n) then m (s + (x - d)) else m x)"
    proof (cases "x \<in> words_at (d + 4) n")
      case True
      then show ?thesis using m1 [OF True] by (simp only: words_at_Suc insert_iff if_True simp_thms)
    next
      case False
      then show ?thesis by (simp add: words_at_Suc)
    qed
  qed
  finally show ?case .
qed

lemma zero_bss_ram:
  assumes "unat z + 4 * n < 2 ^ 32"
  shows "zero_bss ram_bus z (z + 4 * of_nat n) m = Some (\<lambda>x. if x \<in> words_at z n then 0 else m x)"
  using assms
proof (induction n arbitrary: z m)
  case 0
  then show ?case by (simp add: zero_bss.simps)
next
  case (Suc n)
  note step = section_step [OF Suc.prems(1)]
  have "zero_bss ram_bus z (z + 4 * of_nat (Suc n)) m =
      zero_bss ram_bus (z + 4) (z + 4 + 4 * of_nat n) (m(z := 0))"
    using step(1) by (subst zero_bss.simps) (simp only: step(3) poke_ram if_True)
  then show ?case
    using Suc.IH [OF step(2), of "m(z := 0)"] by (auto simp: words_at_Suc)
qed

text \<open>C40: boot initialisation terminates and does what start-up code promises. With word
  counts \<open>n\<close> and \<open>k\<close> between the linker symbols, sections that stay below the top of
  the address space, and a flash image that the destination does not overlap,
  \<open>init_data_bss\<close> returns, every word of .bss is 0, every other word of .data equals the
  corresponding word of the image, and no other word changes.\<close>

theorem init_data_bss_correct:
  assumes "edata l = sdata l + 4 * of_nat n" and "unat (sdata l) + 4 * n < 2 ^ 32"
    and "ebss l = sbss l + 4 * of_nat k" and "unat (sbss l) + 4 * k < 2 ^ 32"
    and "words_at (sidata l) n \<inter> words_at (sdata l) n = {}"
  shows "init_data_bss ram_bus l m = Some (\<lambda>x.
    if x \<in> words_at (sbss l) k then 0
    else if x \<in> words_at (sdata l) n then m (sidata l + (x - sdata l))
    else m x)"
  using assms by (auto simp: init_data_bss_def copy_data_ram zero_bss_ram)

theorem init_data_bss_correct_witness:
  "init_data_bss ram_bus
     \<lparr>sidata = 0x08000100, sdata = 0x20003000, edata = 0x20003008, sbss = 0x20003008, ebss = 0x2000300C\<rparr>
     (\<lambda>a. a)
   = Some (\<lambda>x. if x = 0x20003008 then 0
       else if x \<in> {0x20003000, 0x20003004} then 0x08000100 + (x - 0x20003000) else x)"
proof -
  have sets: "words_at 0x20003000 2 = {0x20003000, 0x20003004}" "words_at 0x20003008 1 = {0x20003008}"
    "words_at 0x08000100 2 = {0x08000100, 0x08000104}"
    by (auto simp: words_at_def lessThan_Suc numeral_2_eq_2)
  show ?thesis
    using init_data_bss_correct [of "\<lparr>sidata = 0x08000100, sdata = 0x20003000, edata = 0x20003008,
        sbss = 0x20003008, ebss = 0x2000300C\<rparr>" 2 1 "\<lambda>a. a"]
    by (simp only: linker.simps sets) (simp add: words_at_Suc)
qed

end
