(* ===== verification/AuditRing.thy ===== *)
theory AuditRing
  imports Bus
begin

text \<open>
  The SuperUser audit log (src/capabilities/audit.rs): a ring of sixteen records and a
  saturating counter. The ring is refined to the full history of recorded events: slot
  \<open>k\<close> always holds the latest event whose number is \<open>k\<close> modulo 16.
\<close>

record AuditEntry =
  ae_addr :: u32
  ae_val :: u32
  ae_cycles :: u32

record AuditLog =
  buffer :: "AuditEntry list"
  head :: nat
  count :: nat

definition zero_entry :: AuditEntry where
  "zero_entry = \<lparr>ae_addr = 0, ae_val = 0, ae_cycles = 0\<rparr>"

definition audit_new :: AuditLog where
  "audit_new = \<lparr>buffer = replicate 16 zero_entry, head = 0, count = 0\<rparr>"

text \<open>
  The cycle counter: the memory-mapped DWT register on ARM, the \<open>mcycle\<close> CSR on RISC-V.
\<close>

fun get_cycle_count :: "arch \<Rightarrow> 'h bus \<Rightarrow> 'h \<Rightarrow> u32 \<times> 'h" where
  "get_cycle_count Arm B h = rd B 0xE0001004 h"
| "get_cycle_count Riscv32 B h = mcycle B h"

text \<open>The store into the ring, once the cycle counter has been read.\<close>

definition push_entry :: "AuditEntry \<Rightarrow> AuditLog \<Rightarrow> AuditLog" where
  "push_entry e l =
     l\<lparr>buffer := (buffer l)[head l := e], head := (head l + 1) mod 16,
       count := saturating_add (count l) 1\<rparr>"

definition record_event :: "arch \<Rightarrow> 'h bus \<Rightarrow> AuditLog \<Rightarrow> u32 \<Rightarrow> u32 \<Rightarrow> 'h \<Rightarrow> AuditLog \<times> 'h" where
  "record_event a B l addr val h =
     (let (cycles, h') = get_cycle_count a B h
      in (push_entry \<lparr>ae_addr = addr, ae_val = val, ae_cycles = cycles\<rparr> l, h'))"

definition total_audits :: "AuditLog \<Rightarrow> nat" where
  "total_audits l = count l"

definition entries :: "AuditLog \<Rightarrow> AuditEntry list" where
  "entries l = buffer l"

section \<open>Refinement to the history of events\<close>

text \<open>
  \<open>audit_rep es l\<close>: the log \<open>l\<close> stands for the history \<open>es\<close>, oldest event first.
\<close>

definition audit_rep :: "AuditEntry list \<Rightarrow> AuditLog \<Rightarrow> bool" where
  "audit_rep es l \<longleftrightarrow>
     length (buffer l) = 16 \<and> head l = length es mod 16
     \<and> count l = min (length es) (2 ^ 32 - 1)
     \<and> (\<forall>i < length es. length es \<le> i + 16 \<longrightarrow> buffer l ! (i mod 16) = es ! i)
     \<and> (\<forall>k < 16. length es \<le> k \<longrightarrow> buffer l ! k = zero_entry)"

lemma audit_rep_new: "audit_rep [] audit_new"
  by (simp add: audit_rep_def audit_new_def)

lemma mod16_distinct:
  fixes i n :: nat
  assumes "i < n" and "n < i + 16"
  shows "i mod 16 \<noteq> n mod 16"
proof
  assume "i mod 16 = n mod 16"
  then have "16 dvd n - i"
    using assms(1) by (metis less_imp_le_nat mod_eq_dvd_iff_nat)
  then have "16 \<le> n - i" using assms(1) by (simp add: dvd_imp_le)
  with assms(2) show False by simp
qed

lemma audit_rep_push:
  assumes "audit_rep es l"
  shows "audit_rep (es @ [e]) (push_entry e l)"
proof -
  let ?n = "length es"
  have len: "length (buffer l) = 16" and hd: "head l = ?n mod 16"
    and cnt: "count l = min ?n (2 ^ 32 - 1)"
    and keep: "\<And>i. i < ?n \<Longrightarrow> ?n \<le> i + 16 \<Longrightarrow> buffer l ! (i mod 16) = es ! i"
    and zero: "\<And>k. k < 16 \<Longrightarrow> ?n \<le> k \<Longrightarrow> buffer l ! k = zero_entry"
    using assms by (auto simp: audit_rep_def)
  have new: "(buffer l)[?n mod 16 := e] ! (i mod 16) = (es @ [e]) ! i"
    if i: "i < Suc ?n" "Suc ?n \<le> i + 16" for i
  proof (cases "i = ?n")
    case True
    then show ?thesis using len by simp
  next
    case False
    with i have "i < ?n" by simp
    then show ?thesis
      using keep [of i] mod16_distinct [of i ?n] i(2) by (simp add: nth_append)
  qed
  have old: "(buffer l)[?n mod 16 := e] ! k = zero_entry" if "k < 16" "Suc ?n \<le> k" for k
    using that zero [of k] by simp
  show ?thesis
    unfolding audit_rep_def push_entry_def
    using len hd cnt new old by (auto simp: mod_Suc_eq saturating_add_def)
qed

fun record_all :: "AuditEntry list \<Rightarrow> AuditLog \<Rightarrow> AuditLog" where
  "record_all [] l = l"
| "record_all (e # es) l = record_all es (push_entry e l)"

lemma audit_rep_record_all: "audit_rep hist l \<Longrightarrow> audit_rep (hist @ es) (record_all es l)"
proof (induction es arbitrary: hist l)
  case (Cons e es)
  then show ?case using audit_rep_push [of hist l e] Cons.IH [of "hist @ [e]"] by simp
qed simp

text \<open>A sequence of recorded accesses on the hardware, and the records it makes: the address
  and value of each access with the cycle count read at that moment.\<close>

fun record_events :: "arch \<Rightarrow> 'h bus \<Rightarrow> AuditLog \<Rightarrow> (u32 \<times> u32) list \<Rightarrow> 'h \<Rightarrow> AuditLog \<times> 'h" where
  "record_events a B l [] h = (l, h)"
| "record_events a B l ((addr, val) # xs) h =
     (let (l', h') = record_event a B l addr val h in record_events a B l' xs h')"

fun stamped :: "arch \<Rightarrow> 'h bus \<Rightarrow> (u32 \<times> u32) list \<Rightarrow> 'h \<Rightarrow> AuditEntry list" where
  "stamped a B [] h = []"
| "stamped a B ((addr, val) # xs) h =
     (let (c, h') = get_cycle_count a B h
      in \<lparr>ae_addr = addr, ae_val = val, ae_cycles = c\<rparr> # stamped a B xs h')"

lemma length_stamped [simp]: "length (stamped a B xs h) = length xs"
  by (induction xs arbitrary: h) (auto simp: split_beta)

lemma record_events_stamped:
  "fst (record_events a B l xs h) = record_all (stamped a B xs h) l"
  by (induction xs arbitrary: l h) (auto simp: split_beta record_event_def)

text \<open>C36: the ring keeps the last sixteen events. After any sequence of accesses recorded since
  boot, the record of every one of the last sixteen (address, value, cycle count at that moment)
  is in the slot given by its number modulo 16, the ring has sixteen slots and a write index
  below 16, and the counter is the number of events, saturated at the largest \<open>usize\<close>.\<close>

theorem audit_keeps_last_sixteen:
  assumes "i < length xs" and "length xs \<le> i + 16"
    and "log = fst (record_events a B audit_new xs h)"
  shows "entries log ! (i mod 16) = stamped a B xs h ! i
    \<and> length (entries log) = 16 \<and> head log < 16
    \<and> total_audits log = min (length xs) (2 ^ 32 - 1)"
  using audit_rep_record_all [OF audit_rep_new, of "stamped a B xs h"] assms
  by (simp add: audit_rep_def entries_def total_audits_def record_events_stamped)

definition audit_example :: "(u32 \<times> u32) list" where
  "audit_example = map (\<lambda>n. (of_nat n, 1)) [0..<20]"

lemma stamped_ram:
  "stamped Riscv32 ram_bus xs m = map (\<lambda>(ad, v). \<lparr>ae_addr = ad, ae_val = v, ae_cycles = 0\<rparr>) xs"
  by (induction xs) auto

theorem audit_keeps_last_sixteen_witness:
  "entries (fst (record_events Riscv32 ram_bus audit_new audit_example (\<lambda>_. 0))) ! 3
     = \<lparr>ae_addr = 19, ae_val = 1, ae_cycles = 0\<rparr>"
  using audit_keeps_last_sixteen [of 19 audit_example _ Riscv32 ram_bus "\<lambda>_. 0", OF _ _ refl]
  by (simp add: audit_example_def stamped_ram)

end
