(* ===== verification/Memory.thy ===== *)
theory Memory
  imports Registry AuditRing
begin

text \<open>
  Capability-enforced access (the guarded half of src/kernel/memory.rs): every peripheral
  address needs its capability, SUPERUSER bypasses the check and its writes are recorded
  in the audit log.
\<close>

datatype MemError = MemCapabilityViolation | PermissionDenied

fun mem_error_bytes :: "MemError \<Rightarrow> u8 list" where
  "mem_error_bytes MemCapabilityViolation =
     byte_str ''E001: CAPABILITY_VIOLATION - Peripheral token not claimed''"
| "mem_error_bytes PermissionDenied =
     byte_str ''E002: PERMISSION_DENIED - Unmapped MMIO access requires SuperUserCap''"

definition enforced_poke_u32 ::
    "arch \<Rightarrow> registry \<Rightarrow> 'h bus \<Rightarrow> AuditLog \<Rightarrow> u32 \<Rightarrow> u32 \<Rightarrow> 'h \<Rightarrow> (MemError + unit) \<times> AuditLog \<times> 'h" where
  "enforced_poke_u32 a r B l addr v h =
     (if is_superuser_active r then
        (let (l', h') = record_event a B l addr v h in (Inr (), l', wr B addr v h'))
      else case addr_to_cap_id a addr of
        Some cap_id \<Rightarrow>
          (if \<not> is_claimed r (cap_num cap_id) then (Inl MemCapabilityViolation, l, h)
           else (Inr (), l, wr B addr v h))
      | None \<Rightarrow> (Inr (), l, wr B addr v h))"

definition enforced_peek_u32 ::
    "arch \<Rightarrow> registry \<Rightarrow> 'h bus \<Rightarrow> u32 \<Rightarrow> 'h \<Rightarrow> (MemError + u32) \<times> 'h" where
  "enforced_peek_u32 a r B addr h =
     (if is_superuser_active r then
        (let (v, h') = rd B addr h in (Inr v, h'))
      else case addr_to_cap_id a addr of
        Some cap_id \<Rightarrow>
          (if \<not> is_claimed r (cap_num cap_id) then (Inl MemCapabilityViolation, h)
           else (let (v, h') = rd B addr h in (Inr v, h')))
      | None \<Rightarrow> (let (v, h') = rd B addr h in (Inr v, h')))"

section \<open>What the guards allow\<close>

text \<open>The condition under which the guarded operations touch the address.\<close>

definition permits :: "arch \<Rightarrow> registry \<Rightarrow> u32 \<Rightarrow> bool" where
  "permits a r addr \<longleftrightarrow>
     31 \<in> claimed_set r
     \<or> (\<forall>c. addr_to_cap_id a addr = Some c \<longrightarrow> cap_num c \<in> claimed_set r)"

lemma permits_peripheral:
  "addr_to_cap_id a addr = Some c \<Longrightarrow> permits a r addr \<longleftrightarrow> 31 \<in> claimed_set r \<or> cap_num c \<in> claimed_set r"
  by (simp add: permits_def)

lemma check_access_permits:
  "wf_registry r \<Longrightarrow> check_access a r addr = Inr () \<Longrightarrow> permits a r addr"
  by (auto simp: check_access_def permits_def reg_simps simp del: cap_num.simps split: option.splits if_splits)

lemma enforced_peek_cases:
  assumes "wf_registry r"
  shows "enforced_peek_u32 a r B addr h =
    (if permits a r addr then (Inr (fst (rd B addr h)), snd (rd B addr h))
     else (Inl MemCapabilityViolation, h))"
  using assms
  by (auto simp: enforced_peek_u32_def permits_def reg_simps split_beta simp del: cap_num.simps split: option.splits)

lemma enforced_poke_cases:
  assumes "wf_registry r"
  shows "enforced_poke_u32 a r B l addr v h =
    (if \<not> permits a r addr then (Inl MemCapabilityViolation, l, h)
     else if 31 \<in> claimed_set r then
       (Inr (), fst (record_event a B l addr v h), wr B addr v (snd (record_event a B l addr v h)))
     else (Inr (), l, wr B addr v h))"
  using assms
  by (auto simp: enforced_poke_u32_def permits_def reg_simps split_beta simp del: cap_num.simps split: option.splits)

text \<open>The accesses that reading the cycle counter puts on the bus.\<close>

fun cycle_accesses :: "arch \<Rightarrow> 'h bus \<Rightarrow> 'h \<Rightarrow> access list" where
  "cycle_accesses Arm B h = [Rd 0xE0001004 (fst (rd B 0xE0001004 h))]"
| "cycle_accesses Riscv32 B h = []"

lemma record_event_traced:
  "record_event a (traced B) l addr v (h, tr) =
     (fst (record_event a B l addr v h),
      (snd (record_event a B l addr v h), tr @ cycle_accesses a B h))"
  by (cases a) (auto simp: record_event_def hw_simps split_beta)

section \<open>Properties\<close>

text \<open>The guarded write, on every branch and on any hardware. If the guard refuses, the
  answer is E001 and the bus is not touched; if SUPERUSER is claimed the write happens and
  the log gains exactly this event; otherwise exactly the one write happens and the log is
  unchanged.\<close>

lemma enforced_poke_spec:
  assumes "wf_registry r"
  shows "enforced_poke_u32 a r (traced B) l addr v (h, []) =
    (if \<not> permits a r addr then (Inl MemCapabilityViolation, l, (h, []))
     else if 31 \<in> claimed_set r then
       (Inr (), push_entry \<lparr>ae_addr = addr, ae_val = v, ae_cycles = fst (get_cycle_count a B h)\<rparr> l,
        (wr B addr v (snd (get_cycle_count a B h)), cycle_accesses a B h @ [Wr addr v]))
     else (Inr (), l, (wr B addr v h, [Wr addr v])))"
  using assms
  by (simp add: enforced_poke_cases record_event_traced hw_simps) (simp add: record_event_def split_beta)

text \<open>The parse-time check and the run-time guards agree. An address that
  \<open>check_access\<close> grants is served by both guarded operations under the same registry,
  and E002 (\<open>PermissionDenied\<close>) is never the answer of either: a refusal is always
  E001.\<close>

lemma guards_consistent:
  assumes "wf_registry r"
  shows "(check_access a r addr = Inr () \<longrightarrow>
      fst (enforced_poke_u32 a r B l addr v h) = Inr ()
      \<and> fst (enforced_peek_u32 a r B addr h) = Inr (fst (rd B addr h)))
    \<and> fst (enforced_poke_u32 a r B l addr v h) \<noteq> Inl PermissionDenied
    \<and> fst (enforced_peek_u32 a r B addr h) \<noteq> Inl PermissionDenied"
  using assms check_access_permits [OF assms, of a addr]
  by (simp add: enforced_poke_cases enforced_peek_cases)

text \<open>The run-time guards alone are weaker than the parse-time check. For an address outside
  every peripheral window and outside RAM and flash, with SUPERUSER not claimed,
  \<open>check_access\<close> refuses, while the guarded write still writes.\<close>

lemma guarded_write_admits_unmapped:
  assumes "wf_registry r" and "31 \<notin> claimed_set r"
    and "addr_to_cap_id a addr = None" and "\<not> is_ram_flash a addr"
  shows "check_access a r addr = Inl SuperUser
    \<and> enforced_poke_u32 a r B l addr v h = (Inr (), l, wr B addr v h)"
  using assms
  by (simp add: check_access_def enforced_poke_u32_def reg_simps)

end
