(* ===== verification/Tokens.thy ===== *)
theory Tokens
  imports Registry Bus
begin

text \<open>
  Capability tokens (src/capabilities/tokens.rs): the hardware resources, the token
  operations over the registry, the name table of the REPL, and the pin leases of the GPIO
  ports. Linearity of tokens is Rust's move semantics: a token is a value that exists once
  and is consumed by \<open>drop_cap\<close>. The step relation \<open>own_step\<close> states it, with the
  live tokens as a list, and the invariant connects them with the registry bits.
\<close>

section \<open>Resources\<close>

text \<open>The \<open>HardwareResource\<close> trait: the two associated constants of a resource type.\<close>

record resource =
  RESOURCE_ID :: nat
  NAME :: string

definition res_GpioA :: resource where "res_GpioA = \<lparr>RESOURCE_ID = 0, NAME = ''GPIOA''\<rparr>"
definition res_GpioB :: resource where "res_GpioB = \<lparr>RESOURCE_ID = 1, NAME = ''GPIOB''\<rparr>"
definition res_Uart0 :: resource where "res_Uart0 = \<lparr>RESOURCE_ID = 2, NAME = ''UART0''\<rparr>"
definition res_Spi0 :: resource where "res_Spi0 = \<lparr>RESOURCE_ID = 3, NAME = ''SPI0''\<rparr>"
definition res_I2c0 :: resource where "res_I2c0 = \<lparr>RESOURCE_ID = 4, NAME = ''I2C0''\<rparr>"
definition res_Timer0 :: resource where "res_Timer0 = \<lparr>RESOURCE_ID = 5, NAME = ''TIMER0''\<rparr>"
definition res_Dma0 :: resource where "res_Dma0 = \<lparr>RESOURCE_ID = 6, NAME = ''DMA0''\<rparr>"
definition res_SuperUserCap :: resource where
  "res_SuperUserCap = \<lparr>RESOURCE_ID = 31, NAME = ''SUPERUSER''\<rparr>"

definition all_resources :: "resource list" where
  "all_resources = [res_GpioA, res_GpioB, res_Uart0, res_Spi0, res_I2c0, res_Timer0, res_Dma0,
     res_SuperUserCap]"

definition name_table :: "(u8 list \<times> nat) list" where
  "name_table =
     [(byte_str ''GPIOA'', 0), (byte_str ''GPIOB'', 1), (byte_str ''UART0'', 2), (byte_str ''SPI0'', 3),
      (byte_str ''I2C0'', 4), (byte_str ''TIMER0'', 5), (byte_str ''DMA0'', 6), (byte_str ''SUPERUSER'', 31)]"

definition resolve_name :: "u8 list \<Rightarrow> nat option" where
  "resolve_name name = map_option snd (find (\<lambda>(n, _). n = name) name_table)"

section \<open>Token operations\<close>

text \<open>A token of resource type \<open>T\<close> carries only its registry id.\<close>

record Cap =
  cap_id :: nat

definition claim :: "resource \<Rightarrow> registry \<Rightarrow> Cap option \<times> registry" where
  "claim T r =
     (let (ok, r') = acquire r (RESOURCE_ID T)
      in if ok then (Some \<lparr>cap_id = RESOURCE_ID T\<rparr>, r') else (None, r'))"

definition drop_cap :: "Cap \<Rightarrow> registry \<Rightarrow> registry" where
  "drop_cap c r = release r (cap_id c)"

definition steal :: "resource \<Rightarrow> registry \<Rightarrow> Cap \<times> registry" where
  "steal T r = (\<lparr>cap_id = RESOURCE_ID T\<rparr>, snd (acquire r (RESOURCE_ID T)))"

text \<open>The grant counter is an \<open>AtomicU32\<close>: \<open>fetch_add\<close> wraps.\<close>

definition grant_superuser :: "registry \<Rightarrow> u32 \<Rightarrow> Cap option \<times> registry \<times> u32" where
  "grant_superuser r grants =
     (let (cap, r') = claim res_SuperUserCap r
      in (cap, r', if cap \<noteq> None then grants + 1 else grants))"

section \<open>Ownership\<close>

text \<open>
  Any number of execution contexts (the REPL, interrupt handlers) hold tokens. A token is
  minted by a successful \<open>claim\<close> or by \<open>steal\<close>, moves between contexts, and ends in
  one of two ways: \<open>drop_cap\<close> consumes it and releases its bit, or it goes out of scope,
  which runs nothing because \<open>Cap\<close> has no \<open>Drop\<close> implementation, so that its bit stays
  claimed with no token left (\<open>forget\<close>). The REPL acquires and releases bits of the same
  registry without tokens (\<open>repl_claim\<close>, \<open>repl_release\<close>). Two of the steps carry the
  obligation that the code leaves to its caller: \<open>steal\<close> its safety comment, that no other
  live token of the resource exists, and a release from the REPL that it does not take away
  the bit of a live token; \<open>steal_duplicates\<close> and \<open>repl_release_duplicates\<close> below show
  what happens without them. A run starts from any registry on which no token has been minted.
\<close>

record own_state =
  own_reg :: registry
  own_live :: "(nat \<times> Cap) list"

inductive own_step :: "own_state \<Rightarrow> own_state \<Rightarrow> bool" where
  claim_ok: "claim T (own_reg s) = (Some c, r') \<Longrightarrow>
     own_step s \<lparr>own_reg = r', own_live = (ctx, c) # own_live s\<rparr>"
| claim_busy: "claim T (own_reg s) = (None, r') \<Longrightarrow>
     own_step s \<lparr>own_reg = r', own_live = own_live s\<rparr>"
| drop: "own_live s = xs @ (ctx, c) # ys \<Longrightarrow>
     own_step s \<lparr>own_reg = drop_cap c (own_reg s), own_live = xs @ ys\<rparr>"
| move: "own_live s = xs @ (ctx, c) # ys \<Longrightarrow>
     own_step s \<lparr>own_reg = own_reg s, own_live = xs @ (ctx', c) # ys\<rparr>"
| forget: "own_live s = xs @ (ctx, c) # ys \<Longrightarrow>
     own_step s \<lparr>own_reg = own_reg s, own_live = xs @ ys\<rparr>"
| steal: "RESOURCE_ID T < MAX_RESOURCES \<Longrightarrow> RESOURCE_ID T \<notin> cap_id ` snd ` set (own_live s) \<Longrightarrow>
     steal T (own_reg s) = (c, r') \<Longrightarrow> own_step s \<lparr>own_reg = r', own_live = (ctx, c) # own_live s\<rparr>"
| repl_claim: "own_step s \<lparr>own_reg = snd (acquire (own_reg s) i), own_live = own_live s\<rparr>"
| repl_release: "i \<notin> cap_id ` snd ` set (own_live s) \<Longrightarrow>
     own_step s \<lparr>own_reg = release (own_reg s) i, own_live = own_live s\<rparr>"

inductive own_reachable :: "own_state \<Rightarrow> bool" where
  start: "wf_registry r \<Longrightarrow> own_reachable \<lparr>own_reg = r, own_live = []\<rparr>"
| step: "own_reachable s \<Longrightarrow> own_step s t \<Longrightarrow> own_reachable t"

definition live_ids :: "own_state \<Rightarrow> nat list" where
  "live_ids s = map (cap_id \<circ> snd) (own_live s)"

definition own_inv :: "own_state \<Rightarrow> bool" where
  "own_inv s \<longleftrightarrow>
     wf_registry (own_reg s) \<and> distinct (live_ids s) \<and> set (live_ids s) \<subseteq> claimed_set (own_reg s)"

lemma claim_Some:
  assumes "wf_registry r" and "claim T r = (Some c, r')"
  shows "cap_id c = RESOURCE_ID T" "cap_id c \<notin> claimed_set r" "wf_registry r'"
    "claimed_set r' = insert (cap_id c) (claimed_set r)" "cap_id c < MAX_RESOURCES"
  using assms reg.acq_held [OF assms(1), of "RESOURCE_ID T"] reg.acq_result [OF assms(1), of "RESOURCE_ID T"]
    reg.avail_law [OF assms(1)] reg.ok_acq [OF assms(1), of "RESOURCE_ID T"]
  by (auto simp: claim_def split_beta split: if_splits)

lemma claim_None:
  assumes "wf_registry r" and "claim T r = (None, r')"
  shows "claimed_set r' = claimed_set r" "wf_registry r'"
  using assms reg.acq_held [OF assms(1), of "RESOURCE_ID T"] reg.acq_result [OF assms(1), of "RESOURCE_ID T"]
    reg.avail_law [OF assms(1)] reg.ok_acq [OF assms(1), of "RESOURCE_ID T"]
  by (auto simp: claim_def split_beta split: if_splits)

lemma steal_claimed:
  assumes "wf_registry r" and "RESOURCE_ID T < MAX_RESOURCES" and "steal T r = (c, r')"
  shows "cap_id c = RESOURCE_ID T" "wf_registry r'" "claimed_set r' = insert (RESOURCE_ID T) (claimed_set r)"
  using assms reg.acq_held [OF assms(1), of "RESOURCE_ID T"] reg.ok_acq [OF assms(1), of "RESOURCE_ID T"]
  by (auto simp: steal_def)

lemma acquire_grows:
  "wf_registry r \<Longrightarrow> claimed_set r \<subseteq> claimed_set (snd (acquire r i)) \<and> wf_registry (snd (acquire r i))"
  using reg.acq_held [of r i] reg.ok_acq [of r i] by auto

lemma own_step_inv: "own_step s t \<Longrightarrow> own_inv s \<Longrightarrow> own_inv t"
proof (induction rule: own_step.induct)
  case (claim_ok T s c r' ctx)
  then show ?case
    using claim_Some [of "own_reg s" T c r'] by (auto simp: own_inv_def live_ids_def)
next
  case (claim_busy T s r')
  then show ?case
    using claim_None [of "own_reg s" T r'] by (auto simp: own_inv_def live_ids_def)
next
  case (drop s xs ctx c ys)
  then show ?case
    by (auto simp: own_inv_def live_ids_def drop_cap_def release_claimed o_def) (metis image_eqI snd_conv)+
next
  case (move s xs ctx c ys ctx')
  then show ?case by (auto simp: own_inv_def live_ids_def)
next
  case (forget s xs ctx c ys)
  then show ?case by (auto simp: own_inv_def live_ids_def)
next
  case (steal T s c r' ctx)
  then show ?case
    using steal_claimed [of "own_reg s" T c r'] by (auto simp: own_inv_def live_ids_def)
next
  case (repl_claim s i)
  then show ?case using acquire_grows [of "own_reg s" i] by (auto simp: own_inv_def live_ids_def)
next
  case (repl_release i s)
  then show ?case by (auto simp: own_inv_def live_ids_def release_claimed)
qed

lemma own_reachable_inv: "own_reachable s \<Longrightarrow> own_inv s"
proof (induction rule: own_reachable.induct)
  case (start r)
  then show ?case by (simp add: own_inv_def live_ids_def)
next
  case (step s t)
  then show ?case by (blast intro: own_step_inv)
qed

lemma claim_of_claimed: "wf_registry r \<Longrightarrow> RESOURCE_ID T \<in> claimed_set r \<Longrightarrow> fst (claim T r) = None"
  using reg.acq_result [of r "RESOURCE_ID T"] reg.avail_law [of r "RESOURCE_ID T"] by (auto simp: claim_def split_beta)

lemma live_token:
  assumes "own_inv s" and "(ctx, c) \<in> set (own_live s)"
  shows "cap_id c \<in> claimed_set (own_reg s)"
  using assms by (auto simp: own_inv_def live_ids_def)

text \<open>C37: exclusive tokens. Start from any registry on which no token has been minted, and let
  contexts claim, steal, move, drop and forget tokens (a token that goes out of scope runs
  no code, and its bit stays claimed) while the REPL acquires and releases bits without
  tokens, in any order. \<open>steal\<close> is used under its safety comment (no other live token of
  the resource), and no release from the REPL names the resource of a live token: without
  these two obligations the statement is false, as the lemmas after it show. Then no two live
  tokens name the same resource, whichever contexts hold them; the bit of every live token is
  claimed in the registry, and another claim of its resource returns nothing; and dropping it
  frees exactly its own resource.\<close>

theorem tokens_exclusive:
  assumes "own_reachable s"
  shows "distinct (live_ids s)
    \<and> (\<forall>(ctx, c) \<in> set (own_live s). \<not> available (own_reg s) (cap_id c)
        \<and> (\<forall>T. RESOURCE_ID T = cap_id c \<longrightarrow> fst (claim T (own_reg s)) = None)
        \<and> claimed_set (drop_cap c (own_reg s)) = claimed_set (own_reg s) - {cap_id c})"
  using own_reachable_inv [OF assms] reg.avail_law [of "own_reg s"] claim_of_claimed [of "own_reg s"]
    live_token [OF own_reachable_inv [OF assms]]
  by (auto simp: own_inv_def drop_cap_def release_claimed)

lemma claim_boot_GpioA:
  "claim res_GpioA REGISTRY_BITS = (Some \<lparr>cap_id = 0\<rparr>, snd (acquire REGISTRY_BITS 0))"
  by (simp add: claim_def res_GpioA_def acquire_def REGISTRY_BITS_def slice_get_def)

text \<open>The witness: the REPL acquires bit 1, context 7 claims GPIOA, and context 8 steals the
  timer.\<close>

theorem tokens_exclusive_witness:
  "\<exists>r r1 r2. r = snd (acquire REGISTRY_BITS 1) \<and> claim res_GpioA r = (Some \<lparr>cap_id = 0\<rparr>, r1)
     \<and> steal res_Timer0 r1 = (\<lparr>cap_id = 5\<rparr>, r2) \<and> \<not> available r2 0 \<and> \<not> available r2 5
     \<and> fst (claim res_GpioA r2) = None \<and> claimed_set (drop_cap \<lparr>cap_id = 5\<rparr> r2) = claimed_set r2 - {5}"
proof -
  define r where "r = snd (acquire REGISTRY_BITS 1)"
  define r1 where "r1 = snd (acquire r 0)"
  define r2 where "r2 = snd (acquire r1 5)"
  have a: "claim res_GpioA r = (Some \<lparr>cap_id = 0\<rparr>, r1)"
    by (simp add: claim_def r1_def r_def res_GpioA_def acquire_def REGISTRY_BITS_def slice_get_def)
  have b: "steal res_Timer0 r1 = (\<lparr>cap_id = 5\<rparr>, r2)" by (simp add: steal_def r2_def res_Timer0_def)
  have "own_reachable \<lparr>own_reg = REGISTRY_BITS, own_live = []\<rparr>"
    by (rule own_reachable.start) (rule wf_registry_ops(3))
  from own_reachable.step [OF this own_step.repl_claim [of _ 1]]
  have "own_reachable \<lparr>own_reg = r, own_live = []\<rparr>" by (simp add: r_def)
  from own_reachable.step [OF this own_step.claim_ok [of res_GpioA _ _ _ 7]] a
  have "own_reachable \<lparr>own_reg = r1, own_live = [(7, \<lparr>cap_id = 0\<rparr>)]\<rparr>" by simp
  from own_reachable.step [OF this own_step.steal [of res_Timer0 _ _ _ 8]] b
  have "own_reachable \<lparr>own_reg = r2, own_live = [(8, \<lparr>cap_id = 5\<rparr>), (7, \<lparr>cap_id = 0\<rparr>)]\<rparr>"
    by (simp add: res_Timer0_def MAX_RESOURCES_def)
  from tokens_exclusive [OF this] have "\<not> available r2 0" "\<not> available r2 5" "fst (claim res_GpioA r2) = None"
    "claimed_set (drop_cap \<lparr>cap_id = 5\<rparr> r2) = claimed_set r2 - {5}"
    by (simp_all add: res_GpioA_def)
  then show ?thesis using a b r_def by blast
qed

text \<open>A forgotten token leaves its bit claimed: no token of the resource exists, and none can be
  claimed until somebody releases the bit or steals the resource.\<close>

lemma forgotten_stays_claimed:
  assumes "own_inv s" and "own_live s = xs @ (ctx, c) # ys" and "RESOURCE_ID T = cap_id c"
  shows "own_step s \<lparr>own_reg = own_reg s, own_live = xs @ ys\<rparr> \<and> cap_id c \<notin> cap_id ` snd ` set (xs @ ys)
    \<and> fst (claim T (own_reg s)) = None"
  using assms own_step.forget [OF assms(2)] live_token [OF assms(1), of ctx c] claim_of_claimed [of "own_reg s" T]
  by (auto simp: own_inv_def live_ids_def)

text \<open>A release from the REPL beneath a live token breaks exclusivity: the next claim mints a
  second token of the same resource.\<close>

lemma repl_release_duplicates:
  assumes "wf_registry r" and "claim T r = (Some c, r1)"
  shows "fst (claim T (release r1 (cap_id c))) = Some c"
proof -
  have "wf_registry r1" "cap_id c < MAX_RESOURCES" and id: "cap_id c = RESOURCE_ID T"
    using claim_Some [OF assms] by auto
  then have "fst (acquire (release r1 (cap_id c)) (cap_id c))"
    using reg.acq_result [of "release r1 (cap_id c)" "cap_id c"] reg.avail_law [of "release r1 (cap_id c)" "cap_id c"]
    by (simp add: release_claimed)
  then show ?thesis using id assms(2) by (auto simp: claim_def split_beta split: if_splits)
qed

text \<open>\<open>steal\<close> keeps the registry claimed but breaks exclusivity: stolen on top of a live
  token, it mints a second token for the same resource, and dropping either one frees the
  resource while the other is still live.\<close>

lemma steal_duplicates:
  assumes "wf_registry r" and "claim T r = (Some c, r1)" and "steal T r1 = (c', r2)"
  shows "c' = c \<and> claimed_set r2 = claimed_set r1 \<and> available (drop_cap c' r2) (cap_id c)"
proof -
  have r1: "wf_registry r1" and cl: "cap_id c \<in> claimed_set r1" and id: "cap_id c = RESOURCE_ID T"
    and bd: "cap_id c < MAX_RESOURCES"
    using claim_Some [OF assms(1,2)] by auto
  have "c' = c" and r2: "r2 = snd (acquire r1 (cap_id c))"
    using assms(3) id by (auto simp: steal_def)
  moreover have "claimed_set r2 = claimed_set r1"
    using reg.acq_held [OF r1] cl r2 by auto
  moreover have "available (drop_cap c r2) (cap_id c)"
    using r1 r2 bd by (simp add: drop_cap_def reg.avail_law release_claimed)
  ultimately show ?thesis by simp
qed

section \<open>Names\<close>

lemma find_fst_map_of: "map_option snd (find (\<lambda>(n, _). n = x) t) = map_of t x"
  by (induction t) auto

lemmas resource_defs = res_GpioA_def res_GpioB_def res_Uart0_def res_Spi0_def res_I2c0_def
  res_Timer0_def res_Dma0_def res_SuperUserCap_def

lemma name_table_resources: "name_table = map (\<lambda>T. (byte_str (NAME T), RESOURCE_ID T)) all_resources"
  by (simp add: name_table_def all_resources_def resource_defs)

lemma name_table_distinct: "distinct (map fst name_table)"
  by (simp add: name_table_def byte_str_def)

text \<open>The name table of the REPL and the resource types agree: \<open>resolve_name\<close> finds
  exactly the names of the eight resources, each with the id under which its token is
  claimed, and the ids are those of \<open>CapId\<close>.\<close>

lemma resolve_name_resources:
  "resolve_name n = Some i \<longleftrightarrow> (\<exists>T \<in> set all_resources. n = byte_str (NAME T) \<and> i = RESOURCE_ID T)"
proof -
  have "resolve_name n = Some i \<longleftrightarrow> (n, i) \<in> set name_table"
    by (simp add: resolve_name_def find_fst_map_of map_of_eq_Some_iff [OF name_table_distinct])
  then show ?thesis by (auto simp: name_table_resources)
qed

section \<open>GPIO ports\<close>

text \<open>The \<open>GpioPort\<close> trait and its two implementations.\<close>

record gpio_port =
  port_res :: resource
  BASE :: u32

definition port_GpioA :: gpio_port where "port_GpioA = \<lparr>port_res = res_GpioA, BASE = 0x40020000\<rparr>"
definition port_GpioB :: gpio_port where "port_GpioB = \<lparr>port_res = res_GpioB, BASE = 0x40020400\<rparr>"

definition DATA_SET :: u32 where "DATA_SET = 0x00"
definition DATA_CLR :: u32 where "DATA_CLR = 0x04"
definition DATA_OUT :: u32 where "DATA_OUT = 0x08"
definition DIR :: u32 where "DIR = 0x10"

text \<open>The constant generic \<open>N\<close> of a pin lease is a \<open>u8\<close>; \<open>MASK\<close> is a compile-time
  constant, so a lease of pin 32 or more does not compile.\<close>

definition pin_mask :: "nat \<Rightarrow> u32" where "pin_mask N = push_bit N 1"

definition enable_output :: "'h bus \<Rightarrow> gpio_port \<Rightarrow> nat \<Rightarrow> 'h \<Rightarrow> 'h" where
  "enable_output B T N h = reg_set_bit B (BASE T + DIR) N h"

definition set_high_linear :: "'h bus \<Rightarrow> gpio_port \<Rightarrow> nat \<Rightarrow> 'h \<Rightarrow> 'h" where
  "set_high_linear B T N h = poke_u32 B (BASE T + DATA_SET) (pin_mask N) (enable_output B T N h)"

definition set_low_linear :: "'h bus \<Rightarrow> gpio_port \<Rightarrow> nat \<Rightarrow> 'h \<Rightarrow> 'h" where
  "set_low_linear B T N h = poke_u32 B (BASE T + DATA_CLR) (pin_mask N) (enable_output B T N h)"

definition pin_level :: "'h bus \<Rightarrow> gpio_port \<Rightarrow> nat \<Rightarrow> 'h \<Rightarrow> bool \<times> 'h" where
  "pin_level B T N h =
     (let (v, h') = peek_u32 B (BASE T + DATA_OUT) h in (v AND pin_mask N \<noteq> 0, h'))"

text \<open>The two methods of \<open>embedded_hal::digital::OutputPin\<close>; they cannot fail.\<close>

definition hal_set_low :: "'h bus \<Rightarrow> gpio_port \<Rightarrow> nat \<Rightarrow> 'h \<Rightarrow> 'h" where
  "hal_set_low B T N h = poke_u32 B (BASE T + DATA_CLR) (pin_mask N) h"

definition hal_set_high :: "'h bus \<Rightarrow> gpio_port \<Rightarrow> nat \<Rightarrow> 'h \<Rightarrow> 'h" where
  "hal_set_high B T N h = poke_u32 B (BASE T + DATA_SET) (pin_mask N) h"

text \<open>
  The port contract that the source documents above \<open>GpioPort\<close> (the controller is hardware):
  DATA_SET and DATA_CLR set and clear the latch bits that are 1 in the written word, DATA_OUT
  reads the latch back and DIR is a plain register.
\<close>

definition gpio_contract :: "'h bus \<Rightarrow> u32 \<Rightarrow> ('h \<Rightarrow> u32) \<Rightarrow> ('h \<Rightarrow> u32) \<Rightarrow> bool" where
  "gpio_contract B base latch dir \<longleftrightarrow>
     (\<forall>h v. latch (wr B (base + DATA_SET) v h) = latch h OR v
        \<and> dir (wr B (base + DATA_SET) v h) = dir h
        \<and> latch (wr B (base + DATA_CLR) v h) = latch h AND NOT v
        \<and> dir (wr B (base + DATA_CLR) v h) = dir h
        \<and> latch (wr B (base + DIR) v h) = latch h
        \<and> dir (wr B (base + DIR) v h) = v)
     \<and> (\<forall>h. fst (rd B (base + DATA_OUT) h) = latch h
        \<and> latch (snd (rd B (base + DATA_OUT) h)) = latch h
        \<and> fst (rd B (base + DIR) h) = dir h
        \<and> latch (snd (rd B (base + DIR) h)) = latch h
        \<and> dir (snd (rd B (base + DIR) h)) = dir h)"

lemma gpio_contractD:
  assumes "gpio_contract B base latch dir"
  shows "latch (wr B (base + DATA_SET) v h) = latch h OR v" "dir (wr B (base + DATA_SET) v h) = dir h"
    "latch (wr B (base + DATA_CLR) v h) = latch h AND NOT v" "dir (wr B (base + DATA_CLR) v h) = dir h"
    "latch (wr B (base + DIR) v h) = latch h" "dir (wr B (base + DIR) v h) = v"
    "fst (rd B (base + DATA_OUT) h) = latch h" "latch (snd (rd B (base + DATA_OUT) h)) = latch h"
    "fst (rd B (base + DIR) h) = dir h" "latch (snd (rd B (base + DIR) h)) = latch h"
    "dir (snd (rd B (base + DIR) h)) = dir h"
  using assms by (simp_all add: gpio_contract_def)

lemma set_linear_contract:
  assumes "gpio_contract B (BASE T) latch dir"
  shows "latch (set_high_linear B T N h) = latch h OR pin_mask N"
    "latch (set_low_linear B T N h) = latch h AND NOT (pin_mask N)"
    "dir (set_high_linear B T N h) = dir h OR pin_mask N"
    "dir (set_low_linear B T N h) = dir h OR pin_mask N"
  by (simp_all add: set_high_linear_def set_low_linear_def enable_output_def reg_set_bit_def
      peek_u32_def poke_u32_def pin_mask_def split_beta gpio_contractD [OF assms] del: push_bit_of_1)

text \<open>The \<open>embedded_hal\<close> methods drive the latch the same way but never make the pin an output.\<close>

lemma hal_set_contract:
  assumes "gpio_contract B (BASE T) latch dir"
  shows "latch (hal_set_high B T N h) = latch (set_high_linear B T N h)" "latch (hal_set_low B T N h) = latch (set_low_linear B T N h)"
    "dir (hal_set_high B T N h) = dir h" "dir (hal_set_low B T N h) = dir h"
  by (simp_all add: hal_set_high_def hal_set_low_def set_linear_contract [OF assms] poke_u32_def gpio_contractD [OF assms])

lemma pin_level_contract:
  assumes "gpio_contract B (BASE T) latch dir"
  shows "fst (pin_level B T N h) = bit (latch h) N"
  by (simp add: pin_level_def peek_u32_def pin_mask_def split_beta gpio_contractD [OF assms]
      and_single_bit_eq_0 del: push_bit_of_1)

text \<open>Pin operations, on any controller that honours the documented port contract. After
  \<open>set_high_linear\<close> (\<open>set_low_linear\<close>) on pin \<open>N\<close> the pin is an output and reads back
  high (low), and every other pin keeps its level.\<close>

lemma pin_set_reads_back:
  assumes "gpio_contract B (BASE T) latch dir" and "N < 32"
  shows "fst (pin_level B T M (set_high_linear B T N h)) = (M = N \<or> fst (pin_level B T M h))
    \<and> fst (pin_level B T M (set_low_linear B T N h)) = (M \<noteq> N \<and> fst (pin_level B T M h))
    \<and> bit (dir (set_high_linear B T N h)) N \<and> bit (dir (set_low_linear B T N h)) N"
  using assms(2) bit_u32_bound [of "latch h" M]
  by (auto simp: pin_level_contract [OF assms(1)] set_linear_contract [OF assms(1)] pin_mask_def
      bit_or_iff bit_and_iff bit_not_iff bit_single_u32 simp del: push_bit_of_1)

end
