(* ===== verification/Lexer.thy ===== *)
theory Lexer
  imports Prelude
begin

text \<open>
  The streaming lexer (src/compiler/lexer.rs). Tokens are slices of the input buffer, here
  the copied byte lists. The cursor loops of the source are the recursions \<open>scan\<close>,
  \<open>hex_loop\<close>, \<open>dec_loop\<close> and \<open>next_token\<close>; they are refined to a reference lexer on
  the unread suffix of the buffer, in terms of \<open>takeWhile\<close> and unbounded numbers.
\<close>

section \<open>Tokens and lexer state\<close>

datatype Token =
    KwFn
  | KwLet
  | Identifier "u8 list"
  | Operator u8
  | Literal u32
  | LParen
  | RParen
  | LBrace
  | RBrace
  | Semicolon
  | Comma
  | Error string
  | Eof

record Lexer =
  stream :: "u8 list"
  cursor :: nat
  line :: nat

definition lexer_new :: "u8 list \<Rightarrow> Lexer" where
  "lexer_new s = \<lparr>stream = s, cursor = 0, line = 1\<rparr>"

text \<open>What an error report would say of the position.\<close>

definition lexer_line :: "Lexer \<Rightarrow> nat" where "lexer_line l = line l"
definition lexer_pos :: "Lexer \<Rightarrow> nat" where "lexer_pos l = cursor l"

section \<open>Byte classes\<close>

definition is_digit :: "u8 \<Rightarrow> bool" where
  "is_digit b \<longleftrightarrow> 0x30 \<le> b \<and> b \<le> 0x39"

definition is_alpha :: "u8 \<Rightarrow> bool" where
  "is_alpha b \<longleftrightarrow> (0x61 \<le> b \<and> b \<le> 0x7A) \<or> (0x41 \<le> b \<and> b \<le> 0x5A)"

definition is_hexdigit :: "u8 \<Rightarrow> bool" where
  "is_hexdigit b \<longleftrightarrow> is_digit b \<or> (0x61 \<le> b \<and> b \<le> 0x66) \<or> (0x41 \<le> b \<and> b \<le> 0x46)"

definition is_ident_char :: "u8 \<Rightarrow> bool" where
  "is_ident_char b \<longleftrightarrow> is_alpha b \<or> is_digit b \<or> b = 0x5F"

definition is_operator :: "u8 \<Rightarrow> bool" where
  "is_operator b \<longleftrightarrow> b \<in> set (byte_str ''+-*/%=<>!&|^~:?'')"

definition hex_digit :: "u8 \<Rightarrow> u8 option" where
  "hex_digit b =
     (if 0x30 \<le> b \<and> b \<le> 0x39 then Some (b - 0x30)
      else if 0x61 \<le> b \<and> b \<le> 0x66 then Some (b - 0x61 + 10)
      else if 0x41 \<le> b \<and> b \<le> 0x46 then Some (b - 0x41 + 10)
      else None)"

section \<open>The cursor loops\<close>

text \<open>\<open>while cursor < len && p(stream[cursor]) { cursor += 1 }\<close>\<close>

function scan :: "(u8 \<Rightarrow> bool) \<Rightarrow> u8 list \<Rightarrow> nat \<Rightarrow> nat" where
  "scan p s c = (if c < length s \<and> p (s ! c) then scan p s (Suc c) else c)"
  by pat_completeness auto
termination
  by (relation "measure (\<lambda>(p, s, c). length s - c)") auto

definition parse_identifier :: "Lexer \<Rightarrow> Token \<times> Lexer" where
  "parse_identifier l =
     (let start = cursor l;
          c = scan is_ident_char (stream l) start;
          ident = take (c - start) (drop start (stream l));
          l' = l\<lparr>cursor := c\<rparr>
      in if ident = byte_str ''fn'' then (KwFn, l')
         else if ident = byte_str ''let'' then (KwLet, l')
         else (Identifier ident, l'))"

text \<open>
  The digit loops return the cursor they stop at and the value, or \<open>None\<close> on overflow
  (after consuming the rest of the literal, so that errors do not cascade).
\<close>

definition mul_add :: "u32 \<Rightarrow> u32 \<Rightarrow> u32 \<Rightarrow> u32 option" where
  "mul_add value base digit = Option.bind (checked_mul value base) (\<lambda>v. checked_add v digit)"

function hex_loop :: "u8 list \<Rightarrow> nat \<Rightarrow> u32 \<Rightarrow> nat \<times> u32 option" where
  "hex_loop s c value =
     (if c < length s then
        (case hex_digit (s ! c) of
          Some digit \<Rightarrow>
            (case mul_add value 16 (ucast digit) of
              Some v \<Rightarrow> hex_loop s (Suc c) v
            | None \<Rightarrow> (scan (\<lambda>b. is_hexdigit b \<or> b = 0x5F) s c, None))
        | None \<Rightarrow> (if s ! c = 0x5F then hex_loop s (Suc c) value else (c, Some value)))
      else (c, Some value))"
  by pat_completeness auto
termination
  by (relation "measure (\<lambda>(s, c, v). length s - c)") auto

function dec_loop :: "u8 list \<Rightarrow> nat \<Rightarrow> u32 \<Rightarrow> nat \<times> u32 option" where
  "dec_loop s c value =
     (if c < length s then
        (if is_digit (s ! c) then
           (case mul_add value 10 (ucast (s ! c - 0x30)) of
              Some v \<Rightarrow> dec_loop s (Suc c) v
            | None \<Rightarrow> (scan (\<lambda>b. is_digit b \<or> b = 0x5F) s c, None))
         else if s ! c = 0x5F then dec_loop s (Suc c) value
         else (c, Some value))
      else (c, Some value))"
  by pat_completeness auto
termination
  by (relation "measure (\<lambda>(s, c, v). length s - c)") auto

definition parse_literal :: "Lexer \<Rightarrow> Token \<times> Lexer" where
  "parse_literal l =
     (let s = stream l; c = cursor l in
      if s ! c = 0x30 \<and> c + 1 < length s \<and> (s ! (c + 1) = 0x78 \<or> s ! (c + 1) = 0x58) then
        (let digits_start = c + 2; (c', r) = hex_loop s digits_start 0 in
         case r of
           None \<Rightarrow> (Error ''hex literal overflow'', l\<lparr>cursor := c'\<rparr>)
         | Some v \<Rightarrow>
             if c' = digits_start then (Error ''malformed hex literal'', l\<lparr>cursor := c'\<rparr>)
             else (Literal v, l\<lparr>cursor := c'\<rparr>))
      else
        (let (c', r) = dec_loop s c 0 in
         case r of
           None \<Rightarrow> (Error ''literal overflow'', l\<lparr>cursor := c'\<rparr>)
         | Some v \<Rightarrow> (Literal v, l\<lparr>cursor := c'\<rparr>)))"

text \<open>The one-byte arms of \<open>next_token\<close>.\<close>

definition single_token :: "u8 \<Rightarrow> Token" where
  "single_token b =
     (if b = 0x28 then LParen
      else if b = 0x29 then RParen
      else if b = 0x7B then LBrace
      else if b = 0x7D then RBrace
      else if b = 0x3B then Semicolon
      else if b = 0x2C then Comma
      else if is_operator b then Operator b
      else Error ''unexpected character'')"

function next_token :: "Lexer \<Rightarrow> Token \<times> Lexer" where
  "next_token l =
     (if cursor l < length (stream l) then
        (let b = stream l ! cursor l in
         if b = 0x20 \<or> b = 0x09 \<or> b = 0x0D then next_token (l\<lparr>cursor := cursor l + 1\<rparr>)
         else if b = 0x0A then next_token (l\<lparr>line := line l + 1, cursor := cursor l + 1\<rparr>)
         else if is_alpha b \<or> b = 0x5F then parse_identifier l
         else if is_digit b then parse_literal l
         else (single_token b, l\<lparr>cursor := cursor l + 1\<rparr>))
      else (Eof, l))"
  by pat_completeness auto
termination
  by (relation "measure (\<lambda>l. length (stream l) - cursor l)") auto

declare scan.simps [simp del] hex_loop.simps [simp del] dec_loop.simps [simp del]
  next_token.simps [simp del]

section \<open>Reference: digit strings as numbers\<close>

definition digits_from :: "nat \<Rightarrow> nat \<Rightarrow> nat list \<Rightarrow> nat" where
  "digits_from base n ds = foldl (\<lambda>a d. a * base + d) n ds"

lemma digits_from_simps [simp]:
  "digits_from base n [] = n"
  "digits_from base n (d # ds) = digits_from base (n * base + d) ds"
  "digits_from base n (ds @ es) = digits_from base (digits_from base n ds) es"
  by (simp_all add: digits_from_def)

lemma digits_from_ge: "0 < base \<Longrightarrow> n \<le> digits_from base n ds"
proof (induction ds arbitrary: n)
  case (Cons d ds)
  have "n \<le> n * base + d" using Cons.prems by (simp add: trans_le_add1)
  also have "\<dots> \<le> digits_from base (n * base + d) ds" using Cons by blast
  finally show ?case by simp
qed simp

definition hex_val :: "u8 \<Rightarrow> nat" where
  "hex_val b =
     (if 0x30 \<le> b \<and> b \<le> 0x39 then unat b - 48
      else if 0x61 \<le> b \<and> b \<le> 0x66 then unat b - 87
      else if 0x41 \<le> b \<and> b \<le> 0x46 then unat b - 55
      else 0)"

definition dec_val :: "u8 \<Rightarrow> nat" where
  "dec_val b = unat b - 48"

text \<open>The digit run of a literal: digits and underscores, the underscores skipped.\<close>

definition hex_run :: "u8 list \<Rightarrow> u8 list" where
  "hex_run xs = takeWhile (\<lambda>b. is_hexdigit b \<or> b = 0x5F) xs"

definition dec_run :: "u8 list \<Rightarrow> u8 list" where
  "dec_run xs = takeWhile (\<lambda>b. is_digit b \<or> b = 0x5F) xs"

definition hex_number :: "nat \<Rightarrow> u8 list \<Rightarrow> nat" where
  "hex_number n run = digits_from 16 n (map hex_val (filter (\<lambda>b. b \<noteq> 0x5F) run))"

definition dec_number :: "nat \<Rightarrow> u8 list \<Rightarrow> nat" where
  "dec_number n run = digits_from 10 n (map dec_val (filter (\<lambda>b. b \<noteq> 0x5F) run))"

definition fits :: "nat \<Rightarrow> u32 option" where
  "fits n = (if n < 2 ^ 32 then Some (of_nat n) else None)"

lemma scan_takeWhile: "scan p s c = c + length (takeWhile p (drop c s))"
proof (induction p s c rule: scan.induct)
  case (1 p s c)
  then show ?case
    by (cases "c < length s") (auto simp: scan.simps [of p s c] drop_nth_Cons)
qed

lemma mul_add_spec:
  "mul_add v b d = (if unat v * unat b + unat d < 2 ^ 32 then Some (v * b + d) else None)"
  by (auto simp: mul_add_def checked_mul_def checked_add_def unat_mult_small split: Option.bind_split)

lemma mul_add_unat: "mul_add v b d = Some w \<Longrightarrow> unat w = unat v * unat b + unat d"
  by (auto simp: mul_add_spec unat_word_ariths split: if_splits)

lemma hex_digit_Some_iff: "(\<exists>d. hex_digit b = Some d) \<longleftrightarrow> is_hexdigit b"
  by (auto simp: hex_digit_def is_hexdigit_def is_digit_def)

lemma word_sub_unat: "(c :: u8) \<le> b \<Longrightarrow> unat (b - c) = unat b - unat c"
  by (simp add: unat_sub word_le_nat_alt)

text \<open>The digit conversion of the code, on bytes, against the value of a digit, on numbers.\<close>

lemma hex_digit_val: "hex_digit b = Some d \<Longrightarrow> hex_val b = unat d"
proof -
  assume h: "hex_digit b = Some d"
  consider "0x30 \<le> b" "b \<le> 0x39" "d = b - 0x30" | "0x61 \<le> b" "b \<le> 0x66" "d = b - 0x61 + 10"
    | "0x41 \<le> b" "b \<le> 0x46" "d = b - 0x41 + 10"
    using h by (auto simp: hex_digit_def split: if_splits)
  then show ?thesis
    by cases (auto simp: hex_val_def word_le_nat_alt unat_word_ariths word_sub_unat)
qed

lemma dec_digit_val: "is_digit b \<Longrightarrow> unat (b - 0x30) = dec_val b"
  by (simp add: is_digit_def dec_val_def word_sub_unat)

lemma underscore_class [simp]: "\<not> is_hexdigit 0x5F" "\<not> is_digit 0x5F" "hex_digit 0x5F = None"
  by (simp_all add: is_hexdigit_def is_digit_def hex_digit_def)

lemma unat_ucast_u8 [simp]: "unat (ucast (b :: u8) :: u32) = unat b"
proof -
  have "unat b < 2 ^ LENGTH(8)" by (rule unsigned_less)
  then show ?thesis by (simp add: unsigned_ucast_eq take_bit_nat_eq_self)
qed

lemma hex_loop_spec:
  "hex_loop s c v = (let run = hex_run (drop c s) in (c + length run, fits (hex_number (unat v) run)))"
proof (induction s c v rule: hex_loop.induct)
  case (1 s c v)
  show ?case
  proof (cases "c < length s")
    case False
    then show ?thesis by (simp add: hex_loop.simps [of s c v] hex_run_def hex_number_def fits_def)
  next
    case c: True
    show ?thesis
    proof (cases "hex_digit (s ! c)")
      case None
      then have "\<not> is_hexdigit (s ! c)" using hex_digit_Some_iff by force
      then show ?thesis
        using c None "1.IH"(1) [OF c None]
        by (cases "s ! c = 0x5F") (auto simp: hex_loop.simps [of s c v] hex_run_def hex_number_def
            fits_def drop_nth_Cons Let_def)
    next
      case (Some d)
      then have hx: "is_hexdigit (s ! c)" and nu: "s ! c \<noteq> 0x5F" and hv: "hex_val (s ! c) = unat d"
        using hex_digit_Some_iff hex_digit_val by (force, auto)
      show ?thesis
      proof (cases "mul_add v 16 (ucast d)")
        case None
        then have "2 ^ 32 \<le> unat v * 16 + unat d"
          by (simp add: mul_add_spec split: if_splits)
        also have "\<dots> \<le> hex_number (unat v) (hex_run (drop c s))"
          using c hx nu hv by (simp add: hex_run_def hex_number_def drop_nth_Cons digits_from_ge)
        finally show ?thesis
          using c Some None by (simp add: hex_loop.simps [of s c v] scan_takeWhile hex_run_def fits_def Let_def)
      next
        case (Some w)
        then show ?thesis
          using c \<open>hex_digit (s ! c) = Some d\<close> hx nu hv "1.IH"(2) mul_add_unat [OF Some]
          by (simp add: hex_loop.simps [of s c v] hex_run_def hex_number_def drop_nth_Cons Let_def)
      qed
    qed
  qed
qed

lemma dec_loop_spec:
  "dec_loop s c v = (let run = dec_run (drop c s) in (c + length run, fits (dec_number (unat v) run)))"
proof (induction s c v rule: dec_loop.induct)
  case (1 s c v)
  show ?case
  proof (cases "c < length s")
    case False
    then show ?thesis by (simp add: dec_loop.simps [of s c v] dec_run_def dec_number_def fits_def)
  next
    case c: True
    show ?thesis
    proof (cases "is_digit (s ! c)")
      case False
      then show ?thesis
        using c "1.IH"(2) [OF c False]
        by (cases "s ! c = 0x5F") (auto simp: dec_loop.simps [of s c v] dec_run_def dec_number_def
            fits_def drop_nth_Cons Let_def)
    next
      case d: True
      then have nu: "s ! c \<noteq> 0x5F" by auto
      show ?thesis
      proof (cases "mul_add v 10 (ucast (s ! c - 0x30))")
        case None
        then have "2 ^ 32 \<le> unat v * 10 + dec_val (s ! c)"
          using dec_digit_val [OF d] by (simp add: mul_add_spec split: if_splits)
        also have "\<dots> \<le> dec_number (unat v) (dec_run (drop c s))"
          using c d nu by (simp add: dec_run_def dec_number_def drop_nth_Cons digits_from_ge)
        finally show ?thesis
          using c d None by (simp add: dec_loop.simps [of s c v] scan_takeWhile dec_run_def fits_def Let_def)
      next
        case (Some w)
        then show ?thesis
          using c d nu "1.IH"(1) mul_add_unat [OF Some] dec_digit_val [OF d]
          by (simp add: dec_loop.simps [of s c v] dec_run_def dec_number_def drop_nth_Cons Let_def)
      qed
    qed
  qed
qed


section \<open>Reference lexer on the unread suffix\<close>

definition is_space :: "u8 \<Rightarrow> bool" where
  "is_space b \<longleftrightarrow> b = 0x20 \<or> b = 0x09 \<or> b = 0x0D \<or> b = 0x0A"

definition keyword :: "u8 list \<Rightarrow> Token" where
  "keyword w = (if w = byte_str ''fn'' then KwFn else if w = byte_str ''let'' then KwLet else Identifier w)"

definition hex_prefix :: "u8 list \<Rightarrow> bool" where
  "hex_prefix xs \<longleftrightarrow> 2 \<le> length xs \<and> xs ! 0 = 0x30 \<and> (xs ! 1 = 0x78 \<or> xs ! 1 = 0x58)"

definition ref_literal :: "u8 list \<Rightarrow> Token \<times> u8 list" where
  "ref_literal xs =
     (if hex_prefix xs then
        (let run = hex_run (drop 2 xs); ys = drop (length run) (drop 2 xs) in
         case fits (hex_number 0 run) of
           None \<Rightarrow> (Error ''hex literal overflow'', ys)
         | Some v \<Rightarrow> (if run = [] then Error ''malformed hex literal'' else Literal v, ys))
      else
        (let run = dec_run xs; ys = drop (length run) xs in
         case fits (dec_number 0 run) of
           None \<Rightarrow> (Error ''literal overflow'', ys)
         | Some v \<Rightarrow> (Literal v, ys)))"

definition ref_token :: "u8 list \<Rightarrow> Token \<times> u8 list" where
  "ref_token input =
     (case dropWhile is_space input of
       [] \<Rightarrow> (Eof, [])
     | b # zs \<Rightarrow>
         if is_alpha b \<or> b = 0x5F then
           (keyword (takeWhile is_ident_char (b # zs)), dropWhile is_ident_char (b # zs))
         else if is_digit b then ref_literal (b # zs)
         else (single_token b, zs))"

definition rest :: "Lexer \<Rightarrow> u8 list" where
  "rest l = drop (cursor l) (stream l)"

definition wf_lexer :: "Lexer \<Rightarrow> bool" where
  "wf_lexer l \<longleftrightarrow> cursor l \<le> length (stream l)"

lemma wf_lexer_new [simp]: "wf_lexer (lexer_new s)" "rest (lexer_new s) = s"
  by (simp_all add: wf_lexer_def lexer_new_def rest_def)

lemma dropWhile_drop: "dropWhile p xs = drop (length (takeWhile p xs)) xs"
  by (rule dropWhile_eq_drop)

lemma parse_identifier_ref:
  assumes "wf_lexer l"
  shows "parse_identifier l =
    (keyword (takeWhile is_ident_char (rest l)),
     l\<lparr>cursor := cursor l + length (takeWhile is_ident_char (rest l))\<rparr>)"
  by (simp add: parse_identifier_def scan_takeWhile keyword_def rest_def Let_def takeWhile_eq_take [symmetric])

lemma parse_literal_ref:
  assumes "cursor l < length (stream l)"
  shows "parse_literal l =
    (fst (ref_literal (rest l)), l\<lparr>cursor := length (stream l) - length (snd (ref_literal (rest l)))\<rparr>)
   \<and> length (snd (ref_literal (rest l))) \<le> length (rest l)
   \<and> rest (snd (parse_literal l)) = snd (ref_literal (rest l))"
proof -
  have pre: "hex_prefix (rest l) \<longleftrightarrow> stream l ! cursor l = 0x30 \<and> cursor l + 1 < length (stream l)
      \<and> (stream l ! (cursor l + 1) = 0x78 \<or> stream l ! (cursor l + 1) = 0x58)"
    using assms by (auto simp: hex_prefix_def rest_def)
  have hex: "length (hex_run (drop 2 (rest l))) \<le> length (stream l) - (cursor l + 2)"
    unfolding hex_run_def rest_def using length_takeWhile_le [of _ "drop 2 (drop (cursor l) (stream l))"]
    by (metis (no_types, lifting) diff_diff_left length_drop)
  have dec: "length (dec_run (rest l)) \<le> length (stream l) - cursor l"
    unfolding dec_run_def rest_def using length_takeWhile_le [of _ "drop (cursor l) (stream l)"]
    by (metis length_drop)
  show ?thesis
  proof (cases "hex_prefix (rest l)")
    case True
    then have "cursor l + 1 < length (stream l)" using pre by blast
    then show ?thesis
      using True pre hex
      by (auto simp: parse_literal_def ref_literal_def hex_loop_spec rest_def Let_def
          add.commute [of "length _"] split: option.splits)
  next
    case False
    then show ?thesis
      using assms pre dec
      by (auto simp: parse_literal_def ref_literal_def dec_loop_spec rest_def Let_def
          add.commute [of "length _"] split: option.splits)
  qed
qed


lemma not_space_classes:
  "is_alpha b \<or> b = 0x5F \<Longrightarrow> \<not> is_space b" "is_digit b \<Longrightarrow> \<not> is_space b"
  by (auto simp: is_alpha_def is_digit_def is_space_def word_le_nat_alt)


lemma ref_token_space: "is_space b \<Longrightarrow> ref_token (b # xs) = ref_token xs"
  by (simp add: ref_token_def)

lemma ref_token_nonspace:
  "\<not> is_space b \<Longrightarrow> ref_token (b # zs) =
     (if is_alpha b \<or> b = 0x5F then
        (keyword (takeWhile is_ident_char (b # zs)), dropWhile is_ident_char (b # zs))
      else if is_digit b then ref_literal (b # zs)
      else (single_token b, zs))"
  by (simp add: ref_token_def)

lemma rest_Cons: "cursor l < length (stream l) \<Longrightarrow> rest l = stream l ! cursor l # drop (Suc (cursor l)) (stream l)"
  by (simp add: rest_def drop_nth_Cons)

text \<open>The arms of \<open>next_token\<close>, one for each class of the byte at the cursor.\<close>

lemma next_token_arms:
  assumes "cursor l < length (stream l)"
  shows "b = stream l ! cursor l \<Longrightarrow> b = 0x20 \<or> b = 0x09 \<or> b = 0x0D \<Longrightarrow> next_token l = next_token (l\<lparr>cursor := cursor l + 1\<rparr>)"
    "b = stream l ! cursor l \<Longrightarrow> b = 0x0A \<Longrightarrow> next_token l = next_token (l\<lparr>line := line l + 1, cursor := cursor l + 1\<rparr>)"
    "b = stream l ! cursor l \<Longrightarrow> is_alpha b \<or> b = 0x5F \<Longrightarrow> next_token l = parse_identifier l"
    "b = stream l ! cursor l \<Longrightarrow> is_digit b \<Longrightarrow> next_token l = parse_literal l"
    "b = stream l ! cursor l \<Longrightarrow> \<not> is_space b \<Longrightarrow> \<not> (is_alpha b \<or> b = 0x5F) \<Longrightarrow> \<not> is_digit b
      \<Longrightarrow> next_token l = (single_token b, l\<lparr>cursor := cursor l + 1\<rparr>)"
  using assms
  by (auto simp: next_token.simps [of l] Let_def is_space_def is_alpha_def is_digit_def word_le_nat_alt)

lemma byte_class_cases:
  obtains (blank) "b = 0x20 \<or> b = 0x09 \<or> b = 0x0D" | (nl) "b = (0x0A :: u8)"
    | (word) "is_alpha b \<or> b = 0x5F" | (num) "is_digit b"
    | (single) "\<not> is_space b" "\<not> (is_alpha b \<or> b = 0x5F)" "\<not> is_digit b"
  by (auto simp: is_space_def)

lemma next_token_ref:
  "wf_lexer l \<Longrightarrow> ref_token (rest l) = (fst (next_token l), rest (snd (next_token l)))
     \<and> stream (snd (next_token l)) = stream l \<and> wf_lexer (snd (next_token l))"
proof (induction l rule: next_token.induct)
  case (1 l)
  let ?b = "stream l ! cursor l"
  show ?case
  proof (cases "cursor l < length (stream l)")
    case False
    then show ?thesis
      using "1.prems" by (simp add: next_token.simps [of l] rest_def ref_token_def wf_lexer_def)
  next
    case c: True
    note cons = rest_Cons [OF c] and arms = next_token_arms [OF c refl]
    show ?thesis
    proof (cases ?b rule: byte_class_cases)
      case blank
      then show ?thesis
        using c "1.IH"(1) [OF c refl] by (auto simp: arms(1) cons ref_token_space is_space_def wf_lexer_def) (auto simp: rest_def)
    next
      case nl
      then show ?thesis
        using c "1.IH"(2) [OF c refl] by (auto simp: arms(2) cons ref_token_space is_space_def wf_lexer_def) (auto simp: rest_def)
    next
      case word
      have "length (takeWhile is_ident_char (rest l)) \<le> length (stream l) - cursor l"
        using length_takeWhile_le [of is_ident_char "rest l"] by (simp add: rest_def)
      moreover have "ref_token (rest l) = (keyword (takeWhile is_ident_char (rest l)), dropWhile is_ident_char (rest l))"
        using word not_space_classes(1) [OF word] unfolding cons by (simp add: ref_token_nonspace)
      ultimately show ?thesis
        using "1.prems" c word by (simp add: arms(3) parse_identifier_ref wf_lexer_def)
          (simp add: rest_def dropWhile_drop add.commute)
    next
      case num
      then have "\<not> (is_alpha ?b \<or> ?b = 0x5F)" by (auto simp: is_alpha_def is_digit_def word_le_nat_alt)
      then have "ref_token (rest l) = ref_literal (rest l)"
        using num not_space_classes(2) [OF num] by (simp add: cons ref_token_nonspace)
      with arms(4) num show ?thesis using parse_literal_ref [OF c] by (auto simp: wf_lexer_def)
    next
      case single
      then show ?thesis
        using c by (auto simp: arms(5) cons ref_token_nonspace wf_lexer_def) (auto simp: rest_def)
    qed
  qed
qed

lemma single_token_not_Eof [simp]: "single_token b \<noteq> Eof"
  by (simp add: single_token_def)

lemma keyword_not_Eof [simp]: "keyword w \<noteq> Eof"
  by (simp add: keyword_def)

lemma ref_literal_shrinks:
  assumes "is_digit b"
  shows "fst (ref_literal (b # zs)) \<noteq> Eof \<and> length (snd (ref_literal (b # zs))) < length (b # zs)"
  using assms
  by (auto simp: ref_literal_def hex_prefix_def dec_run_def Let_def less_Suc_eq_le split: option.splits)

lemma ref_token_shrinks:
  "(fst (ref_token xs) = Eof \<longrightarrow> snd (ref_token xs) = [])
   \<and> (fst (ref_token xs) \<noteq> Eof \<longrightarrow> length (snd (ref_token xs)) < length xs)"
proof (induction xs)
  case Nil
  show ?case by (simp add: ref_token_def)
next
  case (Cons b zs)
  show ?case
  proof (cases "is_space b")
    case True
    then show ?thesis using Cons by (auto simp: ref_token_space)
  next
    case False
    have "length (dropWhile is_ident_char (b # zs)) < length (b # zs)" if "is_alpha b \<or> b = 0x5F"
      using that length_dropWhile_le [of is_ident_char zs] by (auto simp: is_ident_char_def)
    then show ?thesis
      using False ref_literal_shrinks [of b zs] by (auto simp: ref_token_nonspace)
  qed
qed


section \<open>Printing tokens\<close>

fun render :: "Token \<Rightarrow> u8 list" where
  "render KwFn = byte_str ''fn''"
| "render KwLet = byte_str ''let''"
| "render (Identifier w) = w"
| "render (Operator b) = [b]"
| "render (Literal v) = dec_digits (unat v)"
| "render LParen = [0x28]"
| "render RParen = [0x29]"
| "render LBrace = [0x7B]"
| "render RBrace = [0x7D]"
| "render Semicolon = [0x3B]"
| "render Comma = [0x2C]"
| "render (Error m) = []"
| "render Eof = []"

text \<open>The tokens that some input produces, errors and the end mark excepted.\<close>

fun printable :: "Token \<Rightarrow> bool" where
  "printable (Identifier w) \<longleftrightarrow>
     (w \<noteq> [] \<and> (is_alpha (hd w) \<or> hd w = 0x5F) \<and> list_all is_ident_char w
      \<and> w \<noteq> byte_str ''fn'' \<and> w \<noteq> byte_str ''let'')"
| "printable (Operator b) \<longleftrightarrow> is_operator b"
| "printable (Error m) \<longleftrightarrow> False"
| "printable Eof \<longleftrightarrow> False"
| "printable _ \<longleftrightarrow> True"

definition render_all :: "Token list \<Rightarrow> u8 list" where
  "render_all ts = concat (map (\<lambda>t. render t @ [0x20]) ts)"

fun take_tokens :: "nat \<Rightarrow> Lexer \<Rightarrow> Token list" where
  "take_tokens 0 l = []"
| "take_tokens (Suc n) l = (let (t, l') = next_token l in t # take_tokens n l')"

lemma dec_digit_facts:
  assumes "d < 10"
  shows "is_digit (0x30 + of_nat d)" "dec_val (0x30 + of_nat d) = d" "(0x30 + of_nat d :: u8) \<noteq> 0x5F"
  using less_10_cases [OF assms] by (auto simp: is_digit_def dec_val_def)

lemma dec_digits_are_digits: "list_all is_digit (dec_digits n)"
proof (induction n rule: dec_digits.induct)
  case (1 n)
  then show ?case
    by (subst dec_digits.simps) (auto simp: dec_digit_facts(1))
qed

lemma dec_digits_number: "dec_number 0 (dec_digits n) = n"
proof (induction n rule: dec_digits.induct)
  case (1 n)
  have nou: "filter (\<lambda>b. b \<noteq> 0x5F) (dec_digits k) = dec_digits k" for k
    using dec_digits_are_digits [of k] by (auto simp: filter_id_conv list_all_iff)
  show ?case
  proof (cases "n < 10")
    case True
    then show ?thesis
      by (subst dec_digits.simps) (simp add: dec_number_def dec_digit_facts)
  next
    case False
    with 1 have "dec_number 0 (dec_digits (n div 10)) = n div 10" by simp
    then show ?thesis
      using False by (subst dec_digits.simps) (simp add: dec_number_def nou dec_digit_facts)
  qed
qed

lemma fits_unat [simp]: "fits (unat (v :: u32)) = Some v"
  by (simp add: fits_def)

lemma run_stops:
  "list_all p xs \<Longrightarrow> \<not> p y \<Longrightarrow> takeWhile p (xs @ y # ys) = xs"
  "list_all p xs \<Longrightarrow> \<not> p y \<Longrightarrow> dropWhile p (xs @ y # ys) = y # ys"
  by (induction xs) auto

lemma ref_literal_dec:
  assumes "\<not> is_digit y" "y \<noteq> 0x5F" "y \<noteq> 0x78" "y \<noteq> 0x58"
  shows "ref_literal (dec_digits n @ y # ys) =
    (case fits n of None \<Rightarrow> (Error ''literal overflow'', y # ys) | Some v \<Rightarrow> (Literal v, y # ys))"
proof -
  have run: "dec_run (dec_digits n @ y # ys) = dec_digits n"
    unfolding dec_run_def using assms dec_digits_are_digits [of n]
    by (intro run_stops) (auto simp: list_all_iff)
  have "\<not> hex_prefix (dec_digits n @ y # ys)"
  proof (cases "dec_digits n")
    case (Cons a as)
    then show ?thesis
      using assms dec_digits_are_digits [of n]
      by (cases as) (auto simp: hex_prefix_def is_digit_def word_le_nat_alt)
  qed simp
  then show ?thesis
    by (simp add: ref_literal_def run dec_digits_number split: option.split)
qed

lemma operator_classes:
  "is_operator b \<Longrightarrow> \<not> is_space b \<and> \<not> is_alpha b \<and> b \<noteq> 0x5F \<and> \<not> is_digit b \<and> single_token b = Operator b"
  by (auto simp: is_operator_def byte_str_def is_space_def is_alpha_def is_digit_def single_token_def)

lemma space_not_in_words [simp]: "\<not> is_ident_char 0x20" "\<not> is_digit 0x20" "is_space 0x20"
  by (simp_all add: is_ident_char_def is_alpha_def is_digit_def is_space_def)

lemma ref_token_word:
  assumes "w \<noteq> []" "is_alpha (hd w) \<or> hd w = 0x5F" "list_all is_ident_char w"
  shows "ref_token (w @ 0x20 # xs) = (keyword w, 0x20 # xs)"
proof (cases w)
  case (Cons a as)
  have "ref_token (a # (as @ 0x20 # xs)) =
      (keyword (takeWhile is_ident_char (w @ 0x20 # xs)), dropWhile is_ident_char (w @ 0x20 # xs))"
    using assms(2) not_space_classes(1) [of a] unfolding Cons by (subst ref_token_nonspace) auto
  then show ?thesis
    using run_stops [OF assms(3) space_not_in_words(1)] Cons by simp
qed (use assms in simp)

lemma ref_token_render: "printable t \<Longrightarrow> ref_token (render t @ 0x20 # xs) = (t, 0x20 # xs)"
proof (cases t)
  case (Literal v)
  obtain a as where d: "dec_digits (unat v) = a # as" by (cases "dec_digits (unat v)") auto
  then have a: "is_digit a" using dec_digits_are_digits [of "unat v"] by auto
  then have "\<not> (is_alpha a \<or> a = 0x5F)" by (auto simp: is_alpha_def is_digit_def word_le_nat_alt)
  then have "ref_token (dec_digits (unat v) @ 0x20 # xs) = ref_literal (dec_digits (unat v) @ 0x20 # xs)"
    using a not_space_classes(2) [OF a] by (simp add: d ref_token_nonspace)
  then show ?thesis using Literal ref_literal_dec [of "0x20" "unat v" xs] by simp
next
  case (Operator b)
  then show "printable t \<Longrightarrow> ?thesis"
    using operator_classes [of b] by (auto simp: ref_token_nonspace)
next
  case (Identifier w)
  then show "printable t \<Longrightarrow> ?thesis" by (auto simp: ref_token_word keyword_def)
next
  case KwFn
  have "ref_token (byte_str ''fn'' @ 0x20 # xs) = (keyword (byte_str ''fn''), 0x20 # xs)"
    by (rule ref_token_word) (simp_all add: byte_str_def is_ident_char_def is_alpha_def)
  then show ?thesis by (simp add: KwFn keyword_def)
next
  case KwLet
  have "ref_token (byte_str ''let'' @ 0x20 # xs) = (keyword (byte_str ''let''), 0x20 # xs)"
    by (rule ref_token_word) (simp_all add: byte_str_def is_ident_char_def is_alpha_def)
  then show ?thesis by (simp add: KwLet keyword_def byte_str_def)
qed (simp_all add: ref_token_nonspace is_space_def is_alpha_def is_digit_def single_token_def)


lemma next_token_Eof: "wf_lexer l \<Longrightarrow> rest l = [] \<or> rest l = [0x20] \<Longrightarrow> fst (next_token l) = Eof"
  using next_token_ref [of l] by (auto simp: ref_token_def)

lemma take_tokens_render:
  "wf_lexer l \<Longrightarrow> list_all printable ts \<Longrightarrow> rest l = render_all ts \<or> rest l = 0x20 # render_all ts
     \<Longrightarrow> take_tokens (Suc (length ts)) l = ts @ [Eof]"
proof (induction ts arbitrary: l)
  case Nil
  then show ?case by (simp add: render_all_def next_token_Eof split_beta)
next
  case (Cons t ts)
  have all: "render_all (t # ts) = render t @ 0x20 # render_all ts"
    by (simp add: render_all_def)
  have "ref_token (rest l) = (t, 0x20 # render_all ts)"
    using Cons.prems ref_token_render [of t "render_all ts"] by (auto simp: all ref_token_space)
  then have "fst (next_token l) = t" "rest (snd (next_token l)) = 0x20 # render_all ts"
      "wf_lexer (snd (next_token l))"
    using next_token_ref [OF Cons.prems(1)] by auto
  then show ?case
    using Cons.IH [of "snd (next_token l)"] Cons.prems(2) by (simp add: split_beta)
qed

lemma next_token_literal:
  assumes "wf_lexer l" and "rest l = b # zs" and "is_digit b"
  shows "fst (next_token l) = fst (ref_literal (rest l))"
proof -
  have "\<not> (is_alpha b \<or> b = 0x5F)"
    using assms(3) by (auto simp: is_alpha_def is_digit_def word_le_nat_alt)
  then have "ref_token (rest l) = ref_literal (rest l)"
    using assms not_space_classes(2) [OF assms(3)] by (simp add: ref_token_nonspace)
  then show ?thesis using next_token_ref [OF assms(1)] by (metis fst_conv)
qed

section \<open>Properties\<close>

text \<open>C32: the cursor loops implement the reference lexer. From any position inside the buffer,
  \<open>next_token\<close> returns the token that the reference lexer takes off the unread suffix and
  leaves exactly its remaining suffix, keeps the buffer and stays inside it, consumes at least
  one byte unless it returns \<open>Eof\<close>, and returns \<open>Eof\<close> only at the end of input.\<close>

theorem next_token_refines:
  assumes "wf_lexer l"
  shows "ref_token (rest l) = (fst (next_token l), rest (snd (next_token l)))
    \<and> stream (snd (next_token l)) = stream l \<and> wf_lexer (snd (next_token l))
    \<and> (if fst (next_token l) = Eof then rest (snd (next_token l)) = []
       else length (rest (snd (next_token l))) < length (rest l))"
  using next_token_ref [OF assms] ref_token_shrinks [of "rest l"] by simp

theorem next_token_refines_witness:
  "ref_token (byte_str ''let x'') = (KwLet, byte_str '' x'')
   \<and> fst (next_token (lexer_new (byte_str ''let x''))) = KwLet"
proof -
  have r: "ref_token (byte_str ''let x'') = (KwLet, byte_str '' x'')"
    by (simp add: ref_token_def byte_str_def is_space_def is_alpha_def keyword_def is_ident_char_def is_digit_def)
  then show ?thesis
    using next_token_refines [OF wf_lexer_new(1), of "byte_str ''let x''"] by simp
qed

text \<open>C14: literals are exact or rejected. A decimal or hex literal, with underscores as
  separators, becomes the token of its numeric value if that value fits 32 bits, and an
  overflow error otherwise; it never wraps. A hex prefix followed by neither digit nor
  underscore is malformed.\<close>

theorem literal_exact:
  assumes "wf_lexer l" and "rest l = b # zs" and "is_digit b"
  shows "fst (next_token l) =
    (if hex_prefix (rest l) then
       (if 2 ^ 32 \<le> hex_number 0 (hex_run (drop 2 (rest l))) then Error ''hex literal overflow''
        else if hex_run (drop 2 (rest l)) = [] then Error ''malformed hex literal''
        else Literal (of_nat (hex_number 0 (hex_run (drop 2 (rest l))))))
     else
       (if 2 ^ 32 \<le> dec_number 0 (dec_run (rest l)) then Error ''literal overflow''
        else Literal (of_nat (dec_number 0 (dec_run (rest l))))))"
  unfolding next_token_literal [OF assms]
  by (simp add: ref_literal_def fits_def Let_def)

theorem literal_exact_witness:
  "fst (next_token (lexer_new (byte_str ''4_294_967_295''))) = Literal 0xFFFFFFFF
   \<and> fst (next_token (lexer_new (byte_str ''4294967296''))) = Error ''literal overflow''
   \<and> fst (next_token (lexer_new (byte_str ''0xbE_9f''))) = Literal 48799"
proof -
  have bytes: "byte_str ''4_294_967_295'' =
      0x34 # [0x5F, 0x32, 0x39, 0x34, 0x5F, 0x39, 0x36, 0x37, 0x5F, 0x32, 0x39, 0x35]"
    "byte_str ''4294967296'' = 0x34 # [0x32, 0x39, 0x34, 0x39, 0x36, 0x37, 0x32, 0x39, 0x36]"
    "byte_str ''0xbE_9f'' = 0x30 # [0x78, 0x62, 0x45, 0x5F, 0x39, 0x66]"
    by (simp_all add: byte_str_def)
  have digit: "is_digit 0x34" "is_digit 0x30" by (simp_all add: is_digit_def)
  show ?thesis
    using literal_exact [OF wf_lexer_new(1) _ digit(1), of "byte_str ''4_294_967_295''"]
      literal_exact [OF wf_lexer_new(1) _ digit(1), of "byte_str ''4294967296''"]
      literal_exact [OF wf_lexer_new(1) _ digit(2), of "byte_str ''0xbE_9f''"]
    by (simp add: bytes hex_prefix_def dec_run_def is_digit_def dec_number_def dec_val_def hex_run_def is_hexdigit_def hex_number_def hex_val_def)
qed

text \<open>C38: printing and lexing are inverse. A line made of any printable tokens (keywords,
  identifiers, operators, 32-bit literals in decimal, punctuation), each followed by a space,
  is read back as exactly those tokens and then the end of input.\<close>

theorem lex_render_roundtrip:
  assumes "list_all printable ts"
  shows "take_tokens (Suc (length ts)) (lexer_new (render_all ts)) = ts @ [Eof]"
  using take_tokens_render [OF wf_lexer_new(1) assms] by simp

theorem lex_render_roundtrip_witness:
  "take_tokens 6 (lexer_new (render_all [KwLet, Identifier [0x78], Operator 0x3D, Literal 42, Semicolon]))
   = [KwLet, Identifier [0x78], Operator 0x3D, Literal 42, Semicolon, Eof]"
proof -
  have h: "list_all printable [KwLet, Identifier [0x78], Operator 0x3D, Literal 42, Semicolon]"
    by (simp add: is_operator_def byte_str_def is_alpha_def is_ident_char_def)
  have six: "6 = Suc (length [KwLet, Identifier [0x78], Operator 0x3D, Literal 42, Semicolon])"
    by simp
  show ?thesis
    unfolding six by (subst lex_render_roundtrip [OF h]) simp
qed

text \<open>A hex prefix with underscores only passes the malformed-literal check and reads as 0.\<close>

lemma hex_underscore_reads_zero:
  "ref_literal (byte_str ''0x_'') = (Literal 0, [])"
  by (simp add: ref_literal_def hex_prefix_def byte_str_def hex_run_def hex_number_def fits_def)

end
