(* ===== verification/Exec.thy ===== *)
theory Exec
  imports Bus
begin

text \<open>
  The threaded execution engine: the operand stack and the dispatch loop of
  src/kernel/exec.rs and the micro-primitives of src/compiler/primitives.rs. The addresses
  at which the linker places the primitives are a parameter \<open>lay\<close>; a word that is the
  address of no primitive, or a read past the end of the stream, is undefined behaviour in
  the source and \<open>None\<close> here.
\<close>

section \<open>Operand stack\<close>

definition VM_STACK_SIZE :: nat where "VM_STACK_SIZE = 64"

record vm =
  VM_STACK :: "usize list"
  VM_SP :: nat

definition vm_init :: vm where
  "vm_init = \<lparr>VM_STACK = replicate VM_STACK_SIZE 0, VM_SP = 0\<rparr>"

definition vm_push :: "usize \<Rightarrow> vm \<Rightarrow> bool \<times> vm" where
  "vm_push value s =
     (let sp = VM_SP s in
      if VM_STACK_SIZE \<le> sp then (False, s)
      else (True, s\<lparr>VM_STACK := (VM_STACK s)[sp := value], VM_SP := sp + 1\<rparr>))"

definition vm_pop :: "vm \<Rightarrow> usize \<times> vm" where
  "vm_pop s =
     (let sp = VM_SP s in
      if sp = 0 then (0, s) else (VM_STACK s ! (sp - 1), s\<lparr>VM_SP := sp - 1\<rparr>))"

definition vm_reset :: "vm \<Rightarrow> vm" where "vm_reset s = s\<lparr>VM_SP := 0\<rparr>"

definition vm_depth :: "vm \<Rightarrow> nat" where "vm_depth s = VM_SP s"

text \<open>The stack as a list, top first, and its invariant.\<close>

definition vm_list :: "vm \<Rightarrow> usize list" where
  "vm_list s = rev (take (VM_SP s) (VM_STACK s))"

definition wf_vm :: "vm \<Rightarrow> bool" where
  "wf_vm s \<longleftrightarrow> length (VM_STACK s) = VM_STACK_SIZE \<and> VM_SP s \<le> VM_STACK_SIZE"

text \<open>The head of a list, with the value that popping an empty stack yields.\<close>

definition top_or :: "'v \<Rightarrow> 'v list \<Rightarrow> 'v" where
  "top_or d xs = (case xs of [] \<Rightarrow> d | x # _ \<Rightarrow> x)"

lemma top_or_simps [simp]: "top_or d [] = d" "top_or d (x # xs) = x"
  by (simp_all add: top_or_def)

text \<open>
  The interface of a bounded stack with total operations: a push on a full stack is dropped,
  a pop on an empty stack yields a default.
\<close>

locale bounded_stack =
  fixes push :: "'v \<Rightarrow> 's \<Rightarrow> bool \<times> 's"
    and pop :: "'s \<Rightarrow> 'v \<times> 's"
    and stk :: "'s \<Rightarrow> 'v list"
    and ok :: "'s \<Rightarrow> bool"
    and cap :: nat
    and dflt :: 'v
  assumes cap_pos: "0 < cap"
    and push_room: "ok s \<Longrightarrow> length (stk s) < cap \<Longrightarrow> fst (push v s) \<and> stk (snd (push v s)) = v # stk s"
    and push_full: "ok s \<Longrightarrow> length (stk s) = cap \<Longrightarrow> push v s = (False, s)"
    and pop_law: "ok s \<Longrightarrow> fst (pop s) = top_or dflt (stk s) \<and> stk (snd (pop s)) = tl (stk s)"
    and ok_push: "ok s \<Longrightarrow> ok (snd (push v s))"
    and ok_pop: "ok s \<Longrightarrow> ok (snd (pop s))"
    and bounded: "ok s \<Longrightarrow> length (stk s) \<le> cap"
begin

lemma push_fits: "ok s \<Longrightarrow> length (stk s) < cap \<Longrightarrow> stk (snd (push v s)) = v # stk s"
  by (simp add: push_room)

lemma pop_push: "ok s \<Longrightarrow> length (stk s) < cap \<Longrightarrow> fst (pop (snd (push v s))) = v"
  by (simp add: pop_law ok_push push_fits)

lemma pop2:
  assumes "ok s"
  shows "fst (pop (snd (pop s))) = top_or dflt (tl (stk s))"
    "stk (snd (pop (snd (pop s)))) = tl (tl (stk s))" "ok (snd (pop (snd (pop s))))"
  using assms by (simp_all add: pop_law ok_pop)

lemma pop2_push:
  assumes "ok s"
  shows "stk (snd (push v (snd (pop (snd (pop s)))))) = v # tl (tl (stk s))"
proof -
  have "length (tl (tl (stk s))) < cap"
    using bounded [OF assms] cap_pos by (cases "stk s") auto
  then show ?thesis using pop2 [OF assms] by (simp add: push_fits)
qed

lemma pop_push_one:
  assumes "ok s"
  shows "stk (snd (push v (snd (pop s)))) = v # tl (stk s)"
proof -
  have "length (tl (stk s)) < cap"
    using bounded [OF assms] cap_pos by (cases "stk s") auto
  then show ?thesis using assms by (simp add: push_fits pop_law ok_pop)
qed

end

lemma length_vm_list: "wf_vm s \<Longrightarrow> length (vm_list s) = VM_SP s"
  by (simp add: vm_list_def wf_vm_def)

interpretation vm: bounded_stack vm_push vm_pop vm_list wf_vm VM_STACK_SIZE 0
proof
  fix s :: vm and v :: usize
  show "0 < VM_STACK_SIZE" by (simp add: VM_STACK_SIZE_def)
  assume ok: "wf_vm s"
  show "wf_vm (snd (vm_push v s))" "wf_vm (snd (vm_pop s))"
    using ok by (auto simp: wf_vm_def vm_push_def vm_pop_def Let_def)
  show "length (vm_list s) \<le> VM_STACK_SIZE"
    using ok by (simp add: length_vm_list) (simp add: wf_vm_def)
  show "fst (vm_pop s) = top_or 0 (vm_list s) \<and> vm_list (snd (vm_pop s)) = tl (vm_list s)"
  proof (cases "VM_SP s")
    case 0
    then show ?thesis by (simp add: vm_pop_def vm_list_def)
  next
    case (Suc n)
    then show ?thesis
      using ok by (simp add: vm_pop_def vm_list_def wf_vm_def take_Suc_snoc)
  qed
  show "vm_push v s = (False, s)" if "length (vm_list s) = VM_STACK_SIZE"
    using that ok by (simp add: vm_push_def length_vm_list)
  show "fst (vm_push v s) \<and> vm_list (snd (vm_push v s)) = v # vm_list s"
    if "length (vm_list s) < VM_STACK_SIZE"
    using that ok by (simp add: vm_push_def Let_def length_vm_list) (simp add: vm_list_def wf_vm_def take_update_snoc)
qed

section \<open>Micro-primitives\<close>

datatype prim = Lit | LoadReg | WriteReg | Add | Sub | Mul | Div | Halt

instantiation prim :: enum
begin

definition enum_prim :: "prim list" where
  "enum_prim = [Lit, LoadReg, WriteReg, Add, Sub, Mul, Div, Halt]"

definition enum_all_prim :: "(prim \<Rightarrow> bool) \<Rightarrow> bool" where
  "enum_all_prim Q \<longleftrightarrow> list_all Q enum_class.enum"

definition enum_ex_prim :: "(prim \<Rightarrow> bool) \<Rightarrow> bool" where
  "enum_ex_prim Q \<longleftrightarrow> list_ex Q enum_class.enum"

instance
proof
  show univ: "(UNIV :: prim set) = set enum_class.enum"
    using prim.exhaust by (auto simp: enum_prim_def)
  show "distinct (enum_class.enum :: prim list)" by (simp add: enum_prim_def)
  show "enum_class.enum_all Q \<longleftrightarrow> Ball UNIV Q" "enum_class.enum_ex Q \<longleftrightarrow> Bex UNIV Q" for Q :: "prim \<Rightarrow> bool"
    by (simp_all add: enum_all_prim_def enum_ex_prim_def univ list_all_iff list_ex_iff)
qed

end

text \<open>Where the linker puts each primitive; distinct functions at non-null addresses.\<close>

definition valid_layout :: "(prim \<Rightarrow> usize) \<Rightarrow> bool" where
  "valid_layout lay \<longleftrightarrow> distinct (map lay enum_class.enum) \<and> 0 \<notin> set (map lay enum_class.enum)"

definition prim_at :: "(prim \<Rightarrow> usize) \<Rightarrow> usize \<Rightarrow> prim option" where
  "prim_at lay w = find (\<lambda>p. lay p = w) enum_class.enum"

text \<open>
  Each primitive takes the stream, the index just past its own word, the stack and the
  hardware, and returns the next index (\<open>None\<close>: the null pointer that ends dispatch).
\<close>

definition lit_prim :: "usize list \<Rightarrow> nat \<Rightarrow> vm \<Rightarrow> 'h \<Rightarrow> (nat option \<times> vm \<times> 'h) option" where
  "lit_prim ws ip s h =
     (case slice_get ws ip of None \<Rightarrow> None | Some v \<Rightarrow> Some (Some (ip + 1), snd (vm_push v s), h))"

definition load_reg_prim :: "'h bus \<Rightarrow> nat \<Rightarrow> vm \<Rightarrow> 'h \<Rightarrow> nat option \<times> vm \<times> 'h" where
  "load_reg_prim B ip s h =
     (let (addr, s) = vm_pop s; (value, h) = rd B addr h; s = snd (vm_push value s) in (Some ip, s, h))"

definition write_reg_prim :: "'h bus \<Rightarrow> nat \<Rightarrow> vm \<Rightarrow> 'h \<Rightarrow> nat option \<times> vm \<times> 'h" where
  "write_reg_prim B ip s h =
     (let (value, s) = vm_pop s; (addr, s) = vm_pop s in (Some ip, s, wr B addr value h))"

definition add_prim :: "nat \<Rightarrow> vm \<Rightarrow> 'h \<Rightarrow> nat option \<times> vm \<times> 'h" where
  "add_prim ip s h =
     (let (b, s) = vm_pop s; (a, s) = vm_pop s in (Some ip, snd (vm_push (a + b) s), h))"

definition sub_prim :: "nat \<Rightarrow> vm \<Rightarrow> 'h \<Rightarrow> nat option \<times> vm \<times> 'h" where
  "sub_prim ip s h =
     (let (b, s) = vm_pop s; (a, s) = vm_pop s in (Some ip, snd (vm_push (a - b) s), h))"

definition mul_prim :: "nat \<Rightarrow> vm \<Rightarrow> 'h \<Rightarrow> nat option \<times> vm \<times> 'h" where
  "mul_prim ip s h =
     (let (b, s) = vm_pop s; (a, s) = vm_pop s in (Some ip, snd (vm_push (a * b) s), h))"

definition div_prim :: "nat \<Rightarrow> vm \<Rightarrow> 'h \<Rightarrow> nat option \<times> vm \<times> 'h" where
  "div_prim ip s h =
     (let (b, s) = vm_pop s; (a, s) = vm_pop s;
          q = (if b = 0 then 0 else a div b) in (Some ip, snd (vm_push q s), h))"

definition halt_prim :: "nat \<Rightarrow> vm \<Rightarrow> 'h \<Rightarrow> nat option \<times> vm \<times> 'h" where
  "halt_prim ip s h = (None, s, h)"

text \<open>The indirect call \<open>prim(ip)\<close> of the dispatch loop.\<close>

fun call_prim :: "'h bus \<Rightarrow> usize list \<Rightarrow> prim \<Rightarrow> nat \<Rightarrow> vm \<Rightarrow> 'h \<Rightarrow> (nat option \<times> vm \<times> 'h) option" where
  "call_prim B ws Lit ip s h = lit_prim ws ip s h"
| "call_prim B ws LoadReg ip s h = Some (load_reg_prim B ip s h)"
| "call_prim B ws WriteReg ip s h = Some (write_reg_prim B ip s h)"
| "call_prim B ws Add ip s h = Some (add_prim ip s h)"
| "call_prim B ws Sub ip s h = Some (sub_prim ip s h)"
| "call_prim B ws Mul ip s h = Some (mul_prim ip s h)"
| "call_prim B ws Div ip s h = Some (div_prim ip s h)"
| "call_prim B ws Halt ip s h = Some (halt_prim ip s h)"

lemmas prim_defs = lit_prim_def load_reg_prim_def write_reg_prim_def add_prim_def sub_prim_def
  mul_prim_def div_prim_def halt_prim_def

lemma call_prim_next: "call_prim B ws p ip s h = Some (Some ip', s', h') \<Longrightarrow> ip \<le> ip'"
  by (cases p) (auto simp: prim_defs split_beta split: option.splits)

text \<open>The dispatch loop; \<open>ip\<close> is never null on entry to an iteration.\<close>

function run_threaded_stream ::
    "(prim \<Rightarrow> usize) \<Rightarrow> 'h bus \<Rightarrow> usize list \<Rightarrow> nat \<Rightarrow> vm \<Rightarrow> 'h \<Rightarrow> (vm \<times> 'h) option" where
  "run_threaded_stream lay B ws ip s h =
     (case slice_get ws ip of
       None \<Rightarrow> None
     | Some word \<Rightarrow>
         if word = 0 then Some (s, h)
         else (case prim_at lay word of
           None \<Rightarrow> None
         | Some p \<Rightarrow>
             (case call_prim B ws p (ip + 1) s h of
               None \<Rightarrow> None
             | Some (None, s', h') \<Rightarrow> Some (s', h')
             | Some (Some ip', s', h') \<Rightarrow> run_threaded_stream lay B ws ip' s' h')))"
  by pat_completeness auto
termination
proof (relation "measure (\<lambda>(lay, B, ws, ip, s, h). length ws - ip)", goal_cases)
  case 1
  show ?case by simp
next
  case (2 lay B ws ip s h x1 x2 r p q ip' s' h')
  then show ?case by (auto simp: slice_get_Some_iff dest!: call_prim_next)
qed

declare run_threaded_stream.simps [simp del]


section \<open>Streams as RPN programs\<close>

text \<open>
  The well-formed streams: pushes of inline literals and calls of the other primitives,
  ended by a halt. Their meaning on a list as operand stack: a push on a full stack is
  dropped, popping an empty stack yields 0.
\<close>

datatype rpn_op = Push usize | Do prim

fun plain_op :: "rpn_op \<Rightarrow> bool" where
  "plain_op (Push v) = True"
| "plain_op (Do p) = (p \<noteq> Lit \<and> p \<noteq> Halt)"

fun enc_op :: "(prim \<Rightarrow> usize) \<Rightarrow> rpn_op \<Rightarrow> usize list" where
  "enc_op lay (Push v) = [lay Lit, v]"
| "enc_op lay (Do p) = [lay p]"

definition enc :: "(prim \<Rightarrow> usize) \<Rightarrow> rpn_op list \<Rightarrow> usize list" where
  "enc lay ops = concat (map (enc_op lay) ops)"

definition arg1 :: "usize list \<Rightarrow> usize" where "arg1 st = top_or 0 st"
definition arg2 :: "usize list \<Rightarrow> usize" where "arg2 st = top_or 0 (tl st)"

fun rpn_step :: "'h bus \<Rightarrow> rpn_op \<Rightarrow> usize list \<times> 'h \<Rightarrow> usize list \<times> 'h" where
  "rpn_step B (Push v) (st, h) = (if length st < VM_STACK_SIZE then v # st else st, h)"
| "rpn_step B (Do LoadReg) (st, h) = (fst (rd B (arg1 st) h) # tl st, snd (rd B (arg1 st) h))"
| "rpn_step B (Do WriteReg) (st, h) = (tl (tl st), wr B (arg2 st) (arg1 st) h)"
| "rpn_step B (Do Add) (st, h) = ((arg2 st + arg1 st) # tl (tl st), h)"
| "rpn_step B (Do Sub) (st, h) = ((arg2 st - arg1 st) # tl (tl st), h)"
| "rpn_step B (Do Mul) (st, h) = ((arg2 st * arg1 st) # tl (tl st), h)"
| "rpn_step B (Do Div) (st, h) = ((if arg1 st = 0 then 0 else arg2 st div arg1 st) # tl (tl st), h)"
| "rpn_step B (Do Lit) c = c"
| "rpn_step B (Do Halt) c = c"

fun rpn :: "'h bus \<Rightarrow> rpn_op list \<Rightarrow> usize list \<times> 'h \<Rightarrow> usize list \<times> 'h" where
  "rpn B [] c = c"
| "rpn B (x # ops) c = rpn B ops (rpn_step B x c)"

lemma rpn_append: "rpn B (xs @ ys) c = rpn B ys (rpn B xs c)"
  by (induction xs arbitrary: c) auto

lemma enc_simps [simp]:
  "enc lay [] = []" "enc lay (x # xs) = enc_op lay x @ enc lay xs" "enc lay (xs @ ys) = enc lay xs @ enc lay ys"
  by (simp_all add: enc_def)

lemma prim_at_lay [simp]: "valid_layout lay \<Longrightarrow> prim_at lay (lay p) = Some p"
proof -
  assume v: "valid_layout lay"
  then have inj: "inj lay" by (simp add: valid_layout_def distinct_map enum_UNIV)
  have "prim_at lay (lay p) \<noteq> None" by (auto simp: prim_at_def find_None_iff enum_UNIV)
  then obtain q where q: "prim_at lay (lay p) = Some q" by auto
  then have "lay q = lay p" by (auto simp: prim_at_def find_Some_iff)
  then have "q = p" using inj by (auto dest: inj_onD)
  with q show ?thesis by simp
qed

lemma lay_nonzero [simp]: "valid_layout lay \<Longrightarrow> lay p \<noteq> 0"
  by (auto simp: valid_layout_def enum_UNIV)

text \<open>One primitive: the stack list and the hardware change as the RPN step says.\<close>

lemma call_prim_rpn:
  assumes "wf_vm s" and "plain_op (Do p)"
  shows "\<exists>s'. call_prim B ws p ip s h = Some (Some ip, s', snd (rpn_step B (Do p) (vm_list s, h)))
    \<and> wf_vm s' \<and> vm_list s' = fst (rpn_step B (Do p) (vm_list s, h))"
  using assms vm.pop_law [OF assms(1)] vm.pop2 [OF assms(1)] vm.pop2_push [OF assms(1)]
    vm.pop_push_one [OF assms(1)] vm.ok_pop [OF assms(1)]
  by (cases p) (auto simp: prim_defs split_beta arg1_def arg2_def vm.ok_push)

lemma run_stream_at:
  assumes "ip < length ws"
  shows "run_threaded_stream lay B ws ip s h =
    (if ws ! ip = 0 then Some (s, h)
     else (case prim_at lay (ws ! ip) of
       None \<Rightarrow> None
     | Some p \<Rightarrow>
         (case call_prim B ws p (ip + 1) s h of
           None \<Rightarrow> None
         | Some (None, s', h') \<Rightarrow> Some (s', h')
         | Some (Some ip', s', h') \<Rightarrow> run_threaded_stream lay B ws ip' s' h')))"
  using assms by (subst run_threaded_stream.simps) simp

lemma run_enc:
  assumes "valid_layout lay" and "wf_vm s" and "list_all plain_op ops"
  shows "\<exists>s'. run_threaded_stream lay B (pre @ enc lay ops @ lay Halt # junk) (length pre) s h
      = Some (s', snd (rpn B ops (vm_list s, h)))
    \<and> wf_vm s' \<and> vm_list s' = fst (rpn B ops (vm_list s, h))"
  using assms(2,3)
proof (induction ops arbitrary: pre s h)
  case Nil
  then show ?case
    using assms(1) by (simp add: run_stream_at nth_append halt_prim_def)
next
  case (Cons x ops)
  show ?case
  proof (cases x)
    case (Push v)
    let ?s = "snd (vm_push v s)"
    have ok: "wf_vm ?s" using Cons.prems(1) by (rule vm.ok_push)
    have lst: "vm_list ?s = fst (rpn_step B (Push v) (vm_list s, h))"
      using vm.push_fits [OF Cons.prems(1)] vm.push_full [OF Cons.prems(1)] vm.bounded [OF Cons.prems(1)]
      by (cases "length (vm_list s) < VM_STACK_SIZE") auto
    have "run_threaded_stream lay B (pre @ enc lay (x # ops) @ lay Halt # junk) (length pre) s h
      = run_threaded_stream lay B ((pre @ [lay Lit, v]) @ enc lay ops @ lay Halt # junk)
          (length (pre @ [lay Lit, v])) ?s h"
      using assms(1) by (subst run_stream_at) (auto simp: Push nth_append lit_prim_def)
    then show ?thesis
      using Cons.IH [OF ok, of "pre @ [lay Lit, v]" h] Cons.prems(2) lst by (simp add: Push)
  next
    case (Do p)
    with Cons.prems have p: "plain_op (Do p)" by simp
    obtain s' where s': "call_prim B (pre @ enc lay (x # ops) @ lay Halt # junk) p (length pre + 1) s h
        = Some (Some (length pre + 1), s', snd (rpn_step B (Do p) (vm_list s, h)))"
      "wf_vm s'" "vm_list s' = fst (rpn_step B (Do p) (vm_list s, h))"
      using call_prim_rpn [OF Cons.prems(1) p, of B "pre @ enc lay (x # ops) @ lay Halt # junk"
          "length pre + 1" h] by blast
    have "run_threaded_stream lay B (pre @ enc lay (x # ops) @ lay Halt # junk) (length pre) s h
      = run_threaded_stream lay B ((pre @ [lay p]) @ enc lay ops @ lay Halt # junk)
          (length (pre @ [lay p])) s' (snd (rpn_step B (Do p) (vm_list s, h)))"
      using assms(1) s'(1) by (subst run_stream_at) (auto simp: Do nth_append)
    then show ?thesis
      using Cons.IH [OF s'(2), of "pre @ [lay p]" "snd (rpn_step B (Do p) (vm_list s, h))"] Cons.prems(2) s'(3)
      by (simp add: Do)
  qed
qed

section \<open>Properties\<close>

text \<open>C6: threaded dispatch is correct on every well-formed stream. Under a valid link layout and
  on any hardware, a stream that encodes an RPN program and ends in a halt runs to completion
  (no undefined code pointer, no read past the end, whatever follows the halt), and leaves the
  operand stack and the hardware as the RPN evaluation does, including the silent drop on a
  full stack and the zero from an empty one.\<close>

theorem threaded_runs_rpn:
  assumes "valid_layout lay" and "wf_vm s" and "list_all plain_op ops"
  shows "\<exists>s'. run_threaded_stream lay B (enc lay ops @ lay Halt # junk) 0 s h
      = Some (s', snd (rpn B ops (vm_list s, h)))
    \<and> wf_vm s' \<and> vm_list s' = fst (rpn B ops (vm_list s, h))"
  using run_enc [OF assms, of B "[]" junk h] by simp

definition example_layout :: "prim \<Rightarrow> usize" where
  "example_layout p = (case p of Lit \<Rightarrow> 0x08000101 | LoadReg \<Rightarrow> 0x08000111 | WriteReg \<Rightarrow> 0x08000121
     | Add \<Rightarrow> 0x08000131 | Sub \<Rightarrow> 0x08000141 | Mul \<Rightarrow> 0x08000151 | Div \<Rightarrow> 0x08000161 | Halt \<Rightarrow> 0x08000171)"

lemma example_layout_valid: "valid_layout example_layout"
  by (simp add: valid_layout_def enum_prim_def example_layout_def)

lemma vm_init_wf [simp]: "wf_vm vm_init" "vm_list vm_init = []"
  by (simp_all add: wf_vm_def vm_init_def vm_list_def)

theorem threaded_runs_rpn_witness:
  "\<exists>s'. run_threaded_stream example_layout ram_bus
      (enc example_layout [Push 20, Push 22, Do Add] @ [example_layout Halt]) 0 vm_init (\<lambda>_. 0)
      = Some (s', \<lambda>_. 0) \<and> vm_list s' = [42]"
  using threaded_runs_rpn [OF example_layout_valid vm_init_wf(1), of "[Push 20, Push 22, Do Add]" ram_bus "[]"]
  by (auto simp: arg1_def arg2_def VM_STACK_SIZE_def)

end
