(* ===== verification/Emitter.thy ===== *)
theory Emitter
  imports Prelude
begin

text \<open>
  The machine-code emitters (src/compiler/emitter.rs): the pure encoders, and the two
  backends that write their output into the executable buffer with a bounds check. The
  buffer is the array of halfwords (Thumb-2) or words (RV32I) of \<open>EXEC_BUFFER\<close>; the
  source's write pointer always is its base plus \<open>len_words\<close>.
\<close>

datatype EmitError = Overflow | BadRegister

section \<open>Encoders\<close>

definition encode_movw :: "u8 \<Rightarrow> u32 \<Rightarrow> u16 \<times> u16" where
  "encode_movw rd imm =
     (let imm4 = ucast (drop_bit 12 imm AND 0xF) :: u16;
          i = ucast (drop_bit 11 imm AND 0x1) :: u16;
          imm3 = ucast (drop_bit 8 imm AND 0x7) :: u16;
          imm8 = ucast (imm AND 0xFF) :: u16;
          hw1 = 0xF240 OR push_bit 10 i OR imm4;
          hw2 = push_bit 12 imm3 OR push_bit 8 (ucast rd AND 0xF) OR imm8
      in (hw1, hw2))"

definition encode_movt :: "u8 \<Rightarrow> u32 \<Rightarrow> u16 \<times> u16" where
  "encode_movt rd imm =
     (let high = drop_bit 16 imm;
          imm4 = ucast (drop_bit 12 high AND 0xF) :: u16;
          i = ucast (drop_bit 11 high AND 0x1) :: u16;
          imm3 = ucast (drop_bit 8 high AND 0x7) :: u16;
          imm8 = ucast (high AND 0xFF) :: u16;
          hw1 = 0xF2C0 OR push_bit 10 i OR imm4;
          hw2 = push_bit 12 imm3 OR push_bit 8 (ucast rd AND 0xF) OR imm8
      in (hw1, hw2))"

definition encode_str_imm :: "u8 \<Rightarrow> u8 \<Rightarrow> u32 \<Rightarrow> u16 option" where
  "encode_str_imm rt rn byte_offset =
     (if 7 < rt \<or> 7 < rn \<or> 124 < byte_offset \<or> byte_offset mod 4 \<noteq> 0 then None
      else Some (0x6000 OR push_bit 6 (ucast (byte_offset div 4)) OR push_bit 3 (ucast rn) OR ucast rt))"

definition encode_ldr_imm :: "u8 \<Rightarrow> u8 \<Rightarrow> u32 \<Rightarrow> u16 option" where
  "encode_ldr_imm rt rn byte_offset =
     (if 7 < rt \<or> 7 < rn \<or> 124 < byte_offset \<or> byte_offset mod 4 \<noteq> 0 then None
      else Some (0x6800 OR push_bit 6 (ucast (byte_offset div 4)) OR push_bit 3 (ucast rn) OR ucast rt))"

definition encode_lui :: "u8 \<Rightarrow> u32 \<Rightarrow> u32" where
  "encode_lui rd imm20 = 0x37 OR push_bit 7 (ucast rd AND 0x1F) OR push_bit 20 (imm20 AND 0xFFFFF)"

definition encode_addi :: "u8 \<Rightarrow> u8 \<Rightarrow> u32 \<Rightarrow> u32" where
  "encode_addi rd rs1 imm12_field =
     0x13 OR push_bit 7 (ucast rd AND 0x1F) OR push_bit 15 (ucast rs1 AND 0x1F)
       OR push_bit 20 (imm12_field AND 0xFFF)"

definition encode_sw :: "u8 \<Rightarrow> u8 \<Rightarrow> u32 \<Rightarrow> u32 option" where
  "encode_sw rs2 rs1 offset =
     (if 0x800 \<le> offset \<and> offset < 0xFFFFF000 then None
      else (let off = offset AND 0xFFF in
        Some (0x23 OR push_bit 12 2
          OR push_bit 25 (drop_bit 5 off)
          OR push_bit 20 (ucast rs2 AND 0x1F)
          OR push_bit 15 (ucast rs1 AND 0x1F)
          OR push_bit 7 (off AND 0x1F))))"

definition encode_lw :: "u8 \<Rightarrow> u8 \<Rightarrow> u32 \<Rightarrow> u32 option" where
  "encode_lw rd rs1 offset =
     (if 0x800 \<le> offset \<and> offset < 0xFFFFF000 then None
      else Some (0x03 OR push_bit 12 2
          OR push_bit 7 (ucast rd AND 0x1F)
          OR push_bit 15 (ucast rs1 AND 0x1F)
          OR push_bit 20 (offset AND 0xFFF)))"

definition encode_rtype_addsub :: "u8 \<Rightarrow> u8 \<Rightarrow> u8 \<Rightarrow> bool \<Rightarrow> u32" where
  "encode_rtype_addsub rd rs1 rs2 sub =
     (let funct7 = (if sub then 0x20 else 0x00) in
      0x33 OR push_bit 25 funct7
        OR push_bit 20 (ucast rs2 AND 0x1F)
        OR push_bit 15 (ucast rs1 AND 0x1F)
        OR push_bit 7 (ucast rd AND 0x1F))"

definition RV32_RET :: u32 where "RV32_RET = 0x00008067"

definition encode_sdiv :: "u8 \<Rightarrow> u8 \<Rightarrow> u8 \<Rightarrow> u16 \<times> u16" where
  "encode_sdiv rd rn rm =
     (let hw1 = 0xFB90 OR ucast rn;
          hw2 = 0xF010 OR push_bit 8 (ucast rd) OR ucast rm
      in (hw1, hw2))"

definition encode_rtype :: "u8 \<Rightarrow> u8 \<Rightarrow> u8 \<Rightarrow> u32 \<Rightarrow> u32 \<Rightarrow> u32" where
  "encode_rtype rd rs1 rs2 funct7 funct3 =
     0x33 OR push_bit 25 funct7
       OR push_bit 20 (ucast rs2 AND 0x1F)
       OR push_bit 15 (ucast rs1 AND 0x1F)
       OR push_bit 12 funct3
       OR push_bit 7 (ucast rd AND 0x1F)"

section \<open>The executable buffer\<close>

fun EXEC_BUFFER_SIZE :: "arch \<Rightarrow> nat" where
  "EXEC_BUFFER_SIZE Riscv32 = 1024"
| "EXEC_BUFFER_SIZE Arm = 4096"

record 'w emitter =
  em_buf :: "'w list"
  cap_words :: nat
  len_words :: nat

type_synonym Thumb2Emitter = "u16 emitter"
type_synonym Riscv32Emitter = "u32 emitter"

definition t2_into_exec_buffer :: "u16 list \<Rightarrow> Thumb2Emitter" where
  "t2_into_exec_buffer buf =
     \<lparr>em_buf = buf, cap_words = EXEC_BUFFER_SIZE Arm div 2, len_words = 0\<rparr>"

definition rv_into_exec_buffer :: "u32 list \<Rightarrow> Riscv32Emitter" where
  "rv_into_exec_buffer buf =
     \<lparr>em_buf = buf, cap_words = EXEC_BUFFER_SIZE Riscv32 div 4, len_words = 0\<rparr>"

definition push16 :: "u16 \<Rightarrow> Thumb2Emitter \<Rightarrow> (EmitError + unit) \<times> Thumb2Emitter" where
  "push16 hw e =
     (if cap_words e \<le> len_words e then (Inl Overflow, e)
      else (Inr (), e\<lparr>em_buf := (em_buf e)[len_words e := hw], len_words := len_words e + 1\<rparr>))"

definition push32 :: "u32 \<Rightarrow> Riscv32Emitter \<Rightarrow> (EmitError + unit) \<times> Riscv32Emitter" where
  "push32 word e =
     (if cap_words e \<le> len_words e then (Inl Overflow, e)
      else (Inr (), e\<lparr>em_buf := (em_buf e)[len_words e := word], len_words := len_words e + 1\<rparr>))"

section \<open>The emitter trait\<close>

text \<open>The trait as the record of its methods, over the emitter state \<open>'e\<close>.\<close>

record 'e target_emitter =
  emit_mov_imm :: "u8 \<Rightarrow> u32 \<Rightarrow> 'e \<Rightarrow> (EmitError + unit) \<times> 'e"
  emit_store_u32 :: "u8 \<Rightarrow> u8 \<Rightarrow> 'e \<Rightarrow> (EmitError + unit) \<times> 'e"
  emit_load_u32 :: "u8 \<Rightarrow> u8 \<Rightarrow> 'e \<Rightarrow> (EmitError + unit) \<times> 'e"
  emit_add :: "u8 \<Rightarrow> u8 \<Rightarrow> u8 \<Rightarrow> 'e \<Rightarrow> (EmitError + unit) \<times> 'e"
  emit_sub :: "u8 \<Rightarrow> u8 \<Rightarrow> u8 \<Rightarrow> 'e \<Rightarrow> (EmitError + unit) \<times> 'e"
  emit_mul :: "u8 \<Rightarrow> u8 \<Rightarrow> u8 \<Rightarrow> 'e \<Rightarrow> (EmitError + unit) \<times> 'e"
  emit_div :: "u8 \<Rightarrow> u8 \<Rightarrow> u8 \<Rightarrow> 'e \<Rightarrow> (EmitError + unit) \<times> 'e"
  emit_mov_ret :: "u32 \<Rightarrow> 'e \<Rightarrow> (EmitError + unit) \<times> 'e"
  emit_ret :: "'e \<Rightarrow> (EmitError + unit) \<times> 'e"
  bytes_written :: "'e \<Rightarrow> nat"

subsection \<open>Thumb-2 backend\<close>

definition t2_mov_imm :: "u8 \<Rightarrow> u32 \<Rightarrow> Thumb2Emitter \<Rightarrow> (EmitError + unit) \<times> Thumb2Emitter" where
  "t2_mov_imm reg imm =
     (if 15 < reg then fail_with BadRegister
      else if imm \<le> 0xFF \<and> reg < 8 then
        push16 (0x2000 OR push_bit 8 (ucast reg) OR (ucast imm AND 0xFF))
      else (let (w1, w2) = encode_movw reg imm in
        try_then (push16 w1) (try_then (push16 w2)
          (if drop_bit 16 imm \<noteq> 0 then
             (let (t1, t2) = encode_movt reg imm in
              try_then (push16 t1) (try_then (push16 t2) (ok_with ())))
           else ok_with ()))))"

definition t2_store_u32 :: "u8 \<Rightarrow> u8 \<Rightarrow> Thumb2Emitter \<Rightarrow> (EmitError + unit) \<times> Thumb2Emitter" where
  "t2_store_u32 src_reg addr_reg =
     (case encode_str_imm src_reg addr_reg 0 of Some hw \<Rightarrow> push16 hw | None \<Rightarrow> fail_with BadRegister)"

definition t2_load_u32 :: "u8 \<Rightarrow> u8 \<Rightarrow> Thumb2Emitter \<Rightarrow> (EmitError + unit) \<times> Thumb2Emitter" where
  "t2_load_u32 dst_reg addr_reg =
     (case encode_ldr_imm dst_reg addr_reg 0 of Some hw \<Rightarrow> push16 hw | None \<Rightarrow> fail_with BadRegister)"

definition t2_add :: "u8 \<Rightarrow> u8 \<Rightarrow> u8 \<Rightarrow> Thumb2Emitter \<Rightarrow> (EmitError + unit) \<times> Thumb2Emitter" where
  "t2_add dst a b =
     (if 7 < dst \<or> 7 < a \<or> 7 < b then fail_with BadRegister
      else push16 (0x1800 OR push_bit 6 (ucast b) OR push_bit 3 (ucast a) OR ucast dst))"

definition t2_sub :: "u8 \<Rightarrow> u8 \<Rightarrow> u8 \<Rightarrow> Thumb2Emitter \<Rightarrow> (EmitError + unit) \<times> Thumb2Emitter" where
  "t2_sub dst a b =
     (if 7 < dst \<or> 7 < a \<or> 7 < b then fail_with BadRegister
      else push16 (0x1A00 OR push_bit 6 (ucast b) OR push_bit 3 (ucast a) OR ucast dst))"

definition t2_mul :: "u8 \<Rightarrow> u8 \<Rightarrow> u8 \<Rightarrow> Thumb2Emitter \<Rightarrow> (EmitError + unit) \<times> Thumb2Emitter" where
  "t2_mul dst a b =
     (if 7 < dst \<or> 7 < a \<or> 7 < b then fail_with BadRegister
      else try_then
        (if a \<noteq> dst then push16 (push_bit 3 (ucast a) OR ucast dst) else ok_with ())
        (push16 (0x4340 OR push_bit 3 (ucast b) OR ucast dst)))"

definition t2_div :: "u8 \<Rightarrow> u8 \<Rightarrow> u8 \<Rightarrow> Thumb2Emitter \<Rightarrow> (EmitError + unit) \<times> Thumb2Emitter" where
  "t2_div dst a b =
     (if 15 < dst \<or> 15 < a \<or> 15 < b then fail_with BadRegister
      else (let (hw1, hw2) = encode_sdiv dst a b in try_then (push16 hw1) (push16 hw2)))"

definition t2_ret :: "Thumb2Emitter \<Rightarrow> (EmitError + unit) \<times> Thumb2Emitter" where
  "t2_ret = push16 0x4770"

definition t2_mov_ret :: "u32 \<Rightarrow> Thumb2Emitter \<Rightarrow> (EmitError + unit) \<times> Thumb2Emitter" where
  "t2_mov_ret imm = try_then (t2_mov_imm 0 imm) t2_ret"

definition t2_bytes_written :: "Thumb2Emitter \<Rightarrow> nat" where
  "t2_bytes_written e = len_words e * 2"

definition thumb2 :: "Thumb2Emitter target_emitter" where
  "thumb2 = \<lparr>emit_mov_imm = t2_mov_imm, emit_store_u32 = t2_store_u32, emit_load_u32 = t2_load_u32,
     emit_add = t2_add, emit_sub = t2_sub, emit_mul = t2_mul, emit_div = t2_div,
     emit_mov_ret = t2_mov_ret, emit_ret = t2_ret, bytes_written = t2_bytes_written\<rparr>"

subsection \<open>RV32I backend\<close>

definition rv_mov_imm :: "u8 \<Rightarrow> u32 \<Rightarrow> Riscv32Emitter \<Rightarrow> (EmitError + unit) \<times> Riscv32Emitter" where
  "rv_mov_imm reg imm =
     (let signed_ok = (imm \<le> 0x7FF \<or> 0xFFFFF800 \<le> imm) in
      if signed_ok then push32 (encode_addi reg 0 imm)
      else
        (let hi20 = drop_bit 12 (imm + 0x800);
             lo12 = imm - push_bit 12 hi20
         in try_then (push32 (encode_lui reg hi20))
              (try_then (if lo12 \<noteq> 0 then push32 (encode_addi reg reg lo12) else ok_with ())
                (ok_with ()))))"

definition rv_store_u32 :: "u8 \<Rightarrow> u8 \<Rightarrow> Riscv32Emitter \<Rightarrow> (EmitError + unit) \<times> Riscv32Emitter" where
  "rv_store_u32 src_reg addr_reg =
     (case encode_sw src_reg addr_reg 0 of Some word \<Rightarrow> push32 word | None \<Rightarrow> fail_with BadRegister)"

definition rv_load_u32 :: "u8 \<Rightarrow> u8 \<Rightarrow> Riscv32Emitter \<Rightarrow> (EmitError + unit) \<times> Riscv32Emitter" where
  "rv_load_u32 dst_reg addr_reg =
     (case encode_lw dst_reg addr_reg 0 of Some word \<Rightarrow> push32 word | None \<Rightarrow> fail_with BadRegister)"

definition rv_add :: "u8 \<Rightarrow> u8 \<Rightarrow> u8 \<Rightarrow> Riscv32Emitter \<Rightarrow> (EmitError + unit) \<times> Riscv32Emitter" where
  "rv_add dst a b = push32 (encode_rtype_addsub dst a b False)"

definition rv_sub :: "u8 \<Rightarrow> u8 \<Rightarrow> u8 \<Rightarrow> Riscv32Emitter \<Rightarrow> (EmitError + unit) \<times> Riscv32Emitter" where
  "rv_sub dst a b = push32 (encode_rtype_addsub dst a b True)"

definition rv_mul :: "u8 \<Rightarrow> u8 \<Rightarrow> u8 \<Rightarrow> Riscv32Emitter \<Rightarrow> (EmitError + unit) \<times> Riscv32Emitter" where
  "rv_mul dst a b = push32 (encode_rtype dst a b 0x01 0x00)"

definition rv_div :: "u8 \<Rightarrow> u8 \<Rightarrow> u8 \<Rightarrow> Riscv32Emitter \<Rightarrow> (EmitError + unit) \<times> Riscv32Emitter" where
  "rv_div dst a b = push32 (encode_rtype dst a b 0x01 0x04)"

definition rv_ret :: "Riscv32Emitter \<Rightarrow> (EmitError + unit) \<times> Riscv32Emitter" where
  "rv_ret = push32 RV32_RET"

definition rv_mov_ret :: "u32 \<Rightarrow> Riscv32Emitter \<Rightarrow> (EmitError + unit) \<times> Riscv32Emitter" where
  "rv_mov_ret imm = try_then (rv_mov_imm 10 imm) rv_ret"

definition rv_bytes_written :: "Riscv32Emitter \<Rightarrow> nat" where
  "rv_bytes_written e = len_words e * 4"

definition rv32 :: "Riscv32Emitter target_emitter" where
  "rv32 = \<lparr>emit_mov_imm = rv_mov_imm, emit_store_u32 = rv_store_u32, emit_load_u32 = rv_load_u32,
     emit_add = rv_add, emit_sub = rv_sub, emit_mul = rv_mul, emit_div = rv_div,
     emit_mov_ret = rv_mov_ret, emit_ret = rv_ret, bytes_written = rv_bytes_written\<rparr>"

end
