(* ===== verification/Isa.thy ===== *)
theory Isa
  imports Emitter Bus
begin

text \<open>
  Reference semantics of the machine instructions that the emitters may produce, from the
  ARMv7-M and RV32IM manuals that the emitter cites: decoding into fields and execution over
  a register file and the bus. This is the specification against which the encoders and the
  native compiler are proved, not a model of source code. Any other encoding is \<open>None\<close>.
\<close>

type_synonym regs = "nat \<Rightarrow> u32"

text \<open>Truncating signed division, as both architectures divide.\<close>

definition trunc_div :: "int \<Rightarrow> int \<Rightarrow> int" where
  "trunc_div a b = sgn a * sgn b * (\<bar>a\<bar> div \<bar>b\<bar>)"

section \<open>Thumb-2\<close>

datatype tinstr =
    T_MOVS_imm nat u32
  | T_MOVS_reg nat nat
  | T_MOVW nat u32
  | T_MOVT nat u32
  | T_STR nat nat u32
  | T_LDR nat nat u32
  | T_ADDS nat nat nat
  | T_SUBS nat nat nat
  | T_MULS nat nat
  | T_SDIV nat nat nat
  | T_BX nat

text \<open>Bits \<open>k\<close> to \<open>k + n - 1\<close> of an encoding as a register number.\<close>

definition fld :: "nat \<Rightarrow> nat \<Rightarrow> 'a::len word \<Rightarrow> nat" where
  "fld k n w = unat (take_bit n (drop_bit k w))"

definition imm16_of :: "u16 \<Rightarrow> u16 \<Rightarrow> u32" where
  "imm16_of hw1 hw2 =
     push_bit 12 (ucast (take_bit 4 hw1)) OR push_bit 11 (ucast (take_bit 1 (drop_bit 10 hw1)))
     OR push_bit 8 (ucast (take_bit 3 (drop_bit 12 hw2))) OR ucast (take_bit 8 hw2)"

definition t_decode16 :: "u16 \<Rightarrow> tinstr option" where
  "t_decode16 w =
     (if w AND 0xF800 = 0x2000 then Some (T_MOVS_imm (fld 8 3 w) (ucast (take_bit 8 w)))
      else if w AND 0xF800 = 0x6000 then
        Some (T_STR (fld 0 3 w) (fld 3 3 w) (push_bit 2 (ucast (take_bit 5 (drop_bit 6 w)))))
      else if w AND 0xF800 = 0x6800 then
        Some (T_LDR (fld 0 3 w) (fld 3 3 w) (push_bit 2 (ucast (take_bit 5 (drop_bit 6 w)))))
      else if w AND 0xFE00 = 0x1800 then Some (T_ADDS (fld 0 3 w) (fld 3 3 w) (fld 6 3 w))
      else if w AND 0xFE00 = 0x1A00 then Some (T_SUBS (fld 0 3 w) (fld 3 3 w) (fld 6 3 w))
      else if w AND 0xFFC0 = 0x4340 then Some (T_MULS (fld 0 3 w) (fld 3 3 w))
      else if w AND 0xFFC0 = 0x0000 then Some (T_MOVS_reg (fld 0 3 w) (fld 3 3 w))
      else if w AND 0xFF87 = 0x4700 then Some (T_BX (fld 3 4 w))
      else None)"

definition t_decode32 :: "u16 \<Rightarrow> u16 \<Rightarrow> tinstr option" where
  "t_decode32 w1 w2 =
     (if w1 AND 0xFBF0 = 0xF240 \<and> w2 AND 0x8000 = 0 then Some (T_MOVW (fld 8 4 w2) (imm16_of w1 w2))
      else if w1 AND 0xFBF0 = 0xF2C0 \<and> w2 AND 0x8000 = 0 then Some (T_MOVT (fld 8 4 w2) (imm16_of w1 w2))
      else if w1 AND 0xFFF0 = 0xFB90 \<and> w2 AND 0xF0F0 = 0xF0F0 then
        Some (T_SDIV (fld 8 4 w2) (fld 0 4 w1) (fld 0 4 w2))
      else None)"

text \<open>A halfword whose top five bits are 11101, 11110 or 11111 starts a 32-bit instruction.\<close>

definition is_wide :: "u16 \<Rightarrow> bool" where
  "is_wide w \<longleftrightarrow> w AND 0xF800 = 0xE800 \<or> w AND 0xF800 = 0xF000 \<or> w AND 0xF800 = 0xF800"

fun t_fetch :: "u16 list \<Rightarrow> (tinstr \<times> u16 list) option" where
  "t_fetch [] = None"
| "t_fetch (w # ws) =
     (if is_wide w then
        (case ws of [] \<Rightarrow> None
         | w2 # ws' \<Rightarrow> (case t_decode32 w w2 of None \<Rightarrow> None | Some i \<Rightarrow> Some (i, ws')))
      else (case t_decode16 w of None \<Rightarrow> None | Some i \<Rightarrow> Some (i, ws)))"

lemma t_fetch_shrinks: "t_fetch ws = Some (i, ws') \<Longrightarrow> length ws' < length ws"
  by (cases ws) (auto split: if_splits list.splits option.splits)

fun t_exec :: "'h bus \<Rightarrow> tinstr \<Rightarrow> regs \<times> 'h \<Rightarrow> regs \<times> 'h" where
  "t_exec B (T_MOVS_imm d v) (r, h) = (r(d := v), h)"
| "t_exec B (T_MOVS_reg d m) (r, h) = (r(d := r m), h)"
| "t_exec B (T_MOVW d v) (r, h) = (r(d := v), h)"
| "t_exec B (T_MOVT d v) (r, h) = (r(d := push_bit 16 v OR take_bit 16 (r d)), h)"
| "t_exec B (T_STR t n off) (r, h) = (r, wr B (r n + off) (r t) h)"
| "t_exec B (T_LDR t n off) (r, h) = (r(t := fst (rd B (r n + off) h)), snd (rd B (r n + off) h))"
| "t_exec B (T_ADDS d n m) (r, h) = (r(d := r n + r m), h)"
| "t_exec B (T_SUBS d n m) (r, h) = (r(d := r n - r m), h)"
| "t_exec B (T_MULS d n) (r, h) = (r(d := r n * r d), h)"
| "t_exec B (T_SDIV d n m) (r, h) =
     (r(d := if r m = 0 then 0 else word_of_int (trunc_div (sint (r n)) (sint (r m)))), h)"
| "t_exec B (T_BX m) (r, h) = (r, h)"

text \<open>Run straight-line code up to the return through the link register (r14); running off
  the end or into another encoding is \<open>None\<close>.\<close>

function t_run :: "'h bus \<Rightarrow> u16 list \<Rightarrow> regs \<times> 'h \<Rightarrow> (regs \<times> 'h) option" where
  "t_run B ws c =
     (case t_fetch ws of
       None \<Rightarrow> None
     | Some (i, ws') \<Rightarrow>
         (case i of T_BX m \<Rightarrow> (if m = 14 then Some c else None)
          | _ \<Rightarrow> t_run B ws' (t_exec B i c)))"
  by pat_completeness auto
termination
  by (relation "measure (\<lambda>(B, ws, c). length ws)") (auto dest: t_fetch_shrinks)

section \<open>RV32IM\<close>

datatype rinstr =
    R_LUI nat u32
  | R_ADDI nat nat u32
  | R_SW nat nat u32
  | R_LW nat nat u32
  | R_ADD nat nat nat
  | R_SUB nat nat nat
  | R_MUL nat nat nat
  | R_DIV nat nat nat
  | R_JALR nat nat u32

text \<open>Sign extension of a 12-bit field.\<close>

definition sext12 :: "u32 \<Rightarrow> u32" where
  "sext12 v = (if bit v 11 then take_bit 12 v OR 0xFFFFF000 else take_bit 12 v)"

definition r_decode :: "u32 \<Rightarrow> rinstr option" where
  "r_decode w =
     (let op = take_bit 7 w; f3 = take_bit 3 (drop_bit 12 w); f7 = drop_bit 25 w;
          rd = fld 7 5 w; rs1 = fld 15 5 w; rs2 = fld 20 5 w; imm_i = sext12 (drop_bit 20 w)
      in if op = 0x37 then Some (R_LUI rd (w AND 0xFFFFF000))
      else if op = 0x13 \<and> f3 = 0 then Some (R_ADDI rd rs1 imm_i)
      else if op = 0x23 \<and> f3 = 2 then
        Some (R_SW rs2 rs1 (sext12 (push_bit 5 (drop_bit 25 w) OR take_bit 5 (drop_bit 7 w))))
      else if op = 0x03 \<and> f3 = 2 then Some (R_LW rd rs1 imm_i)
      else if op = 0x33 \<and> f3 = 0 \<and> f7 = 0 then Some (R_ADD rd rs1 rs2)
      else if op = 0x33 \<and> f3 = 0 \<and> f7 = 0x20 then Some (R_SUB rd rs1 rs2)
      else if op = 0x33 \<and> f3 = 0 \<and> f7 = 1 then Some (R_MUL rd rs1 rs2)
      else if op = 0x33 \<and> f3 = 4 \<and> f7 = 1 then Some (R_DIV rd rs1 rs2)
      else if op = 0x67 \<and> f3 = 0 then Some (R_JALR rd rs1 imm_i)
      else None)"

text \<open>Register x0 reads as zero and ignores writes.\<close>

definition rget :: "regs \<Rightarrow> nat \<Rightarrow> u32" where "rget r n = (if n = 0 then 0 else r n)"

fun r_exec :: "'h bus \<Rightarrow> rinstr \<Rightarrow> regs \<times> 'h \<Rightarrow> regs \<times> 'h" where
  "r_exec B (R_LUI d v) (r, h) = (r(d := v), h)"
| "r_exec B (R_ADDI d n v) (r, h) = (r(d := rget r n + v), h)"
| "r_exec B (R_SW s n v) (r, h) = (r, wr B (rget r n + v) (rget r s) h)"
| "r_exec B (R_LW d n v) (r, h) =
     (r(d := fst (rd B (rget r n + v) h)), snd (rd B (rget r n + v) h))"
| "r_exec B (R_ADD d n m) (r, h) = (r(d := rget r n + rget r m), h)"
| "r_exec B (R_SUB d n m) (r, h) = (r(d := rget r n - rget r m), h)"
| "r_exec B (R_MUL d n m) (r, h) = (r(d := rget r n * rget r m), h)"
| "r_exec B (R_DIV d n m) (r, h) =
     (r(d := if rget r m = 0 then 0xFFFFFFFF
             else word_of_int (trunc_div (sint (rget r n)) (sint (rget r m)))), h)"
| "r_exec B (R_JALR d n v) c = c"

text \<open>Run straight-line code up to the return \<open>jalr x0, 0(ra)\<close>.\<close>

fun r_run :: "'h bus \<Rightarrow> u32 list \<Rightarrow> regs \<times> 'h \<Rightarrow> (regs \<times> 'h) option" where
  "r_run B [] c = None"
| "r_run B (w # ws) c =
     (case r_decode w of
       None \<Rightarrow> None
     | Some i \<Rightarrow>
         (case i of R_JALR d n v \<Rightarrow> (if d = 0 \<and> n = 1 \<and> v = 0 then Some c else None)
          | _ \<Rightarrow> r_run B ws (r_exec B i c)))"

declare t_run.simps [simp del] r_run.simps [simp del] t_fetch.simps [simp del]

section \<open>Bit-by-bit equality\<close>

lemma less_16_enum:
  "(\<forall>n < 16. P n) \<longleftrightarrow> P 0 \<and> P 1 \<and> P 2 \<and> P 3 \<and> P 4 \<and> P 5 \<and> P 6 \<and> P 7 \<and> P 8 \<and> P 9 \<and> P 10
     \<and> P 11 \<and> P 12 \<and> P 13 \<and> P 14 \<and> P (15::nat)"
  by (simp add: All_less_Suc numeral_eq_Suc conj_ac)

lemma less_32_enum:
  "(\<forall>n < 32. P n) \<longleftrightarrow> P 0 \<and> P 1 \<and> P 2 \<and> P 3 \<and> P 4 \<and> P 5 \<and> P 6 \<and> P 7 \<and> P 8 \<and> P 9 \<and> P 10
     \<and> P 11 \<and> P 12 \<and> P 13 \<and> P 14 \<and> P 15 \<and> P 16 \<and> P 17 \<and> P 18 \<and> P 19 \<and> P 20 \<and> P 21 \<and> P 22
     \<and> P 23 \<and> P 24 \<and> P 25 \<and> P 26 \<and> P 27 \<and> P 28 \<and> P 29 \<and> P 30 \<and> P (31::nat)"
  by (simp add: All_less_Suc numeral_eq_Suc conj_ac)

lemma u16_eq_iff: "(a :: u16) = b \<longleftrightarrow> (\<forall>n < 16. bit a n = bit b n)"
  by (auto intro!: bit_word_eqI)

lemma u32_eq_iff: "(a :: u32) = b \<longleftrightarrow> (\<forall>n < 32. bit a n = bit b n)"
  by (auto intro!: bit_word_eqI)

lemmas u16_bits = u16_eq_iff less_16_enum
lemmas u32_bits = u32_eq_iff less_32_enum


end
