(* ===== verification/Encoding.thy ===== *)
theory Encoding
  imports Isa
begin

text \<open>
  The encoders against the reference decoders: every instruction that the emitters can
  produce is decoded and executed symbolically. Word equations are proved bit by bit.
\<close>

section \<open>Bits of small register numbers\<close>

lemma bit_u8_high [simp]: "8 \<le> n \<Longrightarrow> \<not> bit (r :: u8) n"
  using bit_imp_le_length [of r n] by auto

lemma bit_u16_high [simp]: "16 \<le> n \<Longrightarrow> \<not> bit (r :: u16) n"
  using bit_imp_le_length [of r n] by auto

lemma bit_u32_high [simp]: "32 \<le> n \<Longrightarrow> \<not> bit (r :: u32) n"
  using bit_imp_le_length [of r n] by auto

lemma take_bit_small:
  fixes r :: "'a::len word"
  assumes "unat r < 2 ^ k"
  shows "take_bit k r = r"
  by (rule word_unat_eq_iff [THEN iffD2]) (simp add: unsigned_take_bit_eq take_bit_nat_eq_self assms)

lemma small_bit:
  fixes r :: "'a::len word"
  assumes "unat r < 2 ^ k" and "k \<le> n"
  shows "\<not> bit r n"
  using take_bit_small [OF assms(1)] assms(2) by (metis bit_take_bit_iff not_less)

text \<open>A register of three bits (Thumb-1 style), four bits (Thumb-2) and five bits (RISC-V).\<close>

lemma reg3_bits:
  "(r :: u8) \<le> 7 \<Longrightarrow> \<not> bit r 3 \<and> \<not> bit r 4 \<and> \<not> bit r 5 \<and> \<not> bit r 6 \<and> \<not> bit r 7"
  using small_bit [of r 3] by (simp add: word_le_nat_alt)

lemma reg4_bits: "(r :: u8) \<le> 15 \<Longrightarrow> \<not> bit r 4 \<and> \<not> bit r 5 \<and> \<not> bit r 6 \<and> \<not> bit r 7"
  using small_bit [of r 4] by (simp add: word_le_nat_alt)

lemma reg5_bits: "(r :: u8) \<le> 31 \<Longrightarrow> \<not> bit r 5 \<and> \<not> bit r 6 \<and> \<not> bit r 7"
  using small_bit [of r 5] by (simp add: word_le_nat_alt)

lemma imm8_bits: "(v :: u32) \<le> 0xFF \<Longrightarrow> 8 \<le> n \<Longrightarrow> \<not> bit v n"
  using small_bit [of v 8 n] by (simp add: word_le_nat_alt)

text \<open>A field that holds a register number reads as that number.\<close>

lemma unat_ucast_8 [simp]:
  "unat (ucast (r :: u8) :: u16) = unat r" "unat (ucast (r :: u8) :: u32) = unat r"
proof -
  have "unat r < 2 ^ LENGTH(8)" by (rule unsigned_less)
  then show "unat (ucast r :: u16) = unat r" "unat (ucast r :: u32) = unat r"
    by (simp_all add: unsigned_ucast_eq take_bit_nat_eq_self)
qed

lemma fld_u16: "take_bit n (drop_bit k w) = (ucast (r :: u8) :: u16) \<Longrightarrow> fld k n w = unat r"
  by (simp add: fld_def)

lemma fld_u32: "take_bit n (drop_bit k w) = (ucast (r :: u8) :: u32) \<Longrightarrow> fld k n w = unat r"
  by (simp add: fld_def)

section \<open>Thumb-2 encodings\<close>

lemma fetch_narrow: "\<not> is_wide w \<Longrightarrow> t_decode16 w = Some i \<Longrightarrow> t_fetch (w # ws) = Some (i, ws)"
  by (simp add: t_fetch.simps)

lemma fetch_wide: "is_wide w \<Longrightarrow> t_decode32 w w2 = Some i \<Longrightarrow> t_fetch (w # w2 # ws) = Some (i, ws)"
  by (simp add: t_fetch.simps)

lemma fetch_movs_imm:
  fixes r :: u8 and imm :: u32
  assumes "r \<le> 7" and "imm \<le> 0xFF"
  shows "t_fetch ((0x2000 OR push_bit 8 (ucast r) OR (ucast imm AND 0xFF)) # ws)
    = Some (T_MOVS_imm (unat r) imm, ws)" (is "t_fetch (?w # ws) = _")
proof (rule fetch_narrow)
  note bits = reg3_bits [OF assms(1)] imm8_bits [OF assms(2)]
  have op: "?w AND 0xF800 = 0x2000" using bits by (simp add: u16_bits bit_simps)
  then show "\<not> is_wide ?w" by (simp add: is_wide_def)
  have "take_bit 3 (drop_bit 8 ?w) = ucast r" using bits by (simp add: u16_bits bit_simps)
  moreover have "ucast (take_bit 8 ?w) = imm" using bits by (simp add: u32_bits bit_simps)
  ultimately show "t_decode16 ?w = Some (T_MOVS_imm (unat r) imm)"
    using op by (simp add: t_decode16_def fld_u16)
qed


lemma imm16_of_mov:
  "imm16_of (fst (encode_movw r imm)) (snd (encode_movw r imm)) = take_bit 16 imm"
  "imm16_of (fst (encode_movt r imm)) (snd (encode_movt r imm)) = drop_bit 16 imm"
  by (simp_all add: imm16_of_def encode_movw_def encode_movt_def u32_bits bit_simps even_drop_bit_iff_not_bit)

lemma fetch_movw:
  assumes "r \<le> 15"
  shows "t_fetch (fst (encode_movw r imm) # snd (encode_movw r imm) # ws)
    = Some (T_MOVW (unat r) (take_bit 16 imm), ws)" (is "t_fetch (?a # ?b # ws) = _")
proof (rule fetch_wide)
  note bits = reg4_bits [OF assms]
  have op: "?a AND 0xFBF0 = 0xF240" "?b AND 0x8000 = 0" "?a AND 0xF800 = 0xF000"
    by (simp_all add: encode_movw_def u16_bits bit_simps)
  then show "is_wide ?a" by (simp add: is_wide_def)
  have "take_bit 4 (drop_bit 8 ?b) = ucast r"
    using bits by (simp add: encode_movw_def u16_bits bit_simps)
  then show "t_decode32 ?a ?b = Some (T_MOVW (unat r) (take_bit 16 imm))"
    using op by (simp add: t_decode32_def fld_u16 imm16_of_mov)
qed

lemma fetch_movt:
  assumes "r \<le> 15"
  shows "t_fetch (fst (encode_movt r imm) # snd (encode_movt r imm) # ws)
    = Some (T_MOVT (unat r) (drop_bit 16 imm), ws)" (is "t_fetch (?a # ?b # ws) = _")
proof (rule fetch_wide)
  note bits = reg4_bits [OF assms]
  have op: "?a AND 0xFBF0 = 0xF2C0" "?b AND 0x8000 = 0" "?a AND 0xF800 = 0xF000"
    by (simp_all add: encode_movt_def u16_bits bit_simps)
  then show "is_wide ?a" by (simp add: is_wide_def)
  have "take_bit 4 (drop_bit 8 ?b) = ucast r"
    using bits by (simp add: encode_movt_def u16_bits bit_simps)
  then show "t_decode32 ?a ?b = Some (T_MOVT (unat r) (drop_bit 16 imm))"
    using op by (simp add: t_decode32_def fld_u16 imm16_of_mov)
qed

lemma mult4_bits:
  fixes off :: u32
  assumes "off \<le> 124" and "off mod 4 = 0"
  shows "push_bit 2 (off div 4) = off" "unat (off div 4) < 2 ^ 5"
proof -
  have "unat (off mod 4) = unat off mod unat (4 :: u32)" by (rule unat_mod)
  then have o: "unat off \<le> 124" "unat off mod 4 = 0"
    using assms by (simp_all add: word_le_nat_alt)
  show "unat (off div 4) < 2 ^ 5"
    using o by (simp add: unat_div)
  moreover have "unat off div 4 * 4 = unat off" "unat off div 4 < 32" using o by presburger+
  ultimately show "push_bit 2 (off div 4) = off"
    by (intro u32_eqI_unat) (simp add: push_bit_eq_mult unat_word_ariths unat_div)
qed

lemma str_ldr_fields:
  fixes rt rn :: u8 and off :: u32
  assumes "rt \<le> 7" "rn \<le> 7" "off \<le> 124" "off mod 4 = 0" and "base = 0x6000 \<or> base = 0x6800"
    and "w = base OR push_bit 6 (ucast (off div 4)) OR push_bit 3 (ucast rn) OR ucast rt"
  shows "w AND 0xF800 = base" "fld 0 3 w = unat rt" "fld 3 3 w = unat rn"
    "push_bit 2 (ucast (take_bit 5 (drop_bit 6 w))) = off" "\<not> is_wide w"
proof -
  note bits = reg3_bits [OF assms(1)] reg3_bits [OF assms(2)]
  have q: "5 \<le> n \<Longrightarrow> \<not> bit (off div 4) n" for n
    using small_bit [OF mult4_bits(2) [OF assms(3,4)]] by blast
  show op: "w AND 0xF800 = base"
    using assms(5) bits q unfolding assms(6) by (elim disjE) (simp_all add: u16_bits bit_simps)
  then show "\<not> is_wide w" using assms(5) by (auto simp: is_wide_def)
  show "fld 0 3 w = unat rt"
    using assms(5) bits q unfolding assms(6) by (intro fld_u16, elim disjE) (simp_all add: u16_bits bit_simps)
  show "fld 3 3 w = unat rn"
    using assms(5) bits q unfolding assms(6) by (intro fld_u16, elim disjE) (simp_all add: u16_bits bit_simps)
  have "ucast (take_bit 5 (drop_bit 6 w)) = off div 4"
    using assms(5) bits q unfolding assms(6) by (elim disjE) (simp_all add: u32_bits bit_simps)
  then show "push_bit 2 (ucast (take_bit 5 (drop_bit 6 w))) = off"
    using mult4_bits(1) [OF assms(3,4)] by simp
qed

lemma fetch_str:
  assumes "encode_str_imm rt rn off = Some w"
  shows "t_fetch (w # ws) = Some (T_STR (unat rt) (unat rn) off, ws)"
proof -
  have "rt \<le> 7" "rn \<le> 7" "off \<le> 124" "off mod 4 = 0"
    and w: "w = 0x6000 OR push_bit 6 (ucast (off div 4)) OR push_bit 3 (ucast rn) OR ucast rt"
    using assms by (auto simp: encode_str_imm_def not_less split: if_splits)
  from str_ldr_fields [OF this(1-4) _ w] show ?thesis
    by (intro fetch_narrow) (simp_all add: t_decode16_def)
qed

lemma fetch_ldr:
  assumes "encode_ldr_imm rt rn off = Some w"
  shows "t_fetch (w # ws) = Some (T_LDR (unat rt) (unat rn) off, ws)"
proof -
  have "rt \<le> 7" "rn \<le> 7" "off \<le> 124" "off mod 4 = 0"
    and w: "w = 0x6800 OR push_bit 6 (ucast (off div 4)) OR push_bit 3 (ucast rn) OR ucast rt"
    using assms by (auto simp: encode_ldr_imm_def not_less split: if_splits)
  from str_ldr_fields [OF this(1-4) _ w] show ?thesis
    by (intro fetch_narrow) (simp_all add: t_decode16_def)
qed

text \<open>Three-operand additions and subtractions on low registers.\<close>

lemma addsub_fields:
  fixes d a b :: u8 and base :: u16
  assumes "d \<le> 7" "a \<le> 7" "b \<le> 7" and "base = 0x1800 \<or> base = 0x1A00"
    and "w = base OR push_bit 6 (ucast b) OR push_bit 3 (ucast a) OR ucast d"
  shows "w AND 0xFE00 = base" "w AND 0xF800 = 0x1800"
    "fld 0 3 w = unat d" "fld 3 3 w = unat a" "fld 6 3 w = unat b"
proof -
  note bits = reg3_bits [OF assms(1)] reg3_bits [OF assms(2)] reg3_bits [OF assms(3)]
  show "w AND 0xFE00 = base"
    using assms(4) bits unfolding assms(5) by (elim disjE) (simp_all add: u16_bits bit_simps)
  show "w AND 0xF800 = 0x1800"
    using assms(4) bits unfolding assms(5) by (elim disjE) (simp_all add: u16_bits bit_simps)
  show "fld 0 3 w = unat d"
    using assms(4) bits unfolding assms(5) by (intro fld_u16, elim disjE) (simp_all add: u16_bits bit_simps)
  show "fld 3 3 w = unat a"
    using assms(4) bits unfolding assms(5) by (intro fld_u16, elim disjE) (simp_all add: u16_bits bit_simps)
  show "fld 6 3 w = unat b"
    using assms(4) bits unfolding assms(5) by (intro fld_u16, elim disjE) (simp_all add: u16_bits bit_simps)
qed

lemma fetch_adds:
  fixes d a b :: u8
  assumes "d \<le> 7" "a \<le> 7" "b \<le> 7"
  shows "t_fetch ((0x1800 OR push_bit 6 (ucast b) OR push_bit 3 (ucast a) OR ucast d) # ws)
    = Some (T_ADDS (unat d) (unat a) (unat b), ws)"
  by (rule fetch_narrow) (simp_all add: is_wide_def t_decode16_def addsub_fields [OF assms _ refl])

lemma fetch_subs:
  fixes d a b :: u8
  assumes "d \<le> 7" "a \<le> 7" "b \<le> 7"
  shows "t_fetch ((0x1A00 OR push_bit 6 (ucast b) OR push_bit 3 (ucast a) OR ucast d) # ws)
    = Some (T_SUBS (unat d) (unat a) (unat b), ws)"
  by (rule fetch_narrow) (simp_all add: is_wide_def t_decode16_def addsub_fields [OF assms _ refl])

lemma fetch_muls:
  fixes d b :: u8
  assumes "d \<le> 7" "b \<le> 7"
  shows "t_fetch ((0x4340 OR push_bit 3 (ucast b) OR ucast d) # ws) = Some (T_MULS (unat d) (unat b), ws)"
    (is "t_fetch (?w # ws) = _")
proof (rule fetch_narrow)
  note bits = reg3_bits [OF assms(1)] reg3_bits [OF assms(2)]
  have op: "?w AND 0xF800 = 0x4000" "?w AND 0xFE00 = 0x4200" "?w AND 0xFFC0 = 0x4340"
    "fld 0 3 ?w = unat d" "fld 3 3 ?w = unat b"
    using bits by (simp_all add: u16_bits bit_simps fld_u16)
  show "\<not> is_wide ?w" "t_decode16 ?w = Some (T_MULS (unat d) (unat b))"
    by (simp_all only: is_wide_def t_decode16_def op) simp_all
qed

lemma fetch_movs_reg:
  fixes d a :: u8
  assumes "d \<le> 7" "a \<le> 7"
  shows "t_fetch ((push_bit 3 (ucast a) OR ucast d) # ws) = Some (T_MOVS_reg (unat d) (unat a), ws)"
    (is "t_fetch (?w # ws) = _")
proof (rule fetch_narrow)
  note bits = reg3_bits [OF assms(1)] reg3_bits [OF assms(2)]
  have op: "?w AND 0xF800 = 0" "?w AND 0xFE00 = 0" "?w AND 0xFFC0 = 0"
    "fld 0 3 ?w = unat d" "fld 3 3 ?w = unat a"
    using bits by (simp_all add: u16_bits bit_simps fld_u16)
  show "\<not> is_wide ?w" "t_decode16 ?w = Some (T_MOVS_reg (unat d) (unat a))"
    by (simp_all only: is_wide_def t_decode16_def op) simp_all
qed

lemma fetch_bx_lr: "t_fetch (0x4770 # ws) = Some (T_BX 14, ws)"
  by (rule fetch_narrow; code_simp)

text \<open>The two halfwords of \<open>encode_sdiv\<close> have bits 7 to 4 of the second one equal to 0001,
  where SDIV has 1111: no register choice makes them an SDIV.\<close>

lemma sdiv_not_fetched:
  assumes "d \<le> 15" "a \<le> 15" "b \<le> 15"
  shows "t_fetch (fst (encode_sdiv d a b) # snd (encode_sdiv d a b) # ws) = None"
proof -
  note bits = reg4_bits [OF assms(1)] reg4_bits [OF assms(2)] reg4_bits [OF assms(3)]
  have "fst (encode_sdiv d a b) AND 0xF800 = 0xF800" "fst (encode_sdiv d a b) AND 0xFBF0 = 0xFB90"
    "snd (encode_sdiv d a b) AND 0xF0F0 = 0xF010"
    using bits by (simp_all add: encode_sdiv_def u16_bits bit_simps)
  then show ?thesis by (simp add: t_fetch.simps is_wide_def t_decode32_def)
qed

end
