(* ===== verification/EncodingRv.thy ===== *)
theory EncodingRv
  imports Encoding
begin

text \<open>
  The RV32 encoders (src/compiler/emitter.rs) against the reference decoder: register fields,
  sign-extended immediates, and the field position of the upper immediate.
\<close>

section \<open>Sign-extended immediates\<close>

lemma sext12_mask [simp]: "sext12 (v AND 0xFFF) = sext12 v"
  by (simp add: sext12_def u32_bits bit_simps)

lemma sext12_fixed:
  assumes "v \<le> 0x7FF \<or> 0xFFFFF800 \<le> v"
  shows "sext12 v = v"
proof (cases "v \<le> 0x7FF")
  case True
  then have "11 \<le> n \<Longrightarrow> \<not> bit v n" for n
    using small_bit [of v 11 n] by (simp add: word_le_nat_alt)
  then show ?thesis by (simp add: sext12_def u32_bits bit_simps)
next
  case False
  then have "0xFFFFF800 \<le> v" using assms by simp
  moreover have "unat v < 4294967296" by (rule unat_u32_less)
  moreover have "(4294965248::nat) \<le> k \<Longrightarrow> k < 4294967296 \<Longrightarrow> k div 2048 = 2097151" for k
    by (intro div_nat_eqI) simp_all
  ultimately have "unat v div 2048 = 2097151" by (simp add: word_le_nat_alt)
  then have "drop_bit 11 v = 0x1FFFFF"
    by (intro u32_eqI_unat) (simp add: drop_bit_eq_div unat_div)
  then show ?thesis by (simp add: sext12_def u32_bits bit_simps)
qed

section \<open>Decoding\<close>

lemma decode_addi:
  assumes "d \<le> 31" "a \<le> 31"
  shows "r_decode (encode_addi d a imm) = Some (R_ADDI (unat d) (unat a) (sext12 imm))"
proof -
  let ?w = "encode_addi d a imm"
  note bits = reg5_bits [OF assms(1)] reg5_bits [OF assms(2)]
  have "take_bit 7 ?w = 0x13" "take_bit 3 (drop_bit 12 ?w) = 0" "drop_bit 20 ?w = imm AND 0xFFF"
    "fld 7 5 ?w = unat d" "fld 15 5 ?w = unat a"
    using bits by (simp_all add: encode_addi_def u32_bits bit_simps fld_u32)
  then show ?thesis by (simp add: r_decode_def Let_def)
qed

lemma decode_lui:
  assumes "d \<le> 31"
  shows "r_decode (encode_lui d imm) = Some (R_LUI (unat d) (push_bit 20 imm))"
proof -
  let ?w = "encode_lui d imm"
  have "take_bit 7 ?w = 0x37" "?w AND 0xFFFFF000 = push_bit 20 imm" "fld 7 5 ?w = unat d"
    using reg5_bits [OF assms] by (simp_all add: encode_lui_def u32_bits bit_simps fld_u32)
  then show ?thesis by (simp add: r_decode_def Let_def)
qed

lemma decode_sw:
  assumes "encode_sw s b off = Some w" and "s \<le> 31" "b \<le> 31"
  shows "r_decode w = Some (R_SW (unat s) (unat b) (sext12 off))"
proof -
  note bits = reg5_bits [OF assms(2)] reg5_bits [OF assms(3)]
  have w: "w = 0x23 OR push_bit 12 2 OR push_bit 25 (drop_bit 5 (off AND 0xFFF))
      OR push_bit 20 (ucast s AND 0x1F) OR push_bit 15 (ucast b AND 0x1F)
      OR push_bit 7 ((off AND 0xFFF) AND 0x1F)"
    using assms(1) by (simp add: encode_sw_def Let_def split: if_splits)
  have "take_bit 7 w = 0x23" "take_bit 3 (drop_bit 12 w) = 2"
    "push_bit 5 (drop_bit 25 w) OR take_bit 5 (drop_bit 7 w) = off AND 0xFFF"
    "fld 20 5 w = unat s" "fld 15 5 w = unat b"
    using bits unfolding w by (simp_all add: u32_bits bit_simps fld_u32)
  then show ?thesis by (simp add: r_decode_def Let_def)
qed

lemma decode_lw:
  assumes "encode_lw d b off = Some w" and "d \<le> 31" "b \<le> 31"
  shows "r_decode w = Some (R_LW (unat d) (unat b) (sext12 off))"
proof -
  note bits = reg5_bits [OF assms(2)] reg5_bits [OF assms(3)]
  have w: "w = 0x03 OR push_bit 12 2 OR push_bit 7 (ucast d AND 0x1F)
      OR push_bit 15 (ucast b AND 0x1F) OR push_bit 20 (off AND 0xFFF)"
    using assms(1) by (simp add: encode_lw_def split: if_splits)
  have "take_bit 7 w = 0x03" "take_bit 3 (drop_bit 12 w) = 2" "drop_bit 20 w = off AND 0xFFF"
    "fld 7 5 w = unat d" "fld 15 5 w = unat b"
    using bits unfolding w by (simp_all add: u32_bits bit_simps fld_u32)
  then show ?thesis by (simp add: r_decode_def Let_def)
qed

lemma rtype_fields:
  assumes "d \<le> 31" "a \<le> 31" "b \<le> 31" and "f7 = 0 \<or> f7 = 0x20 \<or> f7 = 1" and "f3 = 0 \<or> f3 = 4"
  shows "take_bit 7 (encode_rtype d a b f7 f3) = 0x33"
    "take_bit 3 (drop_bit 12 (encode_rtype d a b f7 f3)) = f3"
    "drop_bit 25 (encode_rtype d a b f7 f3) = f7"
    "fld 7 5 (encode_rtype d a b f7 f3) = unat d" "fld 15 5 (encode_rtype d a b f7 f3) = unat a"
    "fld 20 5 (encode_rtype d a b f7 f3) = unat b"
proof -
  note bits = reg5_bits [OF assms(1)] reg5_bits [OF assms(2)] reg5_bits [OF assms(3)]
  have f7: "7 \<le> n \<Longrightarrow> \<not> bit f7 n" and f3: "3 \<le> n \<Longrightarrow> \<not> bit f3 n" for n
    using assms(4,5) small_bit [of f7 7 n] small_bit [of f3 3 n] by auto
  note facts = bits f7 f3
  show "take_bit 7 (encode_rtype d a b f7 f3) = 0x33"
    using facts by (simp add: encode_rtype_def u32_bits bit_simps)
  show "take_bit 3 (drop_bit 12 (encode_rtype d a b f7 f3)) = f3"
    using facts by (simp add: encode_rtype_def u32_bits bit_simps)
  show "drop_bit 25 (encode_rtype d a b f7 f3) = f7"
    using facts by (simp add: encode_rtype_def u32_bits bit_simps)
  show "fld 7 5 (encode_rtype d a b f7 f3) = unat d"
    using facts by (intro fld_u32) (simp add: encode_rtype_def u32_bits bit_simps)
  show "fld 15 5 (encode_rtype d a b f7 f3) = unat a"
    using facts by (intro fld_u32) (simp add: encode_rtype_def u32_bits bit_simps)
  show "fld 20 5 (encode_rtype d a b f7 f3) = unat b"
    using facts by (intro fld_u32) (simp add: encode_rtype_def u32_bits bit_simps)
qed

lemma addsub_rtype: "encode_rtype_addsub d a b s = encode_rtype d a b (if s then 0x20 else 0) 0"
  by (simp add: encode_rtype_addsub_def encode_rtype_def Let_def)

lemma decode_rtype:
  assumes "d \<le> 31" "a \<le> 31" "b \<le> 31"
  shows "r_decode (encode_rtype_addsub d a b False) = Some (R_ADD (unat d) (unat a) (unat b))"
    "r_decode (encode_rtype_addsub d a b True) = Some (R_SUB (unat d) (unat a) (unat b))"
    "r_decode (encode_rtype d a b 1 0) = Some (R_MUL (unat d) (unat a) (unat b))"
    "r_decode (encode_rtype d a b 1 4) = Some (R_DIV (unat d) (unat a) (unat b))"
  by (simp_all add: r_decode_def Let_def rtype_fields [OF assms] addsub_rtype)

lemma decode_ret: "r_decode RV32_RET = Some (R_JALR 0 1 0)"
  by code_simp

end
