(* ===== verification/NativeCode.thy ===== *)
theory NativeCode
  imports EncodingRv
begin

text \<open>
  What the emitted code does when the processor runs it: straight-line execution of both
  instruction sets (reference), the contract of an emitter backend as a locale over abstract
  two-register instructions, and its interpretation on both backends of
  src/compiler/emitter.rs.
\<close>

section \<open>Straight-line execution\<close>

text \<open>Run code up to its end; a return or an undefined encoding on the way is \<open>None\<close>.\<close>

function t_fall :: "'h bus \<Rightarrow> u16 list \<Rightarrow> regs \<times> 'h \<Rightarrow> (regs \<times> 'h) option" where
  "t_fall B ws c =
     (if ws = [] then Some c
      else (case t_fetch ws of
        None \<Rightarrow> None
      | Some (i, ws') \<Rightarrow> (case i of T_BX m \<Rightarrow> None | _ \<Rightarrow> t_fall B ws' (t_exec B i c))))"
  by pat_completeness auto
termination
  by (relation "measure (\<lambda>(B, ws, c). length ws)") (auto dest: t_fetch_shrinks)

fun r_fall :: "'h bus \<Rightarrow> u32 list \<Rightarrow> regs \<times> 'h \<Rightarrow> (regs \<times> 'h) option" where
  "r_fall B [] c = Some c"
| "r_fall B (w # ws) c =
     (case r_decode w of
       None \<Rightarrow> None
     | Some i \<Rightarrow> (case i of R_JALR d n v \<Rightarrow> None | _ \<Rightarrow> r_fall B ws (r_exec B i c)))"

declare t_fall.simps [simp del] r_fall.simps [simp del]

lemma t_fall_Nil [simp]: "t_fall B [] c = Some c"
  by (simp add: t_fall.simps)

lemma r_fall_Nil [simp]: "r_fall B [] c = Some c"
  by (simp add: r_fall.simps)

lemma t_fetch_append: "t_fetch ws = Some (i, ws') \<Longrightarrow> t_fetch (ws @ zs) = Some (i, ws' @ zs)"
  by (cases ws) (auto simp: t_fetch.simps split: if_splits list.splits option.splits)

lemma t_fall_fetch:
  assumes "t_fetch ws = Some (i, ws')" and "\<forall>m. i \<noteq> T_BX m"
  shows "t_fall B ws c = t_fall B ws' (t_exec B i c)"
proof -
  have "ws \<noteq> []" using assms(1) by (auto simp: t_fetch.simps(1))
  then show ?thesis using assms by (subst t_fall.simps) (simp split: tinstr.splits)
qed

lemma t_fall_cases:
  assumes "t_fall B ws c = Some c'"
  shows "ws = [] \<and> c' = c \<or>
    (\<exists>i ws'. t_fetch ws = Some (i, ws') \<and> (\<forall>m. i \<noteq> T_BX m) \<and> t_fall B ws' (t_exec B i c) = Some c')"
  using assms by (subst (asm) t_fall.simps) (auto split: if_splits option.splits tinstr.splits)

lemma t_fall_append:
  "t_fall B ws c = Some c' \<Longrightarrow> t_fall B (ws @ zs) c = t_fall B zs c'"
proof (induction "length ws" arbitrary: ws c rule: less_induct)
  case less
  from t_fall_cases [OF less.prems] show ?case
  proof (elim disjE exE conjE)
    fix i ws'
    assume *: "t_fetch ws = Some (i, ws')" "\<forall>m. i \<noteq> T_BX m" "t_fall B ws' (t_exec B i c) = Some c'"
    show ?thesis
      using less.hyps [OF t_fetch_shrinks [OF *(1)] *(3)]
      by (simp add: t_fall_fetch [OF t_fetch_append [OF *(1)] *(2)])
  qed simp
qed

lemma t_run_fall:
  "t_fall B ws c = Some c' \<Longrightarrow> t_run B (ws @ zs) c = t_run B zs c'"
proof (induction "length ws" arbitrary: ws c rule: less_induct)
  case less
  from t_fall_cases [OF less.prems] show ?case
  proof (elim disjE exE conjE)
    fix i ws'
    assume *: "t_fetch ws = Some (i, ws')" "\<forall>m. i \<noteq> T_BX m" "t_fall B ws' (t_exec B i c) = Some c'"
    have "t_run B (ws @ zs) c = t_run B (ws' @ zs) (t_exec B i c)"
      using *(2) by (subst t_run.simps) (simp add: t_fetch_append [OF *(1)] split: tinstr.splits)
    then show ?thesis using less.hyps [OF t_fetch_shrinks [OF *(1)] *(3)] by simp
  qed simp
qed

lemma r_fall_append:
  "r_fall B ws c = Some c' \<Longrightarrow> r_fall B (ws @ zs) c = r_fall B zs c'"
  by (induction ws arbitrary: c) (auto simp: r_fall.simps split: option.splits rinstr.splits)

lemma r_run_fall:
  "r_fall B ws c = Some c' \<Longrightarrow> r_run B (ws @ zs) c = r_run B zs c'"
  by (induction ws arbitrary: c) (auto simp: r_fall.simps r_run.simps split: option.splits rinstr.splits)

lemma t_run_ret: "t_run B (0x4770 # ws) c = Some c"
  by (subst t_run.simps) (simp add: fetch_bx_lr)

lemma r_run_ret: "r_run B (RV32_RET # ws) c = Some c"
  by (simp add: r_run.simps decode_ret)

section \<open>Emission into the buffer\<close>

text \<open>The code emitted so far, and the emitter invariant: never past the buffer's end.\<close>

definition code :: "'w emitter \<Rightarrow> 'w list" where
  "code e = take (len_words e) (em_buf e)"

definition em_ok :: "'w emitter \<Rightarrow> bool" where
  "em_ok e \<longleftrightarrow> len_words e \<le> cap_words e \<and> cap_words e \<le> length (em_buf e)"

text \<open>A method appends exactly \<open>ws\<close> when that fits, and otherwise reports the overflow;
  either way the buffer keeps its size and the invariant.\<close>

definition emits :: "('w emitter \<Rightarrow> (EmitError + unit) \<times> 'w emitter) \<Rightarrow> 'w list \<Rightarrow> bool" where
  "emits m ws \<longleftrightarrow> (\<forall>e. em_ok e \<longrightarrow> (\<exists>e'. em_ok e' \<and> cap_words e' = cap_words e
     \<and> length (em_buf e') = length (em_buf e)
     \<and> (if length (code e) + length ws \<le> cap_words e
        then m e = (Inr (), e') \<and> code e' = code e @ ws
        else m e = (Inl Overflow, e'))))"

lemma length_code [simp]: "em_ok e \<Longrightarrow> length (code e) = len_words e"
  by (simp add: code_def em_ok_def)

lemma emits_push16: "emits (push16 w) [w]"
  unfolding emits_def
proof (intro allI impI)
  fix e :: Thumb2Emitter
  assume e: "em_ok e"
  show "\<exists>e'. em_ok e' \<and> cap_words e' = cap_words e \<and> length (em_buf e') = length (em_buf e)
     \<and> (if length (code e) + length [w] \<le> cap_words e
        then push16 w e = (Inr (), e') \<and> code e' = code e @ [w] else push16 w e = (Inl Overflow, e'))"
    by (rule exI [of _ "snd (push16 w e)"])
      (use e in \<open>auto simp: push16_def em_ok_def code_def take_Suc_conv_app_nth\<close>)
qed

lemma emits_push32: "emits (push32 w) [w]"
  unfolding emits_def
proof (intro allI impI)
  fix e :: Riscv32Emitter
  assume e: "em_ok e"
  show "\<exists>e'. em_ok e' \<and> cap_words e' = cap_words e \<and> length (em_buf e') = length (em_buf e)
     \<and> (if length (code e) + length [w] \<le> cap_words e
        then push32 w e = (Inr (), e') \<and> code e' = code e @ [w] else push32 w e = (Inl Overflow, e'))"
    by (rule exI [of _ "snd (push32 w e)"])
      (use e in \<open>auto simp: push32_def em_ok_def code_def take_Suc_conv_app_nth\<close>)
qed

lemma emits_ok_with: "emits (ok_with ()) []"
  by (auto simp: emits_def ok_with_def em_ok_def code_def)

lemma emits_then:
  assumes "emits m xs" and "emits n ys"
  shows "emits (try_then m n) (xs @ ys)"
  unfolding emits_def
proof (intro allI impI)
  fix e :: "'a emitter"
  assume e: "em_ok e"
  from assms(1) e obtain e1 where e1: "em_ok e1" "cap_words e1 = cap_words e"
    "length (em_buf e1) = length (em_buf e)"
    "if length (code e) + length xs \<le> cap_words e then m e = (Inr (), e1) \<and> code e1 = code e @ xs
     else m e = (Inl Overflow, e1)"
    unfolding emits_def by blast
  from assms(2) e1(1) obtain e2 where e2: "em_ok e2" "cap_words e2 = cap_words e1"
    "length (em_buf e2) = length (em_buf e1)"
    "if length (code e1) + length ys \<le> cap_words e1 then n e1 = (Inr (), e2) \<and> code e2 = code e1 @ ys
     else n e1 = (Inl Overflow, e2)"
    unfolding emits_def by blast
  show "\<exists>e'. em_ok e' \<and> cap_words e' = cap_words e \<and> length (em_buf e') = length (em_buf e)
     \<and> (if length (code e) + length (xs @ ys) \<le> cap_words e
        then try_then m n e = (Inr (), e') \<and> code e' = code e @ xs @ ys
        else try_then m n e = (Inl Overflow, e'))"
  proof (cases "length (code e) + length xs \<le> cap_words e")
    case False
    with e1 show ?thesis by (intro exI [of _ e1]) (simp add: try_then_err)
  next
    case True
    with e1 have 1: "m e = (Inr (), e1)" "code e1 = code e @ xs" by simp_all
    then have "length (code e1) = length (code e) + length xs" by simp
    with 1 e1 e2 show ?thesis by (intro exI [of _ e2]) (auto simp: try_then_ok split: if_splits)
  qed
qed

lemma emitsD:
  assumes "emits m ws" and "em_ok e" and "length (code e) + length ws \<le> cap_words e"
  obtains e' where "m e = (Inr (), e')" "em_ok e'" "code e' = code e @ ws" "cap_words e' = cap_words e"
  using assms unfolding emits_def by metis

lemma emits_overflow:
  assumes "emits m ws" and "em_ok e" and "cap_words e < length (code e) + length ws"
  shows "\<exists>e'. m e = (Inl Overflow, e') \<and> em_ok e' \<and> length (em_buf e') = length (em_buf e)"
  using assms unfolding emits_def by (metis not_less)

subsection \<open>The code of each Thumb-2 method\<close>

definition t2_mov_code :: "u8 \<Rightarrow> u32 \<Rightarrow> u16 list" where
  "t2_mov_code reg imm =
     (if imm \<le> 0xFF \<and> reg < 8 then [0x2000 OR push_bit 8 (ucast reg) OR (ucast imm AND 0xFF)]
      else [fst (encode_movw reg imm), snd (encode_movw reg imm)]
        @ (if drop_bit 16 imm \<noteq> 0 then [fst (encode_movt reg imm), snd (encode_movt reg imm)] else []))"

lemma emits_t2_mov: "reg \<le> 15 \<Longrightarrow> emits (t2_mov_imm reg imm) (t2_mov_code reg imm)"
proof -
  assume reg: "reg \<le> 15"
  let ?w = "encode_movw reg imm" and ?t = "encode_movt reg imm"
  have t: "emits (try_then (push16 (fst ?t)) (try_then (push16 (snd ?t)) (ok_with ()))) [fst ?t, snd ?t]"
    using emits_then [OF emits_push16 emits_then [OF emits_push16 emits_ok_with]] by simp
  have "emits (if drop_bit 16 imm \<noteq> 0
      then try_then (push16 (fst ?t)) (try_then (push16 (snd ?t)) (ok_with ())) else ok_with ())
    (if drop_bit 16 imm \<noteq> 0 then [fst ?t, snd ?t] else [])"
    by (simp add: t emits_ok_with)
  from emits_then [OF emits_push16 emits_then [OF emits_push16 this]]
  show ?thesis
    using reg by (auto simp: t2_mov_imm_def t2_mov_code_def emits_push16 split_beta not_less)
qed

lemma mov_pair_value: "push_bit 16 (drop_bit 16 imm) OR take_bit 16 (take_bit 16 imm) = (imm :: u32)"
  by (simp add: u32_bits bit_simps even_drop_bit_iff_not_bit)

lemma t2_mov_code_runs:
  assumes "reg \<le> 15"
  shows "t_fall B (t2_mov_code reg imm) (r, h) = Some (r(unat reg := imm), h)"
proof (cases "imm \<le> 0xFF \<and> reg < 8")
  case True
  then have "reg \<le> 7" by (simp add: word_le_nat_alt word_less_nat_alt)
  with True show ?thesis
    by (simp add: t2_mov_code_def t_fall_fetch [OF fetch_movs_imm])
next
  case False
  note w = t_fall_fetch [OF fetch_movw [OF assms]] and t = t_fall_fetch [OF fetch_movt [OF assms]]
  have wide: "t2_mov_code reg imm = fst (encode_movw reg imm) # snd (encode_movw reg imm)
      # (if drop_bit 16 imm \<noteq> 0 then [fst (encode_movt reg imm), snd (encode_movt reg imm)] else [])"
    unfolding t2_mov_code_def using False by (simp only: if_False append.simps)
  have "take_bit 16 imm = imm" if "drop_bit 16 imm = 0"
    using that mov_pair_value [of imm] by simp
  moreover have "push_bit 16 (drop_bit 16 imm) OR take_bit 16 imm = imm"
    using mov_pair_value [of imm] by simp
  ultimately show ?thesis by (simp add: wide w t)
qed

lemma t2_mov_code_length: "length (t2_mov_code reg imm) \<le> 4"
  by (simp add: t2_mov_code_def)

definition t2_str_code :: "u8 \<Rightarrow> u8 \<Rightarrow> u16 list" where
  "t2_str_code rt rn = [0x6000 OR push_bit 6 (ucast (0 div 4 :: u32)) OR push_bit 3 (ucast rn) OR ucast rt]"

definition t2_ldr_code :: "u8 \<Rightarrow> u8 \<Rightarrow> u16 list" where
  "t2_ldr_code rt rn = [0x6800 OR push_bit 6 (ucast (0 div 4 :: u32)) OR push_bit 3 (ucast rn) OR ucast rt]"

definition t2_add_code :: "u8 \<Rightarrow> u8 \<Rightarrow> u8 \<Rightarrow> u16 list" where
  "t2_add_code d a b = [0x1800 OR push_bit 6 (ucast b) OR push_bit 3 (ucast a) OR ucast d]"

definition t2_sub_code :: "u8 \<Rightarrow> u8 \<Rightarrow> u8 \<Rightarrow> u16 list" where
  "t2_sub_code d a b = [0x1A00 OR push_bit 6 (ucast b) OR push_bit 3 (ucast a) OR ucast d]"

lemma low_reg: "(d :: u8) \<le> 7 \<Longrightarrow> \<not> 7 < d"
  by simp

lemma emits_t2_mem:
  assumes "rt \<le> 7" "rn \<le> 7"
  shows "emits (t2_store_u32 rt rn) (t2_str_code rt rn)" "emits (t2_load_u32 rt rn) (t2_ldr_code rt rn)"
  using low_reg [OF assms(1)] low_reg [OF assms(2)]
  by (simp_all add: t2_store_u32_def t2_load_u32_def encode_str_imm_def encode_ldr_imm_def
      t2_str_code_def t2_ldr_code_def emits_push16 del: not_less)

lemma t2_mem_code_runs:
  assumes "rt \<le> 7" "rn \<le> 7"
  shows "t_fall B (t2_str_code rt rn) (r, h) = Some (r, wr B (r (unat rn)) (r (unat rt)) h)"
    "t_fall B (t2_ldr_code rt rn) (r, h)
      = Some (r(unat rt := fst (rd B (r (unat rn)) h)), snd (rd B (r (unat rn)) h))"
proof -
  note reg = low_reg [OF assms(1)] low_reg [OF assms(2)]
  have "encode_str_imm rt rn 0
      = Some (0x6000 OR push_bit 6 (ucast (0 div 4 :: u32)) OR push_bit 3 (ucast rn) OR ucast rt)"
    "encode_ldr_imm rt rn 0
      = Some (0x6800 OR push_bit 6 (ucast (0 div 4 :: u32)) OR push_bit 3 (ucast rn) OR ucast rt)"
    using reg by (simp_all add: encode_str_imm_def encode_ldr_imm_def del: not_less)
  from fetch_str [OF this(1)] fetch_ldr [OF this(2)]
  show "t_fall B (t2_str_code rt rn) (r, h) = Some (r, wr B (r (unat rn)) (r (unat rt)) h)"
    "t_fall B (t2_ldr_code rt rn) (r, h)
      = Some (r(unat rt := fst (rd B (r (unat rn)) h)), snd (rd B (r (unat rn)) h))"
    unfolding t2_str_code_def t2_ldr_code_def by (simp_all add: t_fall_fetch)
qed

lemma emits_t2_addsub:
  assumes "d \<le> 7" "a \<le> 7" "b \<le> 7"
  shows "emits (t2_add d a b) (t2_add_code d a b)" "emits (t2_sub d a b) (t2_sub_code d a b)"
  using low_reg [OF assms(1)] low_reg [OF assms(2)] low_reg [OF assms(3)]
  by (simp_all add: t2_add_def t2_sub_def t2_add_code_def t2_sub_code_def emits_push16 del: not_less)

lemma t2_addsub_code_runs:
  assumes "d \<le> 7" "a \<le> 7" "b \<le> 7"
  shows "t_fall B (t2_add_code d a b) (r, h) = Some (r(unat d := r (unat a) + r (unat b)), h)"
    "t_fall B (t2_sub_code d a b) (r, h) = Some (r(unat d := r (unat a) - r (unat b)), h)"
  by (simp_all add: t2_add_code_def t2_sub_code_def t_fall_fetch [OF fetch_adds [OF assms]]
      t_fall_fetch [OF fetch_subs [OF assms]])

definition t2_mul_code :: "u8 \<Rightarrow> u8 \<Rightarrow> u8 \<Rightarrow> u16 list" where
  "t2_mul_code d a b = (if a \<noteq> d then [push_bit 3 (ucast a) OR ucast d] else [])
     @ [0x4340 OR push_bit 3 (ucast b) OR ucast d]"

lemma emits_t2_mul:
  assumes "d \<le> 7" "a \<le> 7" "b \<le> 7"
  shows "emits (t2_mul d a b) (t2_mul_code d a b)"
proof -
  have "emits (if a \<noteq> d then push16 (push_bit 3 (ucast a) OR ucast d) else ok_with ())
    (if a \<noteq> d then [push_bit 3 (ucast a) OR ucast d] else [])"
    by (simp add: emits_push16 emits_ok_with)
  from emits_then [OF this emits_push16] show ?thesis
    using low_reg [OF assms(1)] low_reg [OF assms(2)] low_reg [OF assms(3)]
    by (simp only: t2_mul_def t2_mul_code_def if_False simp_thms)
qed

text \<open>The product is right unless the second factor's register is the destination: then the
  move of the first factor has overwritten it.\<close>

lemma t2_mul_code_runs:
  assumes "d \<le> 7" "a \<le> 7" "b \<le> 7"
  shows "t_fall B (t2_mul_code d a b) (r, h)
    = Some (r(unat d := r (unat a) * (if b = d then r (unat a) else r (unat b))), h)"
  using assms(1,2)
  by (auto simp: t2_mul_code_def t_fall_fetch [OF fetch_movs_reg [OF assms(1,2)]]
      t_fall_fetch [OF fetch_muls [OF assms(1,3)]] word_unat_eq_iff mult.commute)

section \<open>The code of each RV32 method\<close>

lemma r_fall_step:
  "r_decode w = Some i \<Longrightarrow> (\<forall>d n v. i \<noteq> R_JALR d n v) \<Longrightarrow> r_fall B (w # ws) c = r_fall B ws (r_exec B i c)"
  by (cases i) (simp_all add: r_fall.simps)

definition signed12 :: "u32 \<Rightarrow> bool" where
  "signed12 imm \<longleftrightarrow> imm \<le> 0x7FF \<or> 0xFFFFF800 \<le> imm"

definition rv_mov_code :: "u8 \<Rightarrow> u32 \<Rightarrow> u32 list" where
  "rv_mov_code reg imm =
     (if signed12 imm then [encode_addi reg 0 imm]
      else (let hi20 = drop_bit 12 (imm + 0x800); lo12 = imm - push_bit 12 hi20
        in encode_lui reg hi20 # (if lo12 \<noteq> 0 then [encode_addi reg reg lo12] else [])))"

lemma emits_rv_mov: "emits (rv_mov_imm reg imm) (rv_mov_code reg imm)"
proof -
  let ?hi = "drop_bit 12 (imm + 0x800)" and ?lo = "imm - push_bit 12 (drop_bit 12 (imm + 0x800))"
  have "emits (if ?lo \<noteq> 0 then push32 (encode_addi reg reg ?lo) else ok_with ())
    (if ?lo \<noteq> 0 then [encode_addi reg reg ?lo] else [])"
    by (simp add: emits_push32 emits_ok_with)
  from emits_then [OF emits_push32 emits_then [OF this emits_ok_with]]
  have "emits (try_then (push32 (encode_lui reg ?hi))
      (try_then (if ?lo \<noteq> 0 then push32 (encode_addi reg reg ?lo) else ok_with ()) (ok_with ())))
    ([encode_lui reg ?hi] @ (if ?lo \<noteq> 0 then [encode_addi reg reg ?lo] else []))" by simp
  then show ?thesis
    by (auto simp: rv_mov_imm_def rv_mov_code_def signed12_def Let_def emits_push32)
qed

lemma rv_mov_code_length: "length (rv_mov_code reg imm) \<le> 2"
  by (simp add: rv_mov_code_def Let_def)

text \<open>Outside the signed 12-bit range, the upper immediate lands eight bits too high: the
  value differs from the immediate, whatever the immediate is.\<close>

lemma hi20_range:
  assumes "\<not> signed12 imm"
  shows "0 < unat (drop_bit 12 (imm + 0x800))" "unat (drop_bit 12 (imm + 0x800)) < 2 ^ 20"
proof -
  have r: "2048 \<le> unat imm" "unat imm < 4294965248"
    using assms by (simp_all add: signed12_def word_le_nat_alt not_le)
  then have "unat (imm + 0x800) = unat imm + 2048" by (subst unat_add_small) simp_all
  then have v: "unat (drop_bit 12 (imm + 0x800)) = (unat imm + 2048) div 4096"
    by (simp add: drop_bit_eq_div unat_div)
  show "0 < unat (drop_bit 12 (imm + 0x800))" using r by (simp add: v div_greater_zero_iff)
  have "(unat imm + 2048) div 4096 < 2 ^ 20"
    using r by (simp add: div_less_iff_less_mult)
  then show "unat (drop_bit 12 (imm + 0x800)) < 2 ^ 20" by (simp only: v)
qed

lemma upper_misplaced:
  assumes "0 < unat (k :: u32)" and "unat k < 2 ^ 20"
  shows "push_bit 20 k \<noteq> push_bit 12 k"
proof
  assume eq: "push_bit 20 k = push_bit 12 k"
  have "20 \<le> n \<Longrightarrow> \<not> bit k n" for n using small_bit [OF assms(2)] by blast
  with eq have "k = 0" by (auto simp: u32_bits bit_simps)
  with assms(1) show False by simp
qed

lemma lo12_range:
  fixes imm :: u32
  defines "lo \<equiv> imm - push_bit 12 (drop_bit 12 (imm + 0x800))"
  shows "lo \<le> 0x7FF \<or> 0xFFFFF800 \<le> lo"
proof -
  let ?t = "take_bit 12 (imm + 0x800)"
  have "push_bit 12 (drop_bit 12 (imm + 0x800)) = imm + 0x800 - ?t"
    using bits_ident [of 12 "imm + 0x800"] by (simp add: algebra_simps)
  then have lo: "lo = ?t - 0x800" by (simp add: lo_def)
  have t: "unat ?t < 4096" by (simp add: unsigned_take_bit_eq take_bit_nat_less_exp [of 12, simplified])
  show ?thesis
  proof (cases "0x800 \<le> ?t")
    case True
    then have "unat lo = unat ?t - 2048" by (simp add: lo unat_sub)
    with t have "unat lo \<le> 2047" by linarith
    then show "lo \<le> 0x7FF \<or> 0xFFFFF800 \<le> lo" by (simp add: word_le_nat_alt)
  next
    case False
    then have "unat ?t < 2048" by (simp add: word_le_nat_alt)
    moreover have "lo = ?t + 0xFFFFF800" by (simp add: lo)
    ultimately have "unat lo = unat ?t + 4294965248" by (simp add: unat_add_small)
    then show "lo \<le> 0x7FF \<or> 0xFFFFF800 \<le> lo" by (simp add: word_le_nat_alt)
  qed
qed

lemma sext12_lo:
  fixes imm :: u32
  shows "sext12 (imm - push_bit 12 (drop_bit 12 (imm + 0x800))) = imm - push_bit 12 (drop_bit 12 (imm + 0x800))"
  by (rule sext12_fixed) (rule lo12_range)

text \<open>The value that the emitted code really loads, which is the immediate just in the first case.\<close>

definition rv_loaded :: "u32 \<Rightarrow> u32" where
  "rv_loaded imm =
     (if signed12 imm then imm
      else (let hi20 = drop_bit 12 (imm + 0x800) in push_bit 20 hi20 + (imm - push_bit 12 hi20)))"

lemma rv_loaded_iff: "rv_loaded imm = imm \<longleftrightarrow> signed12 imm"
  using upper_misplaced [OF hi20_range, of imm] by (auto simp: rv_loaded_def Let_def algebra_simps)

lemma rv_mov_code_runs:
  assumes "1 \<le> reg" "reg \<le> 31"
  shows "r_fall B (rv_mov_code reg imm) (r, h) = Some (r(unat reg := rv_loaded imm), h)"
proof -
  have nz: "unat reg \<noteq> 0" using assms(1) by (simp add: word_le_nat_alt)
  show ?thesis
  proof (cases "signed12 imm")
    case True
    then show ?thesis
      using assms(2)
      by (simp add: rv_mov_code_def rv_loaded_def rget_def sext12_fixed signed12_def r_fall_step [OF decode_addi])
  next
    case False
    then show ?thesis
      using nz by (auto simp: rv_mov_code_def rv_loaded_def Let_def rget_def sext12_lo
        r_fall_step [OF decode_lui [OF assms(2)]] r_fall_step [OF decode_addi [OF assms(2,2)]])
  qed
qed

lemma rv_mem_encodes:
  "\<exists>w. encode_sw s b 0 = Some w" "\<exists>w. encode_lw s b 0 = Some w"
  by (simp_all add: encode_sw_def encode_lw_def Let_def)

lemma emits_rv_mem:
  "emits (rv_store_u32 s b) [the (encode_sw s b 0)]" "emits (rv_load_u32 s b) [the (encode_lw s b 0)]"
  using rv_mem_encodes [of s b] by (auto simp: rv_store_u32_def rv_load_u32_def emits_push32)

lemma rv_mem_code_runs:
  assumes "1 \<le> s" "s \<le> 31" "1 \<le> b" "b \<le> 31"
  shows "r_fall B [the (encode_sw s b 0)] (r, h) = Some (r, wr B (r (unat b)) (r (unat s)) h)"
    "r_fall B [the (encode_lw s b 0)] (r, h)
      = Some (r(unat s := fst (rd B (r (unat b)) h)), snd (rd B (r (unat b)) h))"
proof -
  have nz: "unat s \<noteq> 0" "unat b \<noteq> 0" using assms by (simp_all add: word_le_nat_alt)
  have z: "sext12 0 = 0" by (simp add: sext12_def)
  obtain w v where w: "encode_sw s b 0 = Some w" and v: "encode_lw s b 0 = Some v"
    using rv_mem_encodes by blast
  show "r_fall B [the (encode_sw s b 0)] (r, h) = Some (r, wr B (r (unat b)) (r (unat s)) h)"
    using nz by (simp add: w z rget_def r_fall_step [OF decode_sw [OF w assms(2,4)]])
  show "r_fall B [the (encode_lw s b 0)] (r, h)
      = Some (r(unat s := fst (rd B (r (unat b)) h)), snd (rd B (r (unat b)) h))"
    using nz by (simp add: v z rget_def r_fall_step [OF decode_lw [OF v assms(2,4)]])
qed

lemma emits_rv_arith:
  "emits (rv_add d a b) [encode_rtype_addsub d a b False]"
  "emits (rv_sub d a b) [encode_rtype_addsub d a b True]"
  "emits (rv_mul d a b) [encode_rtype d a b 1 0]"
  "emits (rv_div d a b) [encode_rtype d a b 1 4]"
  by (simp_all add: rv_add_def rv_sub_def rv_mul_def rv_div_def emits_push32)

lemma rv_arith_code_runs:
  assumes "d \<le> 31" "1 \<le> a" "a \<le> 31" "1 \<le> b" "b \<le> 31"
  shows "r_fall B [encode_rtype_addsub d a b False] (r, h) = Some (r(unat d := r (unat a) + r (unat b)), h)"
    "r_fall B [encode_rtype_addsub d a b True] (r, h) = Some (r(unat d := r (unat a) - r (unat b)), h)"
    "r_fall B [encode_rtype d a b 1 0] (r, h) = Some (r(unat d := r (unat a) * r (unat b)), h)"
    "r_fall B [encode_rtype d a b 1 4] (r, h) = Some (r(unat d :=
       if r (unat b) = 0 then 0xFFFFFFFF
       else word_of_int (trunc_div (sint (r (unat a))) (sint (r (unat b))))), h)"
proof -
  have nz: "unat a \<noteq> 0" "unat b \<noteq> 0" using assms by (simp_all add: word_le_nat_alt)
  note dec = decode_rtype [OF assms(1,3,5)]
  show "r_fall B [encode_rtype_addsub d a b False] (r, h) = Some (r(unat d := r (unat a) + r (unat b)), h)"
    using nz by (simp add: r_fall_step [OF dec(1)] rget_def)
  show "r_fall B [encode_rtype_addsub d a b True] (r, h) = Some (r(unat d := r (unat a) - r (unat b)), h)"
    using nz by (simp add: r_fall_step [OF dec(2)] rget_def)
  show "r_fall B [encode_rtype d a b 1 0] (r, h) = Some (r(unat d := r (unat a) * r (unat b)), h)"
    using nz by (simp add: r_fall_step [OF dec(3)] rget_def)
  show "r_fall B [encode_rtype d a b 1 4] (r, h) = Some (r(unat d :=
       if r (unat b) = 0 then 0xFFFFFFFF
       else word_of_int (trunc_div (sint (r (unat a))) (sint (r (unat b))))), h)"
    using nz by (simp add: r_fall_step [OF dec(4)] rget_def)
qed

section \<open>Properties of the emitters\<close>

text \<open>C33: the Thumb-2 \<open>emit_mov_imm\<close> is correct for every register r0 to r12 and all 2^32
  immediates. With four free halfwords it succeeds, appends its code to what was emitted
  before, and that code, run from any registers, leaves exactly the immediate in the register
  and everything else as it was, through whichever of its three instruction sequences.\<close>

theorem thumb_mov_imm_loads:
  assumes "reg \<le> 12" and "em_ok e" and "len_words e + 4 \<le> cap_words e"
  shows "\<exists>e' ws. t2_mov_imm reg imm e = (Inr (), e') \<and> em_ok e' \<and> code e' = code e @ ws
    \<and> t_fall B ws (r, h) = Some (r(unat reg := imm), h)"
proof -
  have reg: "reg \<le> 15" using assms(1) by (simp add: word_le_nat_alt)
  have "length (code e) + length (t2_mov_code reg imm) \<le> cap_words e"
    using assms(2,3) t2_mov_code_length [of reg imm] by simp
  from emitsD [OF emits_t2_mov [OF reg] assms(2) this] t2_mov_code_runs [OF reg] show ?thesis
    by metis
qed

theorem thumb_mov_imm_loads_witness:
  "\<exists>e' ws. t2_mov_imm 3 0xDEADBEEF (t2_into_exec_buffer (replicate 2048 0)) = (Inr (), e') \<and> em_ok e'
    \<and> code e' = code (t2_into_exec_buffer (replicate 2048 0)) @ ws
    \<and> t_fall ram_bus ws (\<lambda>_. 0, \<lambda>_. 0) = Some ((\<lambda>_. 0)(3 := 0xDEADBEEF), \<lambda>_. 0)"
  using thumb_mov_imm_loads [of 3 "t2_into_exec_buffer (replicate 2048 0)" "0xDEADBEEF" ram_bus "\<lambda>_. 0" "\<lambda>_. 0"]
  by (simp add: em_ok_def t2_into_exec_buffer_def)

text \<open>C34: the RV32I \<open>emit_mov_imm\<close> loads its immediate if and only if that is a signed
  12-bit number. For any other one the LUI it emits carries the upper twenty bits in the wrong
  place (\<open>encode_lui\<close> shifts by 20, the U format has them at bit 12), and the register ends
  with a different value: no immediate of the two-instruction path is loaded correctly.\<close>

theorem rv_mov_imm_loads_iff:
  assumes "1 \<le> reg" "reg \<le> 31" and "em_ok e" and "len_words e + 2 \<le> cap_words e"
  shows "\<exists>e' ws v. rv_mov_imm reg imm e = (Inr (), e') \<and> em_ok e' \<and> code e' = code e @ ws
    \<and> r_fall B ws (r, h) = Some (r(unat reg := v), h) \<and> (v = imm \<longleftrightarrow> signed12 imm)"
proof -
  have "length (code e) + length (rv_mov_code reg imm) \<le> cap_words e"
    using assms(3,4) rv_mov_code_length [of reg imm] by simp
  from emitsD [OF emits_rv_mov assms(3) this] obtain e' where
    e': "rv_mov_imm reg imm e = (Inr (), e')" "em_ok e'" "code e' = code e @ rv_mov_code reg imm" by metis
  show ?thesis
    by (intro exI [of _ e'] exI [of _ "rv_mov_code reg imm"] exI [of _ "rv_loaded imm"])
      (simp add: e' rv_mov_code_runs [OF assms(1,2)] rv_loaded_iff)
qed

theorem rv_mov_imm_loads_iff_witness:
  "\<exists>e' ws v. rv_mov_imm 10 0x1000 (rv_into_exec_buffer (replicate 256 0)) = (Inr (), e') \<and> em_ok e'
    \<and> code e' = code (rv_into_exec_buffer (replicate 256 0)) @ ws
    \<and> r_fall ram_bus ws (\<lambda>_. 0, \<lambda>_. 0) = Some ((\<lambda>_. 0)(10 := v), \<lambda>_. 0) \<and> v \<noteq> 0x1000"
  using rv_mov_imm_loads_iff [of 10 "rv_into_exec_buffer (replicate 256 0)" "0x1000" ram_bus "\<lambda>_. 0" "\<lambda>_. 0"]
  by (simp add: em_ok_def rv_into_exec_buffer_def signed12_def)

lemma thumb_arith_each:
  assumes "d \<le> 7" "a \<le> 7" "b \<le> 7" and "em_ok e" and "len_words e + 2 \<le> cap_words e"
  shows "\<exists>e' ws. t2_add d a b e = (Inr (), e') \<and> code e' = code e @ ws
      \<and> t_fall B ws (r, h) = Some (r(unat d := r (unat a) + r (unat b)), h)"
    and "\<exists>e' ws. t2_sub d a b e = (Inr (), e') \<and> code e' = code e @ ws
      \<and> t_fall B ws (r, h) = Some (r(unat d := r (unat a) - r (unat b)), h)"
    and "\<exists>e' ws. t2_mul d a b e = (Inr (), e') \<and> code e' = code e @ ws
      \<and> t_fall B ws (r, h) = Some (r(unat d := r (unat a) * (if b = d then r (unat a) else r (unat b))), h)"
    and "\<exists>e' ws. t2_div d a b e = (Inr (), e') \<and> code e' = code e @ ws \<and> t_fetch ws = None"
proof -
  have room: "length (code e) + length ws \<le> cap_words e" if "length ws \<le> 2" for ws :: "u16 list"
    using that assms(4,5) by simp
  have 15: "d \<le> 15" "a \<le> 15" "b \<le> 15" using assms(1-3) by (simp_all add: word_le_nat_alt)
  show "\<exists>e' ws. t2_add d a b e = (Inr (), e') \<and> code e' = code e @ ws
      \<and> t_fall B ws (r, h) = Some (r(unat d := r (unat a) + r (unat b)), h)"
    using emitsD [OF emits_t2_addsub(1) [OF assms(1-3)] assms(4) room] t2_addsub_code_runs(1) [OF assms(1-3)]
    by (metis t2_add_code_def length_Cons list.size(3) numeral_2_eq_2 le_SucI order_refl)
  show "\<exists>e' ws. t2_sub d a b e = (Inr (), e') \<and> code e' = code e @ ws
      \<and> t_fall B ws (r, h) = Some (r(unat d := r (unat a) - r (unat b)), h)"
    using emitsD [OF emits_t2_addsub(2) [OF assms(1-3)] assms(4) room] t2_addsub_code_runs(2) [OF assms(1-3)]
    by (metis t2_sub_code_def length_Cons list.size(3) numeral_2_eq_2 le_SucI order_refl)
  have "length (t2_mul_code d a b) \<le> 2" by (simp add: t2_mul_code_def)
  from emitsD [OF emits_t2_mul [OF assms(1-3)] assms(4) room [OF this]] t2_mul_code_runs [OF assms(1-3)]
  show "\<exists>e' ws. t2_mul d a b e = (Inr (), e') \<and> code e' = code e @ ws
      \<and> t_fall B ws (r, h) = Some (r(unat d := r (unat a) * (if b = d then r (unat a) else r (unat b))), h)"
    by metis
  have "emits (t2_div d a b) ([fst (encode_sdiv d a b)] @ [snd (encode_sdiv d a b)])"
    using emits_then [OF emits_push16 emits_push16] 15
    by (simp add: t2_div_def split_beta not_less [symmetric])
  from emitsD [OF this assms(4) room] sdiv_not_fetched [OF 15, of "[]"]
  show "\<exists>e' ws. t2_div d a b e = (Inr (), e') \<and> code e' = code e @ ws \<and> t_fetch ws = None"
    by (metis append_Cons append_Nil length_Cons list.size(3) numeral_2_eq_2 order_refl)
qed

text \<open>C39: what the Thumb-2 arithmetic methods compute. Additions and subtractions of low
  registers are exact (modulo 2^32). A multiplication is, unless the second factor is in the
  destination register and the first is not: then the move of the first factor into the
  destination overwrites the second, and the square of the first factor comes out. The two
  halfwords of a division are no instruction at all.\<close>

theorem thumb_arith_exact:
  assumes "d \<le> 7" "a \<le> 7" "b \<le> 7" and "em_ok e" and "len_words e + 2 \<le> cap_words e"
  shows "(\<exists>e' ws. t2_add d a b e = (Inr (), e') \<and> code e' = code e @ ws
      \<and> t_fall B ws (r, h) = Some (r(unat d := r (unat a) + r (unat b)), h))
    \<and> (\<exists>e' ws. t2_sub d a b e = (Inr (), e') \<and> code e' = code e @ ws
      \<and> t_fall B ws (r, h) = Some (r(unat d := r (unat a) - r (unat b)), h))
    \<and> (\<exists>e' ws. t2_mul d a b e = (Inr (), e') \<and> code e' = code e @ ws
      \<and> t_fall B ws (r, h) = Some (r(unat d := r (unat a) * (if b = d then r (unat a) else r (unat b))), h))
    \<and> (\<exists>e' ws. t2_div d a b e = (Inr (), e') \<and> code e' = code e @ ws \<and> t_fetch ws = None)"
  by (intro conjI thumb_arith_each [OF assms])

theorem thumb_arith_exact_witness:
  "\<exists>e' ws. t2_mul 2 1 2 (t2_into_exec_buffer (replicate 2048 0)) = (Inr (), e')
    \<and> code e' = code (t2_into_exec_buffer (replicate 2048 0)) @ ws
    \<and> t_fall ram_bus ws ((\<lambda>_. 0)(1 := 3, 2 := 5), \<lambda>_. 0) = Some ((\<lambda>_. 0)(1 := 3, 2 := 9), \<lambda>_. 0)"
  using thumb_arith_exact [of 2 1 2 "t2_into_exec_buffer (replicate 2048 0)" ram_bus "(\<lambda>_. 0)(1 := 3, 2 := 5)" "\<lambda>_. 0"]
  by (simp add: em_ok_def t2_into_exec_buffer_def fun_upd_twist)

end
