(* ===== verification/Native.thy ===== *)
theory Native
  imports NativeCode Exec
begin

text \<open>
  Native code generation from token streams (src/compiler/native.rs) and the execution of a
  compiled program (\<open>StreamProgram::run\<close> of src/compiler/parser.rs), over the platform:
  the target architecture, its emitter, the link layout, the bus, and the processor that runs
  the executable buffer. The processor and the bus are parameters of the model.
\<close>

section \<open>Entering the buffer\<close>

text \<open>
  The buffer is entered at its link address \<open>base\<close>; an ARM branch target carries the
  instruction-set bit. \<open>call f\<close> transfers control to the address \<open>f\<close> and \<open>flush\<close> is the pair of
  barrier instructions. An offset inside the buffer cannot overflow the address.
\<close>

fun exec_buffer_entry :: "arch \<Rightarrow> u32 \<Rightarrow> u32" where
  "exec_buffer_entry Arm base = base OR 1"
| "exec_buffer_entry Riscv32 base = base"

definition jump_to_sram :: "(u32 \<Rightarrow> 'h \<Rightarrow> (u32 \<times> 'h) option) \<Rightarrow> u32 \<Rightarrow> 'h \<Rightarrow> (u32 \<times> 'h) option" where
  "jump_to_sram call func h = call func h"

definition execute_sram_buffer ::
    "arch \<Rightarrow> ('h \<Rightarrow> 'h) \<Rightarrow> (u32 \<Rightarrow> 'h \<Rightarrow> (u32 \<times> 'h) option) \<Rightarrow> u32 \<Rightarrow> nat \<Rightarrow> 'h \<Rightarrow> (u32 \<times> 'h) option" where
  "execute_sram_buffer a flush call base offset h =
     (let h = flush h; base = base + of_nat offset
      in case a of Arm \<Rightarrow> call (base OR 1) h | Riscv32 \<Rightarrow> call base h)"

text \<open>The helper is the entry that the compiler uses, at an offset and behind a barrier; the
  instruction-set bit leaves the address of the first halfword alone.\<close>

lemma execute_is_entry:
  "execute_sram_buffer a flush call base n h = jump_to_sram call (exec_buffer_entry a (base + of_nat n)) (flush h)"
  by (cases a) (simp_all add: execute_sram_buffer_def jump_to_sram_def)

lemma entry_address: "\<not> bit base 0 \<Longrightarrow> exec_buffer_entry a base AND NOT 1 = base"
  by (cases a; rule bit_eqI) (auto simp: bit_simps intro!: gr0I)

section \<open>The platform\<close>

record ('e, 'h) platform =
  target :: arch
  emitter_of :: "'e target_emitter"
  into_exec_buffer :: "'e \<Rightarrow> 'e"
  layout :: "prim \<Rightarrow> usize"
  hw :: "'h bus"
  cpu :: "'e \<Rightarrow> 'h \<Rightarrow> (u32 \<times> 'h) option"

text \<open>
  \<open>cpu\<close> is \<open>jump_to_sram(exec_buffer_entry())\<close>: it runs the buffer from its start and
  yields the return register, or \<open>None\<close> if control does not come back.
\<close>

fun ACC :: "arch \<Rightarrow> u8" where "ACC Arm = 0" | "ACC Riscv32 = 10"

fun SCRATCH :: "arch \<Rightarrow> u8" where "SCRATCH Arm = 1" | "SCRATCH Riscv32 = 11"

section \<open>Compilation\<close>

text \<open>\<open>Complex\<close> is the \<open>Err(())\<close> of the source; \<open>IndexPanic\<close> an array index out of range.\<close>

datatype native_fail = Complex | IndexPanic

function is_compilable_from :: "(prim \<Rightarrow> usize) \<Rightarrow> usize list \<Rightarrow> nat \<Rightarrow> nat \<Rightarrow> bool \<Rightarrow> native_fail + bool" where
  "is_compilable_from lay stream len ip lit_seen =
     (if ip < len then
        (case slice_get stream ip of
          None \<Rightarrow> Inl IndexPanic
        | Some w \<Rightarrow>
            if w = 0 \<or> w = lay Halt then Inr True
            else if w = lay Lit then is_compilable_from lay stream len (ip + 2) True
            else if w = lay Add \<or> w = lay Sub \<or> w = lay Mul \<or> w = lay Div \<or> w = lay LoadReg \<or> w = lay WriteReg
              then is_compilable_from lay stream len (ip + 1) True
            else Inr False)
      else Inr lit_seen)"
  by pat_completeness auto
termination by (relation "measure (\<lambda>(lay, stream, len, ip, l). len - ip)") auto

definition is_compilable :: "(prim \<Rightarrow> usize) \<Rightarrow> usize list \<Rightarrow> nat \<Rightarrow> native_fail + bool" where
  "is_compilable lay stream len = is_compilable_from lay stream len 0 False"

definition or_complex :: "('e \<Rightarrow> (EmitError + unit) \<times> 'e) \<Rightarrow> 'e \<Rightarrow> (native_fail + unit) \<times> 'e" where
  "or_complex m em = (case m em of (Inl _, em') \<Rightarrow> (Inl Complex, em') | (Inr u, em') \<Rightarrow> (Inr u, em'))"

function compile_loop ::
    "'e target_emitter \<Rightarrow> arch \<Rightarrow> (prim \<Rightarrow> usize) \<Rightarrow> usize list \<Rightarrow> nat \<Rightarrow> nat \<Rightarrow> bool \<Rightarrow> 'e
      \<Rightarrow> (native_fail + unit) \<times> 'e" where
  "compile_loop E a lay stream len ip acc_loaded em =
     (if ip < len then
        (case slice_get stream ip of
          None \<Rightarrow> (Inl IndexPanic, em)
        | Some word \<Rightarrow>
            if word = 0 then (Inr (), em)
            else if word = lay Halt then (Inr (), em)
            else if word = lay Lit then
              (if len \<le> ip + 1 then (Inl Complex, em)
               else (case slice_get stream (ip + 1) of
                 None \<Rightarrow> (Inl IndexPanic, em)
               | Some val \<Rightarrow>
                   (case (if ip + 2 < len then slice_get stream (ip + 2) else Some 0) of
                     None \<Rightarrow> (Inl IndexPanic, em)
                   | Some next \<Rightarrow>
                       if next = lay LoadReg \<or> next = lay WriteReg then
                         try_then (or_complex (emit_mov_imm E (SCRATCH a) val))
                           (\<lambda>em. compile_loop E a lay stream len (ip + 2) acc_loaded em) em
                       else if \<not> acc_loaded then
                         try_then (or_complex (emit_mov_imm E (ACC a) val))
                           (\<lambda>em. compile_loop E a lay stream len (ip + 2) True em) em
                       else
                         try_then (or_complex (emit_mov_imm E (SCRATCH a) val))
                           (\<lambda>em. compile_loop E a lay stream len (ip + 2) acc_loaded em) em)))
            else if word = lay Add then
              try_then (or_complex (emit_add E (ACC a) (ACC a) (SCRATCH a)))
                (\<lambda>em. compile_loop E a lay stream len (ip + 1) True em) em
            else if word = lay Sub then
              try_then (or_complex (emit_sub E (ACC a) (ACC a) (SCRATCH a)))
                (\<lambda>em. compile_loop E a lay stream len (ip + 1) True em) em
            else if word = lay Mul then
              try_then (or_complex (emit_mul E (ACC a) (ACC a) (SCRATCH a)))
                (\<lambda>em. compile_loop E a lay stream len (ip + 1) True em) em
            else if word = lay Div then
              try_then (or_complex (emit_div E (ACC a) (ACC a) (SCRATCH a)))
                (\<lambda>em. compile_loop E a lay stream len (ip + 1) True em) em
            else if word = lay LoadReg then
              try_then (or_complex (emit_load_u32 E (ACC a) (SCRATCH a)))
                (\<lambda>em. compile_loop E a lay stream len (ip + 1) True em) em
            else if word = lay WriteReg then
              try_then (or_complex (emit_store_u32 E (SCRATCH a) (ACC a)))
                (\<lambda>em. compile_loop E a lay stream len (ip + 1) acc_loaded em) em
            else (Inl Complex, em))
      else (Inr (), em))"
  by pat_completeness auto
termination by (relation "measure (\<lambda>(E, a, lay, stream, len, ip, l, em). len - ip)") auto

declare is_compilable_from.simps [simp del] compile_loop.simps [simp del]

text \<open>The result, the buffer it was compiled into, and the hardware; \<open>None\<close> if the compiled
  code does not return.\<close>

definition compile_and_run ::
    "('e, 'h) platform \<Rightarrow> usize list \<Rightarrow> nat \<Rightarrow> bool \<Rightarrow> 'e \<Rightarrow> 'h
      \<Rightarrow> ((native_fail + u32 option) \<times> 'e \<times> 'h) option" where
  "compile_and_run P stream len yields_value buf h =
     (case is_compilable (layout P) stream len of
       Inl f \<Rightarrow> Some (Inl f, buf, h)
     | Inr False \<Rightarrow> Some (Inl Complex, buf, h)
     | Inr True \<Rightarrow>
         (case try_then (compile_loop (emitter_of P) (target P) (layout P) stream len 0 False)
                 (or_complex (emit_ret (emitter_of P))) (into_exec_buffer P buf) of
           (Inl f, em) \<Rightarrow> Some (Inl f, em, h)
         | (Inr _, em) \<Rightarrow>
             (case cpu P em h of
               None \<Rightarrow> None
             | Some (result, h') \<Rightarrow>
                 Some (Inr (if yields_value then Some result else None), em, h'))))"

section \<open>Running a compiled program\<close>

definition MAX_STREAM_WORDS :: nat where "MAX_STREAM_WORDS = 128"

record StreamProgram =
  prog_words :: "usize list"
  prog_len :: nat
  yields_value :: bool

definition prog_is_empty :: "StreamProgram \<Rightarrow> bool" where
  "prog_is_empty prog \<longleftrightarrow> prog_len prog = 0"

text \<open>\<open>StreamProgram::run\<close>: the native path first, the threaded interpreter when the compiler
  gives up. An index panic is passed on as such.\<close>

definition program_run ::
    "('e, 'h) platform \<Rightarrow> StreamProgram \<Rightarrow> vm \<Rightarrow> 'e \<Rightarrow> 'h
      \<Rightarrow> ((native_fail + u32 option) \<times> vm \<times> 'e \<times> 'h) option" where
  "program_run P prog s buf h =
     (let s = vm_reset s;
          finish = (\<lambda>s buf h. if yields_value prog then (let (v, s) = vm_pop s in (Inr (Some v), s, buf, h))
                              else (Inr None, s, buf, h))
      in if 0 < prog_len prog then
           (case compile_and_run P (prog_words prog) (prog_len prog) (yields_value prog) buf h of
             None \<Rightarrow> None
           | Some (Inr result, buf, h) \<Rightarrow> Some (Inr result, s, buf, h)
           | Some (Inl IndexPanic, buf, h) \<Rightarrow> Some (Inl IndexPanic, s, buf, h)
           | Some (Inl Complex, buf, h) \<Rightarrow>
               (case run_threaded_stream (layout P) (hw P) (prog_words prog) 0 s h of
                 None \<Rightarrow> None
               | Some (s, h) \<Rightarrow> Some (finish s buf h)))
         else Some (finish s buf h))"

text \<open>The two targets, over a layout, a bus and the registers at the call.\<close>

definition arm_platform :: "(prim \<Rightarrow> usize) \<Rightarrow> 'h bus \<Rightarrow> regs \<Rightarrow> (Thumb2Emitter, 'h) platform" where
  "arm_platform lay B r0 = \<lparr>target = Arm, emitter_of = thumb2,
     into_exec_buffer = (\<lambda>e. t2_into_exec_buffer (em_buf e)), layout = lay, hw = B,
     cpu = (\<lambda>e h. map_option (\<lambda>(r, h). (r 0, h)) (t_run B (em_buf e) (r0, h)))\<rparr>"

definition riscv_platform :: "(prim \<Rightarrow> usize) \<Rightarrow> 'h bus \<Rightarrow> regs \<Rightarrow> (Riscv32Emitter, 'h) platform" where
  "riscv_platform lay B r0 = \<lparr>target = Riscv32, emitter_of = rv32,
     into_exec_buffer = (\<lambda>e. rv_into_exec_buffer (em_buf e)), layout = lay, hw = B,
     cpu = (\<lambda>e h. map_option (\<lambda>(r, h). (r 10, h)) (r_run B (em_buf e) (r0, h)))\<rparr>"

section \<open>Two-register code\<close>

text \<open>
  What the compiler makes of a well-formed stream, as instructions of an abstract
  two-register machine (accumulator, scratch, hardware): the specification of the loop.
\<close>

datatype minstr = MovAcc u32 | MovScr u32 | MAdd | MSub | MMul | MLoad | MStore

fun mexec :: "'h bus \<Rightarrow> minstr \<Rightarrow> u32 \<times> u32 \<times> 'h \<Rightarrow> u32 \<times> u32 \<times> 'h" where
  "mexec B (MovAcc v) (x, y, h) = (v, y, h)"
| "mexec B (MovScr v) (x, y, h) = (x, v, h)"
| "mexec B MAdd (x, y, h) = (x + y, y, h)"
| "mexec B MSub (x, y, h) = (x - y, y, h)"
| "mexec B MMul (x, y, h) = (x * y, y, h)"
| "mexec B MLoad (x, y, h) = (fst (rd B y h), y, snd (rd B y h))"
| "mexec B MStore (x, y, h) = (x, y, wr B x y h)"

fun mrun :: "'h bus \<Rightarrow> minstr list \<Rightarrow> u32 \<times> u32 \<times> 'h \<Rightarrow> u32 \<times> u32 \<times> 'h" where
  "mrun B [] c = c"
| "mrun B (i # is) c = mrun B is (mexec B i c)"

text \<open>A backend may load something else than the immediate it is given.\<close>

fun with_imm :: "(u32 \<Rightarrow> u32) \<Rightarrow> minstr \<Rightarrow> minstr" where
  "with_imm ld (MovAcc v) = MovAcc (ld v)"
| "with_imm ld (MovScr v) = MovScr (ld v)"
| "with_imm ld i = i"

lemma with_imm_id [simp]: "with_imm (\<lambda>v. v) i = i"
  by (cases i) simp_all

fun mem_next :: "rpn_op list \<Rightarrow> bool" where
  "mem_next (Do p # _) = (p = LoadReg \<or> p = WriteReg)"
| "mem_next _ = False"

fun ncompile :: "rpn_op list \<Rightarrow> bool \<Rightarrow> minstr list" where
  "ncompile [] al = []"
| "ncompile (Push v # ops) al =
     (if mem_next ops then MovScr v # ncompile ops al
      else if \<not> al then MovAcc v # ncompile ops True
      else MovScr v # ncompile ops al)"
| "ncompile (Do LoadReg # ops) al = MLoad # ncompile ops True"
| "ncompile (Do WriteReg # ops) al = MStore # ncompile ops al"
| "ncompile (Do Add # ops) al = MAdd # ncompile ops True"
| "ncompile (Do Sub # ops) al = MSub # ncompile ops True"
| "ncompile (Do Mul # ops) al = MMul # ncompile ops True"
| "ncompile (Do p # ops) al = []"

fun no_div :: "rpn_op \<Rightarrow> bool" where
  "no_div (Push v) = True"
| "no_div (Do p) = (p \<notin> {Lit, Halt, Div})"

definition emit_instr :: "'e target_emitter \<Rightarrow> arch \<Rightarrow> minstr \<Rightarrow> 'e \<Rightarrow> (EmitError + unit) \<times> 'e" where
  "emit_instr E a i = (case i of
     MovAcc v \<Rightarrow> emit_mov_imm E (ACC a) v
   | MovScr v \<Rightarrow> emit_mov_imm E (SCRATCH a) v
   | MAdd \<Rightarrow> emit_add E (ACC a) (ACC a) (SCRATCH a)
   | MSub \<Rightarrow> emit_sub E (ACC a) (ACC a) (SCRATCH a)
   | MMul \<Rightarrow> emit_mul E (ACC a) (ACC a) (SCRATCH a)
   | MLoad \<Rightarrow> emit_load_u32 E (ACC a) (SCRATCH a)
   | MStore \<Rightarrow> emit_store_u32 E (SCRATCH a) (ACC a))"

lemma lay_inj: "valid_layout lay \<Longrightarrow> lay p = lay q \<longleftrightarrow> p = q"
  by (metis prim_at_lay option.inject)

lemma is_compilable_enc:
  assumes "valid_layout lay" and "list_all plain_op ops" and "length (pre @ enc lay ops) < len"
  shows "is_compilable_from lay (pre @ enc lay ops @ lay Halt # junk) len (length pre) seen = Inr True"
  using assms(2,3)
proof (induction ops arbitrary: pre seen)
  case Nil
  then show ?case by (subst is_compilable_from.simps) (simp add: nth_append)
next
  case (Cons x ops)
  show ?case
  proof (cases x)
    case (Push v)
    with Cons.IH [of "pre @ [lay Lit, v]" True] Cons.prems show ?thesis
      by (subst is_compilable_from.simps) (simp add: nth_append lay_inj [OF assms(1)] assms(1))
  next
    case (Do p)
    have "is_compilable_from lay (pre @ enc lay (x # ops) @ lay Halt # junk) len (length pre) seen
      = is_compilable_from lay (pre @ enc lay (x # ops) @ lay Halt # junk) len (length pre + 1) True"
      using Do Cons.prems
      by (subst is_compilable_from.simps) (cases p; simp add: nth_append lay_inj [OF assms(1)] assms(1))
    then show ?thesis
      using Do Cons.IH [of "pre @ [lay p]" True] Cons.prems by simp
  qed
qed

lemma or_complex_ok: "m em = (Inr u, em') \<Longrightarrow> or_complex m em = (Inr u, em')"
  by (simp add: or_complex_def)

section \<open>The backend contract\<close>

text \<open>
  What the compiler relies on: while there is room, each abstract instruction is emitted, and
  the code gains exactly its effect on the two registers and the bus, but for the value
  \<open>ld v\<close> that the backend really loads for an immediate \<open>v\<close>; the processor runs the finished
  code. \<open>eff e h\<close> is the effect of the code emitted so far, from the registers at the call.
\<close>

locale backend =
  fixes P :: "('e, 'h) platform"
    and inv :: "'e \<Rightarrow> bool" and used :: "'e \<Rightarrow> nat" and cap :: nat
    and eff :: "'e \<Rightarrow> 'h \<Rightarrow> u32 \<times> u32 \<times> 'h"
    and ld :: "u32 \<Rightarrow> u32" and bufs :: "'e \<Rightarrow> bool" and x0 :: u32 and y0 :: u32
  assumes start: "bufs b \<Longrightarrow> inv (into_exec_buffer P b) \<and> used (into_exec_buffer P b) = 0
      \<and> eff (into_exec_buffer P b) h = (x0, y0, h)"
    and emit_law: "inv e \<Longrightarrow> used e + 4 \<le> cap \<Longrightarrow>
      \<exists>e'. emit_instr (emitter_of P) (target P) i e = (Inr (), e') \<and> inv e' \<and> used e' \<le> used e + 4
        \<and> (\<forall>h. eff e' h = mexec (hw P) (with_imm ld i) (eff e h))"
    and ret_law: "inv e \<Longrightarrow> used e < cap \<Longrightarrow>
      \<exists>e'. emit_ret (emitter_of P) e = (Inr (), e') \<and> bufs e'
        \<and> (\<forall>h. cpu P e' h = Some (fst (eff e h), snd (snd (eff e h))))"
begin

abbreviation cloop where
  "cloop ws len ip al e \<equiv> compile_loop (emitter_of P) (target P) (layout P) ws len ip al e"

lemma emit_then:
  assumes "inv e" "used e + 4 \<le> cap" and "m = emit_instr (emitter_of P) (target P) i"
  obtains e' where "try_then (or_complex m) k e = k e'" "inv e'" "used e' \<le> used e + 4"
    "\<And>h. eff e' h = mexec (hw P) (with_imm ld i) (eff e h)"
  using emit_law [OF assms(1,2)] assms(3) by (metis or_complex_ok try_then_ok)

lemma cloop_step:
  assumes "valid_layout (layout P)" and "no_div x"
    and "length (pre @ enc (layout P) (x # ops)) < len"
    and "ws = pre @ enc (layout P) (x # ops) @ layout P Halt # junk"
  obtains i al' where "ncompile (x # ops) al = i # ncompile ops al'"
    "\<And>e. cloop ws len (length pre) al e
      = try_then (or_complex (emit_instr (emitter_of P) (target P) i))
          (\<lambda>e. cloop ws len (length (pre @ enc_op (layout P) x)) al' e) e"
proof -
  have "\<exists>i al'. ncompile (x # ops) al = i # ncompile ops al' \<and>
    (\<forall>e. cloop ws len (length pre) al e
      = try_then (or_complex (emit_instr (emitter_of P) (target P) i))
          (\<lambda>e. cloop ws len (length (pre @ enc_op (layout P) x)) al' e) e)"
  proof (cases x)
    case (Push v)
    have nxt: "ws ! (length pre + 2) = layout P (case ops of [] \<Rightarrow> Halt | Push _ # _ \<Rightarrow> Lit | Do p # _ \<Rightarrow> p)"
      using assms(4) Push by (cases ops) (auto simp: nth_append split: rpn_op.splits)
    show ?thesis
      using assms Push nxt
      by (subst compile_loop.simps)
        (auto simp: nth_append lay_inj emit_instr_def split: list.splits rpn_op.splits)
  next
    case (Do p)
    then show ?thesis
      using assms
      by (subst compile_loop.simps) (cases p; fastforce simp: nth_append lay_inj emit_instr_def)
  qed
  then show ?thesis using that by blast
qed

lemma cloop_correct:
  assumes "valid_layout (layout P)" and "list_all no_div ops" and "length (pre @ enc (layout P) ops) < len"
    and "inv e" and "used e + 4 * length ops \<le> cap"
  shows "\<exists>e'. cloop (pre @ enc (layout P) ops @ layout P Halt # junk) len (length pre) al e = (Inr (), e')
    \<and> inv e' \<and> used e' \<le> used e + 4 * length ops \<and> (\<forall>h. eff e' h = mrun (hw P) (map (with_imm ld) (ncompile ops al)) (eff e h))"
  using assms(2-)
proof (induction ops arbitrary: pre al e)
  case Nil
  then show ?case
    using assms(1) by (intro exI [of _ e]) (subst compile_loop.simps, simp add: nth_append)
next
  case (Cons x ops)
  let ?ws = "pre @ enc (layout P) (x # ops) @ layout P Halt # junk"
  have x: "no_div x" using Cons.prems(1) by simp
  obtain i al' where i: "ncompile (x # ops) al = i # ncompile ops al'"
    "\<And>e. cloop ?ws len (length pre) al e
      = try_then (or_complex (emit_instr (emitter_of P) (target P) i))
          (\<lambda>e. cloop ?ws len (length (pre @ enc_op (layout P) x)) al' e) e"
    using cloop_step [OF assms(1) x Cons.prems(2) refl] by metis
  have "used e + 4 \<le> cap" using Cons.prems(4) by simp
  from emit_then [OF Cons.prems(3) this refl] obtain e1 where e1:
    "cloop ?ws len (length pre) al e = cloop ?ws len (length (pre @ enc_op (layout P) x)) al' e1"
    "inv e1" "used e1 \<le> used e + 4" "\<And>h. eff e1 h = mexec (hw P) (with_imm ld i) (eff e h)"
    using i(2) by metis
  have "\<exists>e'. cloop ((pre @ enc_op (layout P) x) @ enc (layout P) ops @ layout P Halt # junk) len
      (length (pre @ enc_op (layout P) x)) al' e1 = (Inr (), e')
    \<and> inv e' \<and> used e' \<le> used e1 + 4 * length ops
    \<and> (\<forall>h. eff e' h = mrun (hw P) (map (with_imm ld) (ncompile ops al')) (eff e1 h))"
    using Cons.prems i(1) e1 by (intro Cons.IH) simp_all
  then show ?case using e1 i(1) by auto
qed

text \<open>Every well-formed stream that fits compiles, and the processor does what the
  two-register code says.\<close>

lemma compile_and_run_correct:
  assumes "valid_layout (layout P)" and "list_all no_div ops" and "length (enc (layout P) ops) < len"
    and "bufs b" and "4 * length ops < cap"
  shows "\<exists>b'. compile_and_run P (enc (layout P) ops @ layout P Halt # junk) len yields b h
      = Some (Inr (if yields then Some (fst (mrun (hw P) (map (with_imm ld) (ncompile ops False)) (x0, y0, h))) else None),
          b', snd (snd (mrun (hw P) (map (with_imm ld) (ncompile ops False)) (x0, y0, h)))) \<and> bufs b'"
proof -
  let ?ws = "enc (layout P) ops @ layout P Halt # junk" and ?e0 = "into_exec_buffer P b"
  have plain: "list_all plain_op ops"
    using assms(2) by (rule list.pred_mono_strong) (case_tac z; simp)
  have c: "is_compilable (layout P) ?ws len = Inr True"
    using is_compilable_enc [OF assms(1) plain, of "[]" len junk False] assms(3)
    by (simp add: is_compilable_def)
  obtain e1 where e1: "cloop ?ws len 0 False ?e0 = (Inr (), e1)" "inv e1" "used e1 \<le> 4 * length ops"
    "\<And>h. eff e1 h = mrun (hw P) (map (with_imm ld) (ncompile ops False)) (x0, y0, h)"
    using cloop_correct [OF assms(1,2), where pre = "[]" and len = len and e = ?e0 and al = False and junk = junk] assms(3-) start [OF assms(4)] by auto
  obtain e2 where e2: "emit_ret (emitter_of P) e1 = (Inr (), e2)" "bufs e2"
    "\<And>h. cpu P e2 h = Some (fst (eff e1 h), snd (snd (eff e1 h)))"
    using ret_law [OF e1(2)] e1(3) assms(5) by auto
  show ?thesis
    using e1 e2 by (simp add: compile_and_run_def c try_then_ok or_complex_ok)
qed

end

section \<open>Both backends keep the contract\<close>

lemma buf_split: "em_ok e \<Longrightarrow> em_buf e = code e @ drop (len_words e) (em_buf e)"
  by (simp add: code_def)

lemma code_fresh [simp]: "code (t2_into_exec_buffer b) = []" "code (rv_into_exec_buffer b') = []"
  by (simp_all add: code_def t2_into_exec_buffer_def rv_into_exec_buffer_def)

text \<open>The effect of the code emitted so far, and the invariant that it has one.\<close>

definition fall_eff :: "('w list \<Rightarrow> regs \<times> 'h \<Rightarrow> (regs \<times> 'h) option) \<Rightarrow> nat \<Rightarrow> nat \<Rightarrow> regs
    \<Rightarrow> 'w emitter \<Rightarrow> 'h \<Rightarrow> u32 \<times> u32 \<times> 'h" where
  "fall_eff fall x y r0 e h = (case the (fall (code e) (r0, h)) of (r, h') \<Rightarrow> (r x, r y, h'))"

definition fall_inv :: "('w list \<Rightarrow> regs \<times> 'h \<Rightarrow> (regs \<times> 'h) option) \<Rightarrow> nat \<Rightarrow> regs \<Rightarrow> 'w emitter \<Rightarrow> bool" where
  "fall_inv fall n r0 e \<longleftrightarrow> em_ok e \<and> cap_words e = n \<and> (\<forall>h. fall (code e) (r0, h) \<noteq> None)"

text \<open>
  Both instruction sets run straight-line code compositionally. \<open>fall\<close> runs code to its end
  and \<open>run\<close> up to the return \<open>retw\<close>; \<open>x\<close> and \<open>y\<close> are the accumulator and the scratch
  register, \<open>n\<close> the capacity of the buffer.
\<close>

locale straight_line =
  fixes fall :: "'w list \<Rightarrow> regs \<times> 'h \<Rightarrow> (regs \<times> 'h) option"
    and run :: "'w list \<Rightarrow> regs \<times> 'h \<Rightarrow> (regs \<times> 'h) option"
    and retw :: 'w
  assumes fall_Nil: "fall [] c = Some c"
    and fall_append: "fall ws c = Some c' \<Longrightarrow> fall (ws @ zs) c = fall zs c'"
    and run_fall: "fall ws c = Some c' \<Longrightarrow> run (ws @ retw # zs) c = Some c'"
begin

lemma fresh:
  assumes "em_ok e" "cap_words e = n" "code e = []"
  shows "fall_inv fall n r0 e" "fall_eff fall x y r0 e h = (r0 x, r0 y, h)"
  using assms by (simp_all add: fall_inv_def fall_eff_def fall_Nil)

lemma extend:
  assumes "fall_inv fall n r0 e" and "emits m ws" and "length ws \<le> 4" and "len_words e + 4 \<le> n"
    and "\<And>r h. \<exists>r' h'. fall ws (r, h) = Some (r', h') \<and> (r' x, r' y, h') = mexec B i (r x, r y, h)"
  shows "\<exists>e'. m e = (Inr (), e') \<and> fall_inv fall n r0 e' \<and> len_words e' \<le> len_words e + 4
    \<and> (\<forall>h. fall_eff fall x y r0 e' h = mexec B i (fall_eff fall x y r0 e h))"
proof -
  have e: "em_ok e" "cap_words e = n" using assms(1) by (simp_all add: fall_inv_def)
  then have "length (code e) + length ws \<le> cap_words e" using assms(3,4) by simp
  from emitsD [OF assms(2) e(1) this] obtain e' where
    e': "m e = (Inr (), e')" "em_ok e'" "code e' = code e @ ws" "cap_words e' = n" using e(2) by metis
  have len: "len_words e' = len_words e + length ws"
    using e'(2,3) e(1) by (metis length_append length_code)
  have step: "\<exists>r h1 r' h'. fall (code e) (r0, h) = Some (r, h1) \<and> fall (code e') (r0, h) = Some (r', h')
      \<and> (r' x, r' y, h') = mexec B i (r x, r y, h1)" for h
  proof -
    obtain r h1 where "fall (code e) (r0, h) = Some (r, h1)"
      using assms(1) unfolding fall_inv_def by (metis not_None_eq surj_pair)
    with assms(5) [of r h1] show ?thesis by (metis e'(3) fall_append)
  qed
  have "fall (code e') (r0, h) \<noteq> None" for h using step [of h] by auto
  then have "fall_inv fall n r0 e'" using e' by (simp add: fall_inv_def)
  moreover have "fall_eff fall x y r0 e' h = mexec B i (fall_eff fall x y r0 e h)" for h
    using step [of h] by (auto simp: fall_eff_def)
  ultimately show ?thesis using e'(1) len assms(3) by auto
qed

lemma finish:
  assumes "fall_inv fall n r0 e" and "emits m [retw]" and "len_words e < n"
  shows "\<exists>e'. m e = (Inr (), e') \<and> n \<le> length (em_buf e')
    \<and> (\<forall>h. \<exists>r h'. run (em_buf e') (r0, h) = Some (r, h') \<and> (r x, r y, h') = fall_eff fall x y r0 e h)"
proof -
  have e: "em_ok e" "cap_words e = n" using assms(1) by (simp_all add: fall_inv_def)
  then have "length (code e) + length [retw] \<le> cap_words e" using assms(3) by simp
  from emitsD [OF assms(2) e(1) this] obtain e' where
    e': "m e = (Inr (), e')" "em_ok e'" "code e' = code e @ [retw]" "cap_words e' = n"
    using e(2) by metis
  have "\<exists>r h'. run (em_buf e') (r0, h) = Some (r, h') \<and> (r x, r y, h') = fall_eff fall x y r0 e h" for h
  proof -
    obtain r h1 where f: "fall (code e) (r0, h) = Some (r, h1)"
      using assms(1) unfolding fall_inv_def by (metis not_None_eq surj_pair)
    have "em_buf e' = code e @ retw # drop (len_words e') (em_buf e')"
      using buf_split [OF e'(2)] e'(3) by simp
    then have "run (em_buf e') (r0, h) = Some (r, h1)" using run_fall [OF f] by metis
    then show ?thesis by (simp add: fall_eff_def f)
  qed
  moreover have "n \<le> length (em_buf e')" using e'(2,4) by (simp add: em_ok_def)
  ultimately show ?thesis using e'(1) by auto
qed

end

interpretation thumb_code: straight_line "t_fall B" "t_run B" "0x4770" for B
  by unfold_locales (simp_all add: t_fall_append t_run_fall t_run_ret)

interpretation rv_code: straight_line "r_fall B" "r_run B" RV32_RET for B
  by unfold_locales (simp_all add: r_fall_append r_run_fall r_run_ret)

subsection \<open>Thumb-2, on r0 and r1\<close>

lemma arm_code:
  "\<exists>ws. emits (emit_instr thumb2 Arm i) ws \<and> length ws \<le> 4 \<and>
    (\<forall>r h. \<exists>r' h'. t_fall B ws (r, h) = Some (r', h') \<and> (r' 0, r' 1, h') = mexec B i (r 0, r 1, h))"
proof (cases i)
  case (MovAcc v)
  then show ?thesis
    by (intro exI [of _ "t2_mov_code 0 v"])
      (simp add: emit_instr_def thumb2_def emits_t2_mov t2_mov_code_length t2_mov_code_runs)
next
  case (MovScr v)
  then show ?thesis
    by (intro exI [of _ "t2_mov_code 1 v"])
      (simp add: emit_instr_def thumb2_def emits_t2_mov t2_mov_code_length t2_mov_code_runs)
next
  case MAdd
  then show ?thesis
    by (intro exI [of _ "t2_add_code 0 0 1"])
      (simp add: emit_instr_def thumb2_def emits_t2_addsub t2_addsub_code_runs, simp add: t2_add_code_def)
next
  case MSub
  then show ?thesis
    by (intro exI [of _ "t2_sub_code 0 0 1"])
      (simp add: emit_instr_def thumb2_def emits_t2_addsub t2_addsub_code_runs, simp add: t2_sub_code_def)
next
  case MMul
  then show ?thesis
    by (intro exI [of _ "t2_mul_code 0 0 1"])
      (simp add: emit_instr_def thumb2_def emits_t2_mul t2_mul_code_runs, simp add: t2_mul_code_def)
next
  case MLoad
  then show ?thesis
    by (intro exI [of _ "t2_ldr_code 0 1"])
      (simp add: emit_instr_def thumb2_def emits_t2_mem t2_mem_code_runs, simp add: t2_ldr_code_def)
next
  case MStore
  then show ?thesis
    by (intro exI [of _ "t2_str_code 1 0"])
      (simp add: emit_instr_def thumb2_def emits_t2_mem t2_mem_code_runs, simp add: t2_str_code_def)
qed

interpretation arm: backend "arm_platform lay B r0" "fall_inv (t_fall B) 2048 r0" len_words 2048
  "fall_eff (t_fall B) 0 1 r0" "\<lambda>v. v" "\<lambda>e. 2048 \<le> length (em_buf e)" "r0 0" "r0 1" for lay B r0
proof
  fix b e :: Thumb2Emitter and h and i :: minstr
  let ?P = "arm_platform lay B r0"
  show "fall_inv (t_fall B) 2048 r0 (into_exec_buffer ?P b) \<and> len_words (into_exec_buffer ?P b) = 0
      \<and> fall_eff (t_fall B) 0 1 r0 (into_exec_buffer ?P b) h = (r0 0, r0 1, h)"
    if "2048 \<le> length (em_buf b)"
    using that by (simp add: arm_platform_def thumb_code.fresh t2_into_exec_buffer_def em_ok_def code_def)
  show "\<exists>e'. emit_instr (emitter_of ?P) (target ?P) i e = (Inr (), e') \<and> fall_inv (t_fall B) 2048 r0 e'
      \<and> len_words e' \<le> len_words e + 4
      \<and> (\<forall>h. fall_eff (t_fall B) 0 1 r0 e' h = mexec (hw ?P) (with_imm (\<lambda>v. v) i) (fall_eff (t_fall B) 0 1 r0 e h))"
    if "fall_inv (t_fall B) 2048 r0 e" "len_words e + 4 \<le> 2048"
  proof -
    obtain ws where "emits (emit_instr thumb2 Arm i) ws" "length ws \<le> 4"
      "\<And>r h. \<exists>r' h'. t_fall B ws (r, h) = Some (r', h') \<and> (r' 0, r' 1, h') = mexec B i (r 0, r 1, h)"
      using arm_code [of i B] by blast
    from thumb_code.extend [OF that(1) this(1,2) that(2) this(3)] show ?thesis
      by (simp add: arm_platform_def)
  qed
  show "\<exists>e'. emit_ret (emitter_of ?P) e = (Inr (), e') \<and> 2048 \<le> length (em_buf e')
      \<and> (\<forall>h. cpu ?P e' h = Some (fst (fall_eff (t_fall B) 0 1 r0 e h), snd (snd (fall_eff (t_fall B) 0 1 r0 e h))))"
    if "fall_inv (t_fall B) 2048 r0 e" "len_words e < 2048"
    using thumb_code.finish [OF that(1) emits_push16 that(2), of 0 1]
    by (auto simp: arm_platform_def thumb2_def t2_ret_def) (metis fst_conv snd_conv)
qed

subsection \<open>RV32I, on a0 and a1\<close>

lemma rv_code_of:
  "\<exists>ws. emits (emit_instr rv32 Riscv32 i) ws \<and> length ws \<le> 4 \<and>
    (\<forall>r h. \<exists>r' h'. r_fall B ws (r, h) = Some (r', h') \<and> (r' 10, r' 11, h') = mexec B (with_imm rv_loaded i) (r 10, r 11, h))"
proof (cases i)
  case (MovAcc v)
  then show ?thesis
    using le_trans [OF rv_mov_code_length, of 4 10 v]
    by (intro exI [of _ "rv_mov_code 10 v"]) (simp add: emit_instr_def rv32_def emits_rv_mov rv_mov_code_runs)
next
  case (MovScr v)
  then show ?thesis
    using le_trans [OF rv_mov_code_length, of 4 11 v]
    by (intro exI [of _ "rv_mov_code 11 v"]) (simp add: emit_instr_def rv32_def emits_rv_mov rv_mov_code_runs)
next
  case MAdd
  then show ?thesis
    by (intro exI [of _ "[encode_rtype_addsub 10 10 11 False]"])
      (simp add: emit_instr_def rv32_def emits_rv_arith rv_arith_code_runs)
next
  case MSub
  then show ?thesis
    by (intro exI [of _ "[encode_rtype_addsub 10 10 11 True]"])
      (simp add: emit_instr_def rv32_def emits_rv_arith rv_arith_code_runs)
next
  case MMul
  then show ?thesis
    by (intro exI [of _ "[encode_rtype 10 10 11 1 0]"])
      (simp add: emit_instr_def rv32_def emits_rv_arith rv_arith_code_runs)
next
  case MLoad
  then show ?thesis
    by (intro exI [of _ "[the (encode_lw 10 11 0)]"])
      (simp add: emit_instr_def rv32_def emits_rv_mem rv_mem_code_runs)
next
  case MStore
  then show ?thesis
    by (intro exI [of _ "[the (encode_sw 11 10 0)]"])
      (simp add: emit_instr_def rv32_def emits_rv_mem rv_mem_code_runs)
qed

interpretation rv: backend "riscv_platform lay B r0" "fall_inv (r_fall B) 256 r0" len_words 256
  "fall_eff (r_fall B) 10 11 r0" rv_loaded "\<lambda>e. 256 \<le> length (em_buf e)" "r0 10" "r0 11" for lay B r0
proof
  fix b e :: Riscv32Emitter and h and i :: minstr
  let ?P = "riscv_platform lay B r0"
  show "fall_inv (r_fall B) 256 r0 (into_exec_buffer ?P b) \<and> len_words (into_exec_buffer ?P b) = 0
      \<and> fall_eff (r_fall B) 10 11 r0 (into_exec_buffer ?P b) h = (r0 10, r0 11, h)"
    if "256 \<le> length (em_buf b)"
    using that by (simp add: riscv_platform_def rv_code.fresh rv_into_exec_buffer_def em_ok_def code_def)
  show "\<exists>e'. emit_instr (emitter_of ?P) (target ?P) i e = (Inr (), e') \<and> fall_inv (r_fall B) 256 r0 e'
      \<and> len_words e' \<le> len_words e + 4
      \<and> (\<forall>h. fall_eff (r_fall B) 10 11 r0 e' h = mexec (hw ?P) (with_imm rv_loaded i) (fall_eff (r_fall B) 10 11 r0 e h))"
    if "fall_inv (r_fall B) 256 r0 e" "len_words e + 4 \<le> 256"
  proof -
    obtain ws where "emits (emit_instr rv32 Riscv32 i) ws" "length ws \<le> 4"
      "\<And>r h. \<exists>r' h'. r_fall B ws (r, h) = Some (r', h') \<and> (r' 10, r' 11, h') = mexec B (with_imm rv_loaded i) (r 10, r 11, h)"
      using rv_code_of [of i B] by blast
    from rv_code.extend [OF that(1) this(1,2) that(2) this(3)] show ?thesis
      by (simp add: riscv_platform_def)
  qed
  show "\<exists>e'. emit_ret (emitter_of ?P) e = (Inr (), e') \<and> 256 \<le> length (em_buf e')
      \<and> (\<forall>h. cpu ?P e' h = Some (fst (fall_eff (r_fall B) 10 11 r0 e h), snd (snd (fall_eff (r_fall B) 10 11 r0 e h))))"
    if "fall_inv (r_fall B) 256 r0 e" "len_words e < 256"
    using rv_code.finish [OF that(1) emits_push32 that(2), of 10 11]
    by (auto simp: riscv_platform_def rv32_def rv_ret_def) (metis fst_conv snd_conv)
qed

section \<open>Function bodies\<close>

text \<open>The streams of the parser: at most one write of a literal to a literal address, then
  reads of literal addresses.\<close>

definition poke_ops :: "usize \<Rightarrow> usize \<Rightarrow> rpn_op list" where
  "poke_ops addr val = [Push addr, Push val, Do WriteReg]"

definition peek_ops :: "usize list \<Rightarrow> rpn_op list" where
  "peek_ops addrs = concat (map (\<lambda>a. [Push a, Do LoadReg]) addrs)"

fun read_all :: "'h bus \<Rightarrow> usize list \<Rightarrow> 'h \<Rightarrow> 'h" where
  "read_all B [] h = h"
| "read_all B (a # as) h = read_all B as (snd (rd B a h))"

lemma peek_ops_simps [simp]:
  "peek_ops [] = []" "peek_ops (a # as) = Push a # Do LoadReg # peek_ops as"
  by (simp_all add: peek_ops_def)

lemma poke_ops_shape [simp]:
  "list_all no_div (poke_ops a v)" "list_all plain_op (poke_ops a v)" "length (poke_ops a v) = 3"
  by (simp_all add: poke_ops_def)

lemma peek_ops_shape [simp]:
  "list_all no_div (peek_ops as)" "list_all plain_op (peek_ops as)" "length (peek_ops as) = 2 * length as"
  by (induction as) simp_all

lemma map_with_imm_id [simp]: "map (with_imm (\<lambda>v. v)) is = is"
  by (simp add: map_idI)

lemma peeks_native:
  "snd (snd (mrun B (ncompile (peek_ops as) al) (x, y, h))) = read_all B as h"
  by (induction as arbitrary: al x y h) simp_all

lemma peeks_threaded:
  "length st + length as \<le> VM_STACK_SIZE \<Longrightarrow> snd (rpn B (peek_ops as) (st, h)) = read_all B as h"
  by (induction as arbitrary: st h) (auto simp: arg1_def)

lemma ncompile_poke: "ncompile (poke_ops a v @ ops) False = MovAcc a # MovScr v # MStore # ncompile ops True"
  by (simp add: poke_ops_def)

lemma vm_reset_wf [simp]: "wf_vm s \<Longrightarrow> wf_vm (vm_reset s)" "vm_list (vm_reset s) = []"
  by (simp_all add: wf_vm_def vm_reset_def vm_list_def)

text \<open>The stream of a program, as the compiler leaves it: halt, then unused words.\<close>

definition stream_of :: "(prim \<Rightarrow> usize) \<Rightarrow> rpn_op list \<Rightarrow> usize list \<Rightarrow> bool \<Rightarrow> StreamProgram" where
  "stream_of lay ops junk yields =
     \<lparr>prog_words = enc lay ops @ lay Halt # junk, prog_len = length (enc lay ops) + 1, yields_value = yields\<rparr>"

lemma stream_of_nonempty: "\<not> prog_is_empty (stream_of lay ops junk yields)"
  by (simp add: prog_is_empty_def stream_of_def)

lemma arm_program_run:
  assumes "valid_layout lay" and "list_all no_div ops" and "2048 \<le> length (em_buf b)" and "length ops < 512"
  shows "\<exists>b'. program_run (arm_platform lay B r0) (stream_of lay ops junk yields) s b h
    = Some (Inr (if yields then Some (fst (mrun B (ncompile ops False) (r0 0, r0 1, h))) else None),
        vm_reset s, b', snd (snd (mrun B (ncompile ops False) (r0 0, r0 1, h)))) \<and> 2048 \<le> length (em_buf b')"
  using arm.compile_and_run_correct [where lay = lay and B = B and ?r0.0 = r0 and ops = ops and h = h
      and len = "length (enc lay ops) + 1" and b = b and junk = junk and yields = yields] assms
  by (auto simp: program_run_def stream_of_def arm_platform_def Let_def)

lemma riscv_program_run:
  assumes "valid_layout lay" and "list_all no_div ops" and "256 \<le> length (em_buf b)" and "length ops < 64"
  shows "\<exists>b'. program_run (riscv_platform lay B r0) (stream_of lay ops junk yields) s b h
    = Some (Inr (if yields then Some (fst (mrun B (map (with_imm rv_loaded) (ncompile ops False)) (r0 10, r0 11, h))) else None),
        vm_reset s, b', snd (snd (mrun B (map (with_imm rv_loaded) (ncompile ops False)) (r0 10, r0 11, h))))
      \<and> 256 \<le> length (em_buf b')"
  using rv.compile_and_run_correct [where lay = lay and B = B and ?r0.0 = r0 and ops = ops and h = h
      and len = "length (enc lay ops) + 1" and b = b and junk = junk and yields = yields] assms
  by (auto simp: program_run_def stream_of_def riscv_platform_def Let_def)

section \<open>Properties\<close>

text \<open>Expression values survive native execution on ARM. The program that the parser
  builds for an expression value (push it, halt) runs natively, whatever the executable buffer,
  the registers, the operand stack and the unused stream words held, returns exactly that value
  for all 2^32 of them, touches no hardware, and leaves the buffer usable for the next one.\<close>

lemma arm_value_program:
  assumes "valid_layout lay" and "2048 \<le> length (em_buf b)"
  shows "\<exists>b'. program_run (arm_platform lay B r0) (stream_of lay [Push v] junk True) s b h
    = Some (Inr (Some v), vm_reset s, b', h) \<and> 2048 \<le> length (em_buf b')"
  using arm_program_run [OF assms(1), of "[Push v]" b B r0 junk True s h] assms(2) by simp

text \<open>On RISC-V the same program returns its value if and only if the value is a signed
  12-bit number; any other expression prints a wrong result.\<close>

lemma riscv_value_program:
  assumes "valid_layout lay" and "256 \<le> length (em_buf b)"
  shows "\<exists>b' w. program_run (riscv_platform lay B r0) (stream_of lay [Push v] junk True) s b h
    = Some (Inr (Some w), vm_reset s, b', h) \<and> (w = v \<longleftrightarrow> signed12 v)"
  using riscv_program_run [OF assms(1), of "[Push v]" b B r0 junk True s h] assms(2) rv_loaded_iff [of v]
  by auto

text \<open>C19: on ARM, native execution of a function body of at most one leading \<open>poke\<close> followed by
  \<open>peek\<close>s has the same effect on the hardware as threaded dispatch of the same stream: the same
  writes and the same reads, in the same order.\<close>

theorem native_body_agrees:
  assumes "valid_layout lay" and "2048 \<le> length (em_buf b)" and "wf_vm s" and "length as \<le> 62"
    and "ops = (case p of None \<Rightarrow> [] | Some (a, v) \<Rightarrow> poke_ops a v) @ peek_ops as"
  shows "\<exists>b' s' h'. program_run (arm_platform lay B r0) (stream_of lay ops junk False) s b h
      = Some (Inr None, vm_reset s, b', h')
    \<and> run_threaded_stream lay B (enc lay ops @ lay Halt # junk) 0 (vm_reset s) h = Some (s', h')"
proof -
  have ops: "list_all no_div ops" "list_all plain_op ops" "length ops < 512"
    using assms(4,5) by (auto split: option.splits)
  have "snd (snd (mrun B (ncompile ops False) (r0 0, r0 1, h))) = snd (rpn B ops ([], h))"
    using assms(4,5)
    by (auto simp: peeks_native peeks_threaded ncompile_poke VM_STACK_SIZE_def rpn_append split: option.splits)
      (simp add: poke_ops_def arg1_def arg2_def peeks_threaded VM_STACK_SIZE_def)
  moreover obtain s' where "run_threaded_stream lay B (enc lay ops @ lay Halt # junk) 0 (vm_reset s) h
      = Some (s', snd (rpn B ops ([], h)))"
    using run_enc [OF assms(1) vm_reset_wf(1) [OF assms(3)] ops(2), of B "[]" junk h] by auto
  moreover obtain b' where "program_run (arm_platform lay B r0) (stream_of lay ops junk False) s b h
      = Some (Inr None, vm_reset s, b', snd (snd (mrun B (ncompile ops False) (r0 0, r0 1, h))))"
    using arm_program_run [OF assms(1) ops(1) assms(2) ops(3), of B r0 junk False s h] by auto
  ultimately show ?thesis by auto
qed

theorem native_body_agrees_witness:
  "\<exists>b' s' h'. program_run (arm_platform example_layout ram_bus (\<lambda>_. 0))
      (stream_of example_layout (poke_ops 0x40010800 5 @ peek_ops [0x40010808]) [] False)
      vm_init (t2_into_exec_buffer (replicate 2048 0)) (\<lambda>_. 0) = Some (Inr None, vm_reset vm_init, b', h')
    \<and> run_threaded_stream example_layout ram_bus
      (enc example_layout (poke_ops 0x40010800 5 @ peek_ops [0x40010808]) @ [example_layout Halt]) 0
      (vm_reset vm_init) (\<lambda>_. 0) = Some (s', h')"
  using native_body_agrees [OF example_layout_valid, of "t2_into_exec_buffer (replicate 2048 0)" vm_init
      "[0x40010808]" "poke_ops 0x40010800 5 @ peek_ops [0x40010808]" "Some (0x40010800, 5)" ram_bus "\<lambda>_. 0" "[]" "\<lambda>_. 0"]
  by (simp add: t2_into_exec_buffer_def)

text \<open>A \<open>poke\<close> that is not the first statement of a body writes to the wrong place when it
  runs natively. The accumulator is taken as loaded and keeps its old contents: after a first
  \<open>poke a v\<close> the second writes to \<open>a\<close> again, and after a \<open>peek a\<close> it writes to the address
  that was just read from \<open>a\<close>. Threaded dispatch writes to the address that the source names.\<close>

lemma native_later_poke_misdirected:
  assumes "valid_layout lay" and "2048 \<le> length (em_buf b)" and "wf_vm s"
  shows "(\<exists>b'. program_run (arm_platform lay B r0) (stream_of lay (poke_ops a v @ poke_ops a2 v2) junk False) s b h
      = Some (Inr None, vm_reset s, b', wr B a v2 (wr B a v h)))
    \<and> (\<exists>b'. program_run (arm_platform lay B r0) (stream_of lay (peek_ops [a] @ poke_ops a2 v2) junk False) s b h
      = Some (Inr None, vm_reset s, b', wr B (fst (rd B a h)) v2 (snd (rd B a h))))
    \<and> (\<exists>s'. run_threaded_stream lay B (enc lay (poke_ops a v @ poke_ops a2 v2) @ lay Halt # junk) 0 (vm_reset s) h
      = Some (s', wr B a2 v2 (wr B a v h)))"
proof (intro conjI)
  show "\<exists>b'. program_run (arm_platform lay B r0) (stream_of lay (poke_ops a v @ poke_ops a2 v2) junk False) s b h
      = Some (Inr None, vm_reset s, b', wr B a v2 (wr B a v h))"
    using arm_program_run [OF assms(1) _ assms(2), of "poke_ops a v @ poke_ops a2 v2" B r0 junk False s h]
    by (auto simp: ncompile_poke) (auto simp: poke_ops_def)
  show "\<exists>b'. program_run (arm_platform lay B r0) (stream_of lay (peek_ops [a] @ poke_ops a2 v2) junk False) s b h
      = Some (Inr None, vm_reset s, b', wr B (fst (rd B a h)) v2 (snd (rd B a h)))"
    using arm_program_run [OF assms(1) _ assms(2), of "peek_ops [a] @ poke_ops a2 v2" B r0 junk False s h]
    by (auto simp: poke_ops_def)
  have "snd (rpn B (poke_ops a v @ poke_ops a2 v2) ([], h)) = wr B a2 v2 (wr B a v h)"
    by (simp add: poke_ops_def arg1_def arg2_def VM_STACK_SIZE_def)
  then show "\<exists>s'. run_threaded_stream lay B (enc lay (poke_ops a v @ poke_ops a2 v2) @ lay Halt # junk) 0
      (vm_reset s) h = Some (s', wr B a2 v2 (wr B a v h))"
    using run_enc [OF assms(1) vm_reset_wf(1) [OF assms(3)], of "poke_ops a v @ poke_ops a2 v2" B "[]" junk h]
    by auto
qed

end
