(* ===== verification/Symtab.thy ===== *)
theory Symtab
  imports Prelude
begin

text \<open>
  Names and the symbol table of the compiler (src/compiler/parser.rs): fixed-capacity
  identifiers, the FNV-1a hash and the open-addressing table without deletion. The table is
  refined to a finite map, and the interface that the parser relies on is the locale
  \<open>symbol_map\<close>.
\<close>

section \<open>Names\<close>

definition SYMBOL_SLOTS :: nat where "SYMBOL_SLOTS = 32"
definition NAME_MAX :: nat where "NAME_MAX = 16"

datatype ParseError =
    LexError string
  | UnexpectedToken
  | UnsupportedOperator u8
  | UnknownSymbol
  | DuplicateFn
  | SymbolTableFull
  | FnTableFull
  | StreamFull
  | NameTooLong
  | DivByZero
  | MissingSemicolon
  | EmptyLine
  | CapabilityViolation

record NameBuf =
  nb_len :: u8
  nb_bytes :: "u8 list"

definition from_slice :: "u8 list \<Rightarrow> ParseError + NameBuf" where
  "from_slice name =
     (if NAME_MAX < length name then Inl NameTooLong
      else Inr \<lparr>nb_len = of_nat (length name), nb_bytes = copy_prefix name (replicate NAME_MAX 0)\<rparr>)"

definition as_slice :: "NameBuf \<Rightarrow> u8 list" where
  "as_slice n = take (unat (nb_len n)) (nb_bytes n)"

definition eq_bytes :: "NameBuf \<Rightarrow> u8 list \<Rightarrow> bool" where
  "eq_bytes n other \<longleftrightarrow> as_slice n = other"

section \<open>The table\<close>

record Symbol =
  sym_used :: bool
  name_len :: u8
  sym_name :: "u8 list"
  sym_value :: u32

definition EMPTY_SYMBOL :: Symbol where
  "EMPTY_SYMBOL = \<lparr>sym_used = False, name_len = 0, sym_name = replicate NAME_MAX 0, sym_value = 0\<rparr>"

definition fnv1a :: "u8 list \<Rightarrow> u32" where
  "fnv1a name = foldl (\<lambda>h b. (h XOR ucast b) * 0x01000193) 0x811C9DC5 name"

definition hash :: "u8 list \<Rightarrow> nat" where
  "hash name = unat (fnv1a name) mod SYMBOL_SLOTS"

definition name_matches :: "Symbol \<Rightarrow> u8 list \<Rightarrow> bool" where
  "name_matches s name \<longleftrightarrow> unat (name_len s) = length name \<and> take (length name) (sym_name s) = name"

text \<open>The loops over \<open>0..SYMBOL_SLOTS\<close>; the list holds the remaining steps.\<close>

fun lookup_loop :: "Symbol list \<Rightarrow> u8 list \<Rightarrow> nat \<Rightarrow> nat list \<Rightarrow> u32 option" where
  "lookup_loop syms name start [] = None"
| "lookup_loop syms name start (step # steps) =
     (let i = (start + step) mod SYMBOL_SLOTS; s = syms ! i in
      if \<not> sym_used s then None
      else if name_matches s name then Some (sym_value s)
      else lookup_loop syms name start steps)"

definition lookup_symbol :: "Symbol list \<Rightarrow> u8 list \<Rightarrow> u32 option" where
  "lookup_symbol syms name = lookup_loop syms name (hash name) [0..<SYMBOL_SLOTS]"

fun insert_loop :: "Symbol list \<Rightarrow> u8 list \<Rightarrow> u32 \<Rightarrow> nat \<Rightarrow> nat list \<Rightarrow> (ParseError + unit) \<times> Symbol list" where
  "insert_loop syms bytes value start [] = (Inl SymbolTableFull, syms)"
| "insert_loop syms bytes value start (step # steps) =
     (let i = (start + step) mod SYMBOL_SLOTS; s = syms ! i in
      if \<not> sym_used s \<or> name_matches s bytes then
        (Inr (), syms[i := s\<lparr>sym_used := True, name_len := of_nat (length bytes),
           sym_name := copy_prefix bytes (sym_name s), sym_value := value\<rparr>])
      else insert_loop syms bytes value start steps)"

definition insert_symbol :: "Symbol list \<Rightarrow> NameBuf \<Rightarrow> u32 \<Rightarrow> (ParseError + unit) \<times> Symbol list" where
  "insert_symbol syms name value =
     (let bytes = as_slice name in insert_loop syms bytes value (hash bytes) [0..<SYMBOL_SLOTS])"

section \<open>Name buffers\<close>

definition wf_name :: "NameBuf \<Rightarrow> bool" where
  "wf_name n \<longleftrightarrow> length (nb_bytes n) = NAME_MAX \<and> unat (nb_len n) \<le> NAME_MAX"

lemma unat_small_u8: "k \<le> 16 \<Longrightarrow> unat (of_nat k :: u8) = k"
  by (simp add: unat_of_nat)

lemma from_slice_Inr:
  assumes "from_slice name = Inr n"
  shows "wf_name n" "as_slice n = name" "length name \<le> NAME_MAX"
  using assms
  by (auto simp: from_slice_def wf_name_def as_slice_def copy_prefix_def NAME_MAX_def unat_small_u8
      split: if_splits)

lemma from_slice_Inl: "from_slice name = Inl e \<longleftrightarrow> NAME_MAX < length name \<and> e = NameTooLong"
  by (auto simp: from_slice_def)

lemma length_as_slice: "wf_name n \<Longrightarrow> length (as_slice n) \<le> NAME_MAX"
  by (simp add: wf_name_def as_slice_def)

section \<open>Refinement to a finite map\<close>

definition probe :: "u8 list \<Rightarrow> nat \<Rightarrow> nat" where
  "probe name d = (hash name + d) mod SYMBOL_SLOTS"

definition slot_name :: "Symbol \<Rightarrow> u8 list" where
  "slot_name s = take (unat (name_len s)) (sym_name s)"

definition slot_ok :: "Symbol \<Rightarrow> bool" where
  "slot_ok s \<longleftrightarrow> length (sym_name s) = NAME_MAX \<and> unat (name_len s) \<le> NAME_MAX"

text \<open>Every used slot is reached from the hash of its name over used slots with other names.\<close>

definition chained :: "Symbol list \<Rightarrow> u8 list \<Rightarrow> nat \<Rightarrow> bool" where
  "chained syms n d \<longleftrightarrow>
     (\<forall>e<d. sym_used (syms ! probe n e) \<and> slot_name (syms ! probe n e) \<noteq> n)"

definition wf_symbols :: "Symbol list \<Rightarrow> bool" where
  "wf_symbols syms \<longleftrightarrow> length syms = SYMBOL_SLOTS \<and> (\<forall>s\<in>set syms. slot_ok s) \<and>
     (\<forall>i<SYMBOL_SLOTS. sym_used (syms ! i) \<longrightarrow>
        (\<exists>d<SYMBOL_SLOTS. i = probe (slot_name (syms ! i)) d \<and> chained syms (slot_name (syms ! i)) d))"

definition holds_at :: "Symbol list \<Rightarrow> u8 list \<Rightarrow> nat \<Rightarrow> bool" where
  "holds_at syms n i \<longleftrightarrow> i < SYMBOL_SLOTS \<and> sym_used (syms ! i) \<and> slot_name (syms ! i) = n"

text \<open>The abstract map: the value in the slot that holds the name.\<close>

definition sym_map :: "Symbol list \<Rightarrow> u8 list \<Rightarrow> u32 option" where
  "sym_map syms n =
     (case find (\<lambda>i. sym_used (syms ! i) \<and> slot_name (syms ! i) = n) [0..<SYMBOL_SLOTS] of
       None \<Rightarrow> None | Some i \<Rightarrow> Some (sym_value (syms ! i)))"

lemma SLOTS_pos [simp]: "0 < SYMBOL_SLOTS"
  by (simp add: SYMBOL_SLOTS_def)

lemma probe_less [simp]: "probe n d < SYMBOL_SLOTS"
  by (simp add: probe_def)

lemma probe_onto: "i < SYMBOL_SLOTS \<Longrightarrow> \<exists>d<SYMBOL_SLOTS. probe n d = i"
proof -
  assume i: "i < SYMBOL_SLOTS"
  have h: "hash n < SYMBOL_SLOTS" by (simp add: hash_def)
  show ?thesis
  proof (cases "hash n \<le> i")
    case True
    then show ?thesis using i by (intro exI [of _ "i - hash n"]) (simp add: probe_def)
  next
    case False
    then have "(hash n + (SYMBOL_SLOTS + i - hash n)) mod SYMBOL_SLOTS = i"
      using i h by simp
    then show ?thesis
      using False h by (intro exI [of _ "SYMBOL_SLOTS + i - hash n"]) (simp add: probe_def)
  qed
qed

lemma name_matches_iff: "slot_ok s \<Longrightarrow> name_matches s n \<longleftrightarrow> slot_name s = n"
  by (auto simp: name_matches_def slot_name_def slot_ok_def)

text \<open>Both loops stop at the first slot of the probe sequence that is free or holds the name.\<close>

definition stops :: "Symbol list \<Rightarrow> u8 list \<Rightarrow> nat \<Rightarrow> bool" where
  "stops syms n d \<longleftrightarrow> \<not> sym_used (syms ! probe n d) \<or> slot_name (syms ! probe n d) = n"

definition filled :: "u8 list \<Rightarrow> u32 \<Rightarrow> Symbol \<Rightarrow> Symbol" where
  "filled n v s = s\<lparr>sym_used := True, name_len := of_nat (length n),
     sym_name := copy_prefix n (sym_name s), sym_value := v\<rparr>"

lemma slot_ok_nth: "wf_symbols syms \<Longrightarrow> slot_ok (syms ! probe n d)"
  by (simp add: wf_symbols_def)

lemma lookup_loop_find:
  assumes "wf_symbols syms"
  shows "lookup_loop syms n (hash n) steps =
    (case find (stops syms n) steps of
      None \<Rightarrow> None
    | Some d \<Rightarrow> (if sym_used (syms ! probe n d) then Some (sym_value (syms ! probe n d)) else None))"
  using slot_ok_nth [OF assms, of n]
  by (induction steps) (auto simp: stops_def name_matches_iff Let_def simp flip: probe_def)

lemma insert_loop_find:
  assumes "wf_symbols syms"
  shows "insert_loop syms n v (hash n) steps =
    (case find (stops syms n) steps of
      None \<Rightarrow> (Inl SymbolTableFull, syms)
    | Some d \<Rightarrow> (Inr (), syms[probe n d := filled n v (syms ! probe n d)]))"
  using slot_ok_nth [OF assms, of n]
  by (induction steps) (auto simp: stops_def name_matches_iff filled_def Let_def simp flip: probe_def)

lemma find_upt_Some:
  "find Q [0..<n] = Some d \<longleftrightarrow> d < n \<and> Q d \<and> (\<forall>e<d. \<not> Q e)"
  by (auto simp: find_Some_iff)

lemma chained_stops: "chained syms n d \<longleftrightarrow> (\<forall>e<d. \<not> stops syms n e)"
  by (auto simp: chained_def stops_def)

lemma holds_at_probe:
  assumes "wf_symbols syms" "holds_at syms n i"
  shows "\<exists>d<SYMBOL_SLOTS. i = probe n d \<and> find (stops syms n) [0..<SYMBOL_SLOTS] = Some d"
proof -
  obtain d where d: "d < SYMBOL_SLOTS" "i = probe n d" "chained syms n d"
    using assms unfolding wf_symbols_def holds_at_def by auto
  moreover have "stops syms n d" using assms(2) d(2) by (simp add: stops_def holds_at_def)
  ultimately show ?thesis by (auto simp: find_upt_Some chained_stops)
qed

lemma holds_at_unique:
  "wf_symbols syms \<Longrightarrow> holds_at syms n i \<Longrightarrow> holds_at syms n j \<Longrightarrow> i = j"
  by (metis holds_at_probe option.inject)

lemma sym_map_holds: "wf_symbols syms \<Longrightarrow> holds_at syms n i \<Longrightarrow> sym_map syms n = Some (sym_value (syms ! i))"
proof -
  assume wf: "wf_symbols syms" and h: "holds_at syms n i"
  let ?Q = "\<lambda>i. sym_used (syms ! i) \<and> slot_name (syms ! i) = n"
  have "find ?Q [0..<SYMBOL_SLOTS] \<noteq> None"
    using h by (auto simp: find_None_iff holds_at_def)
  then obtain j where j: "find ?Q [0..<SYMBOL_SLOTS] = Some j" by auto
  then have "holds_at syms n j" by (simp add: find_upt_Some holds_at_def)
  then have "j = i" by (rule holds_at_unique [OF wf _ h])
  with j show ?thesis by (simp add: sym_map_def)
qed

lemma sym_map_None_iff: "sym_map syms n = None \<longleftrightarrow> (\<forall>i. \<not> holds_at syms n i)"
  by (auto simp: sym_map_def holds_at_def find_None_iff find_upt_Some split: option.splits)

lemma stop_slot:
  assumes "wf_symbols syms" "find (stops syms n) [0..<SYMBOL_SLOTS] = Some d" "sym_used (syms ! probe n d)"
  shows "holds_at syms n (probe n d)"
  using assms(2,3) by (auto simp: find_upt_Some stops_def holds_at_def)

lemma lookup_symbol_map:
  assumes "wf_symbols syms"
  shows "lookup_symbol syms n = sym_map syms n"
proof (cases "\<exists>i. holds_at syms n i")
  case True
  then obtain i where i: "holds_at syms n i" by blast
  from holds_at_probe [OF assms i] i show ?thesis
    by (auto simp: lookup_symbol_def lookup_loop_find [OF assms] sym_map_holds [OF assms i] holds_at_def)
next
  case False
  then have "sym_map syms n = None" by (simp add: sym_map_None_iff)
  moreover have "lookup_symbol syms n = None"
    using False stop_slot [OF assms]
    by (auto simp: lookup_symbol_def lookup_loop_find [OF assms] split: option.splits)
  ultimately show ?thesis by simp
qed

lemma filled_facts:
  assumes "slot_ok s" "length n \<le> NAME_MAX"
  shows "slot_ok (filled n v s)" "slot_name (filled n v s) = n" "sym_used (filled n v s)"
    "sym_value (filled n v s) = v"
  using assms by (simp_all add: filled_def slot_ok_def slot_name_def unat_small_u8 NAME_MAX_def copy_prefix_def)

text \<open>Writing a name where its probe sequence stops: what the slots hold, and every chain that does
  not run past the written slot under the same name.\<close>

lemma insert_slots:
  fixes v :: u32 and d :: nat
  assumes "wf_symbols syms" and "length n \<le> NAME_MAX"
  defines "syms' \<equiv> syms[probe n d := filled n v (syms ! probe n d)]"
  shows "i < SYMBOL_SLOTS \<Longrightarrow> syms' ! i = (if i = probe n d then filled n v (syms ! probe n d) else syms ! i)"
    and "holds_at syms' m i \<longleftrightarrow> (if i = probe n d then m = n else holds_at syms m i)"
proof -
  show nth: "syms' ! i = (if i = probe n d then filled n v (syms ! probe n d) else syms ! i)" if "i < SYMBOL_SLOTS" for i
    using that assms(1) by (simp add: syms'_def wf_symbols_def)
  show "holds_at syms' m i \<longleftrightarrow> (if i = probe n d then m = n else holds_at syms m i)"
    using filled_facts [OF slot_ok_nth [OF assms(1), of n d] assms(2), of v] by (auto simp: holds_at_def nth)
qed

lemma insert_chains:
  fixes v :: u32
  assumes "wf_symbols syms" and "length n \<le> NAME_MAX" and "stops syms n d" and "chained syms n d"
    and "chained syms m e" and "m = n \<longrightarrow> e \<le> d"
  shows "chained (syms[probe n d := filled n v (syms ! probe n d)]) m e"
  unfolding chained_def
proof (intro allI impI)
  fix k assume k: "k < e"
  let ?j = "probe n d"
  let ?syms' = "syms[?j := filled n v (syms ! ?j)]"
  note nth = insert_slots(1) [OF assms(1,2)] and f = filled_facts [OF slot_ok_nth [OF assms(1), of n d] assms(2), of v]
  have old: "sym_used (syms ! probe m k)" "slot_name (syms ! probe m k) \<noteq> m"
    using assms(5) k by (auto simp: chained_def)
  show "sym_used (?syms' ! probe m k) \<and> slot_name (?syms' ! probe m k) \<noteq> m"
  proof (cases "probe m k = ?j")
    case False
    with old show ?thesis by (simp add: nth)
  next
    case True
    have "m \<noteq> n"
    proof
      assume "m = n"
      then have "k < d" using assms(6) k by simp
      then have "\<not> stops syms n k" using assms(4) by (simp add: chained_stops)
      moreover have "stops syms n k" using assms(3) True \<open>m = n\<close> by (simp add: stops_def)
      ultimately show False by simp
    qed
    with True f show ?thesis by (simp add: nth)
  qed
qed

lemma insert_wf:
  fixes v :: u32
  assumes wf: "wf_symbols syms" and n: "length n \<le> NAME_MAX"
    and d: "find (stops syms n) [0..<SYMBOL_SLOTS] = Some d"
  defines "syms' \<equiv> syms[probe n d := filled n v (syms ! probe n d)]"
  shows "wf_symbols syms'" and "\<And>m i. holds_at syms' m i \<longleftrightarrow> (if i = probe n d then m = n else holds_at syms m i)"
proof -
  let ?j = "probe n d"
  have len: "length syms = SYMBOL_SLOTS" using wf by (simp add: wf_symbols_def)
  note f = filled_facts [OF slot_ok_nth [OF wf, of n d] n, of v]
    and nth = insert_slots(1) [OF wf n, of _ d v, folded syms'_def]
  show "holds_at syms' m i \<longleftrightarrow> (if i = ?j then m = n else holds_at syms m i)" for m i
    unfolding syms'_def by (rule insert_slots(2) [OF wf n])
  have d': "d < SYMBOL_SLOTS" "stops syms n d" "chained syms n d"
    using d by (auto simp: find_upt_Some chained_stops)
  note keep = insert_chains [OF wf n d'(2,3), of _ _ v, folded syms'_def]
  have "\<exists>e<SYMBOL_SLOTS. i = probe (slot_name (syms' ! i)) e \<and> chained syms' (slot_name (syms' ! i)) e"
    if "i < SYMBOL_SLOTS" "sym_used (syms' ! i)" for i
  proof (cases "i = ?j")
    case True
    then show ?thesis using d' f keep [OF d'(3)] by (auto simp: nth)
  next
    case False
    let ?m = "slot_name (syms ! i)"
    have h: "holds_at syms ?m i" using that False by (simp add: holds_at_def nth)
    obtain e where e: "e < SYMBOL_SLOTS" "i = probe ?m e" "find (stops syms ?m) [0..<SYMBOL_SLOTS] = Some e"
      using holds_at_probe [OF wf h] by blast
    have "chained syms ?m e" using e(3) by (simp add: find_upt_Some chained_stops)
    moreover have "?m = n \<longrightarrow> e \<le> d" using d e(3) by auto
    ultimately have "chained syms' ?m e" by (rule keep)
    with e False that show ?thesis by (auto simp: nth)
  qed
  moreover have "\<forall>s\<in>set syms'. slot_ok s"
    using wf f(1) set_update_subset_insert [of syms ?j] by (auto simp: syms'_def wf_symbols_def)
  ultimately show "wf_symbols syms'" using len by (simp add: wf_symbols_def syms'_def)
qed

lemma insert_symbol_map:
  assumes "wf_symbols syms" "wf_name name" "find (stops syms (as_slice name)) [0..<SYMBOL_SLOTS] = Some d"
  shows "fst (insert_symbol syms name v) = Inr ()" "wf_symbols (snd (insert_symbol syms name v))"
    "sym_map (snd (insert_symbol syms name v)) = (sym_map syms)(as_slice name \<mapsto> v)"
proof -
  let ?n = "as_slice name" and ?s = "snd (insert_symbol syms name v)"
  note n = length_as_slice [OF assms(2)]
  have eq: "insert_symbol syms name v = (Inr (), syms[probe ?n d := filled ?n v (syms ! probe ?n d)])"
    by (simp add: insert_symbol_def Let_def insert_loop_find [OF assms(1)] assms(3))
  note H = insert_wf(2) [OF assms(1) n assms(3), of v]
  show "fst (insert_symbol syms name v) = Inr ()" by (simp add: eq)
  show wf: "wf_symbols ?s" using insert_wf(1) [OF assms(1) n assms(3)] by (simp add: eq)
  have len: "length syms = SYMBOL_SLOTS" using assms(1) by (simp add: wf_symbols_def)
  have "sym_map ?s m = ((sym_map syms)(?n \<mapsto> v)) m" for m
  proof (cases "m = ?n")
    case True
    have "holds_at ?s ?n (probe ?n d)" by (simp add: eq H)
    from sym_map_holds [OF wf this] show ?thesis
      using True filled_facts(4) [OF slot_ok_nth [OF assms(1)] n] len by (simp add: eq)
  next
    case False
    show ?thesis
    proof (cases "\<exists>i. holds_at ?s m i")
      case True
      then obtain i where i: "holds_at ?s m i" by blast
      then have "i \<noteq> probe ?n d" "holds_at syms m i" using False by (auto simp: eq H split: if_splits)
      then show ?thesis
        using False sym_map_holds [OF wf i] sym_map_holds [OF assms(1), of m i] by (simp add: eq)
    next
      case none: False
      have "\<not> holds_at syms m i" for i
      proof
        assume h: "holds_at syms m i"
        with none have "i = probe ?n d" by (auto simp: eq H split: if_splits)
        moreover have "stops syms ?n d" using assms(3) by (simp add: find_upt_Some)
        ultimately show False using h False by (auto simp: holds_at_def stops_def)
      qed
      then show ?thesis using none False by (simp add: sym_map_None_iff [THEN iffD2])
    qed
  qed
  then show "sym_map ?s = (sym_map syms)(?n \<mapsto> v)" by blast
qed

lemma insert_symbol_full:
  assumes "wf_symbols syms" "find (stops syms (as_slice name)) [0..<SYMBOL_SLOTS] = None"
  shows "insert_symbol syms name v = (Inl SymbolTableFull, syms)" "sym_map syms (as_slice name) = None"
    "\<forall>i<SYMBOL_SLOTS. sym_used (syms ! i)"
proof -
  show "insert_symbol syms name v = (Inl SymbolTableFull, syms)"
    by (simp add: insert_symbol_def insert_loop_find [OF assms(1)] assms(2))
  show "sym_map syms (as_slice name) = None"
    using holds_at_probe [OF assms(1)] assms(2) by (fastforce simp: sym_map_None_iff)
  show "\<forall>i<SYMBOL_SLOTS. sym_used (syms ! i)"
    using assms(2) probe_onto [of _ "as_slice name"] by (auto simp: find_None_iff stops_def)
qed

section \<open>The interface\<close>

text \<open>
  What the parser relies on: a lookup reads the abstract map, an insertion updates it or is
  refused, leaving the table as it was, only when a new name meets a full table.
\<close>

locale symbol_map =
  fixes insert :: "'s \<Rightarrow> 'n \<Rightarrow> 'v \<Rightarrow> ('e + unit) \<times> 's"
    and look :: "'s \<Rightarrow> 'k \<Rightarrow> 'v option"
    and key :: "'n \<Rightarrow> 'k" and abs :: "'s \<Rightarrow> 'k \<Rightarrow> 'v option"
    and ok :: "'s \<Rightarrow> bool" and okn :: "'n \<Rightarrow> bool" and full :: "'s \<Rightarrow> bool" and err :: 'e
  assumes look_law: "ok s \<Longrightarrow> look s k = abs s k"
    and insert_law: "ok s \<Longrightarrow> okn n \<Longrightarrow>
      fst (insert s n v) = Inr () \<and> ok (snd (insert s n v)) \<and> abs (snd (insert s n v)) = (abs s)(key n \<mapsto> v)
      \<or> insert s n v = (Inl err, s) \<and> full s \<and> abs s (key n) = None"
begin

lemma look_insert:
  "ok s \<Longrightarrow> okn n \<Longrightarrow> fst (insert s n v) = Inr () \<Longrightarrow>
   look (snd (insert s n v)) k = (if k = key n then Some v else look s k)"
  using insert_law [of s n v] by (auto simp: look_law)

lemma insert_ok: "ok s \<Longrightarrow> okn n \<Longrightarrow> ok (snd (insert s n v))"
  using insert_law [of s n v] by auto

lemma insert_known: "ok s \<Longrightarrow> okn n \<Longrightarrow> look s (key n) \<noteq> None \<Longrightarrow> fst (insert s n v) = Inr ()"
  using insert_law [of s n v] by (auto simp: look_law)

lemma insert_fails:
  "ok s \<Longrightarrow> okn n \<Longrightarrow> fst (insert s n v) \<noteq> Inr () \<Longrightarrow>
   fst (insert s n v) = Inl err \<and> snd (insert s n v) = s \<and> full s \<and> look s (key n) = None"
  using insert_law [of s n v] by (auto simp: look_law)

end

interpretation syms: symbol_map insert_symbol lookup_symbol as_slice sym_map wf_symbols wf_name
  "\<lambda>s. \<forall>i<SYMBOL_SLOTS. sym_used (s ! i)" SymbolTableFull
proof
  fix s :: "Symbol list" and k :: "u8 list" and n :: NameBuf and v :: u32
  assume s: "wf_symbols s"
  then show "lookup_symbol s k = sym_map s k" by (rule lookup_symbol_map)
  assume n: "wf_name n"
  show "fst (insert_symbol s n v) = Inr () \<and> wf_symbols (snd (insert_symbol s n v))
        \<and> sym_map (snd (insert_symbol s n v)) = (sym_map s)(as_slice n \<mapsto> v)
      \<or> insert_symbol s n v = (Inl SymbolTableFull, s) \<and> (\<forall>i<SYMBOL_SLOTS. sym_used (s ! i))
        \<and> sym_map s (as_slice n) = None"
    using insert_symbol_map [OF s n, of _ v] insert_symbol_full(1) [OF s, of n v] insert_symbol_full(2,3) [OF s, of n]
    by (cases "find (stops s (as_slice n)) [0..<SYMBOL_SLOTS]") auto
qed

lemma wf_symbols_empty: "wf_symbols (replicate SYMBOL_SLOTS EMPTY_SYMBOL)"
  by (simp add: wf_symbols_def slot_ok_def EMPTY_SYMBOL_def)

lemma sym_map_empty: "sym_map (replicate SYMBOL_SLOTS EMPTY_SYMBOL) = Map.empty"
  by (rule ext) (auto simp: sym_map_None_iff holds_at_def EMPTY_SYMBOL_def)

section \<open>Properties\<close>

text \<open>A history of \<open>let\<close> bindings, each refused or accepted.\<close>

fun bind_all :: "(NameBuf \<times> u32) list \<Rightarrow> Symbol list \<Rightarrow> Symbol list" where
  "bind_all [] s = s"
| "bind_all ((n, v) # bs) s = bind_all bs (snd (insert_symbol s n v))"

lemma bind_all_wf: "wf_symbols s \<Longrightarrow> \<forall>(n, v)\<in>set bs. wf_name n \<Longrightarrow> wf_symbols (bind_all bs s)"
  by (induction bs arbitrary: s) (auto simp: syms.insert_ok)

text \<open>C31: the symbol table is a bounded map from names to values. After any history of insertions
  into the empty table, hash collisions and wrapping probes included, a further insertion
  either succeeds, and then looking up its name gives the value while every other name reads as
  before, or it is refused with the table unchanged; it is refused only when all 32 slots are
  taken and the name is new.\<close>

theorem symbol_table_is_map:
  assumes "\<forall>(m, w)\<in>set bs. wf_name m" and "wf_name n"
    and "s = bind_all bs (replicate SYMBOL_SLOTS EMPTY_SYMBOL)"
  shows "fst (insert_symbol s n v) = Inr ()
      \<and> lookup_symbol (snd (insert_symbol s n v)) = (lookup_symbol s)(as_slice n \<mapsto> v)
    \<or> insert_symbol s n v = (Inl SymbolTableFull, s) \<and> lookup_symbol s (as_slice n) = None
      \<and> (\<forall>i<SYMBOL_SLOTS. sym_used (s ! i))"
proof -
  have wf: "wf_symbols s" using bind_all_wf [OF wf_symbols_empty assms(1)] assms(3) by simp
  show ?thesis
  proof (cases "fst (insert_symbol s n v) = Inr ()")
    case True
    then have "lookup_symbol (snd (insert_symbol s n v)) = (lookup_symbol s)(as_slice n \<mapsto> v)"
      by (intro ext) (simp add: syms.look_insert [OF wf assms(2)])
    with True show ?thesis by simp
  next
    case False
    from syms.insert_fails [OF wf assms(2) False] show ?thesis by (simp add: prod_eq_iff)
  qed
qed

definition name_of :: "u8 list \<Rightarrow> NameBuf" where
  "name_of xs = \<lparr>nb_len = of_nat (length xs), nb_bytes = copy_prefix xs (replicate NAME_MAX 0)\<rparr>"

lemma name_of_facts: "length xs \<le> NAME_MAX \<Longrightarrow> wf_name (name_of xs) \<and> as_slice (name_of xs) = xs"
  by (simp add: name_of_def wf_name_def as_slice_def unat_small_u8 NAME_MAX_def copy_prefix_def)

theorem symbol_table_is_map_witness:
  "lookup_symbol (snd (insert_symbol (replicate SYMBOL_SLOTS EMPTY_SYMBOL) (name_of [0x62]) 7)) [0x62] = Some 7"
proof -
  have n: "wf_name (name_of [0x62])" "as_slice (name_of [0x62]) = [0x62]"
    using name_of_facts [of "[0x62]"] by (simp_all add: NAME_MAX_def)
  have "\<not> (\<forall>i<SYMBOL_SLOTS. sym_used (replicate SYMBOL_SLOTS EMPTY_SYMBOL ! i))"
    by (auto simp: EMPTY_SYMBOL_def intro!: exI [of _ 0])
  then show ?thesis
    using symbol_table_is_map [of "[]" "name_of [0x62]" "replicate SYMBOL_SLOTS EMPTY_SYMBOL" 7] n by auto
qed

end
