(* ===== verification/Cursor.thy ===== *)
theory Cursor
  imports Lexer
begin

text \<open>
  The one-token-lookahead cursor of the parser (\<open>Cur\<close> in src/compiler/parser.rs), and its
  interface as the locale \<open>token_source\<close>: the client sees a list of upcoming tokens.
\<close>

record Cur =
  lx :: Lexer
  ahead :: "Token option"

definition cur_new :: "u8 list \<Rightarrow> Cur" where
  "cur_new input = \<lparr>lx = lexer_new input, ahead = None\<rparr>"

definition cur_next :: "Cur \<Rightarrow> Token \<times> Cur" where
  "cur_next c =
     (case ahead c of
       Some t \<Rightarrow> (t, c\<lparr>ahead := None\<rparr>)
     | None \<Rightarrow> (let (t, l) = next_token (lx c) in (t, c\<lparr>lx := l\<rparr>)))"

definition cur_peek :: "Cur \<Rightarrow> Token \<times> Cur" where
  "cur_peek c =
     (case ahead c of
       Some t \<Rightarrow> (t, c)
     | None \<Rightarrow> (let (t, l) = next_token (lx c) in (t, c\<lparr>lx := l, ahead := Some t\<rparr>)))"

section \<open>The interface\<close>

text \<open>
  \<open>toks\<close> are the tokens to come, without the end marker \<open>Eof\<close> that any number of further
  reads returns.
\<close>

definition hd_tok :: "Token list \<Rightarrow> Token" where
  "hd_tok ts = (case ts of [] \<Rightarrow> Eof | t # _ \<Rightarrow> t)"

lemma hd_tok_simps [simp]: "hd_tok [] = Eof" "hd_tok (t # ts) = t"
  by (simp_all add: hd_tok_def)

locale token_source =
  fixes nxt :: "'c \<Rightarrow> Token \<times> 'c" and pk :: "'c \<Rightarrow> Token \<times> 'c"
    and toks :: "'c \<Rightarrow> Token list" and ok :: "'c \<Rightarrow> bool"
  assumes nxt_law: "ok c \<Longrightarrow> fst (nxt c) = hd_tok (toks c) \<and> toks (snd (nxt c)) = tl (toks c) \<and> ok (snd (nxt c))"
    and pk_law: "ok c \<Longrightarrow> fst (pk c) = hd_tok (toks c) \<and> toks (snd (pk c)) = toks c \<and> ok (snd (pk c))"
    and no_eof: "ok c \<Longrightarrow> Eof \<notin> set (toks c)"
begin

lemma nxt_cases:
  assumes "ok c"
  obtains (eof) c' where "toks c = []" "nxt c = (Eof, c')" "toks c' = []" "ok c'"
    | (tok) t ts c' where "toks c = t # ts" "nxt c = (t, c')" "toks c' = ts" "ok c'" "t \<noteq> Eof"
proof (cases "toks c")
  case Nil
  with nxt_law [OF assms] eof show ?thesis by (metis hd_tok_simps(1) list.sel(2) prod.collapse)
next
  case (Cons t ts)
  with no_eof [OF assms] have "t \<noteq> Eof" by auto
  with nxt_law [OF assms] tok Cons show ?thesis by (metis hd_tok_simps(2) list.sel(3) prod.collapse)
qed

lemma nxt_shrinks: "ok c \<Longrightarrow> fst (nxt c) \<noteq> Eof \<Longrightarrow> length (toks (snd (nxt c))) < length (toks c)"
  by (metis fst_conv length_Cons lessI nxt_cases snd_conv)

lemma nxt_length: "ok c \<Longrightarrow> length (toks (snd (nxt c))) \<le> length (toks c) - 1"
  by (simp add: nxt_law)

end

text \<open>The tokens of a text.\<close>

function lex_all :: "u8 list \<Rightarrow> Token list" where
  "lex_all xs = (if fst (ref_token xs) = Eof then [] else fst (ref_token xs) # lex_all (snd (ref_token xs)))"
  by pat_completeness auto
termination
  by (relation "measure length") (simp_all add: ref_token_shrinks)

declare lex_all.simps [simp del]

definition upcoming :: "Cur \<Rightarrow> Token list" where
  "upcoming c =
     (case ahead c of
       Some t \<Rightarrow> (if t = Eof then [] else t # lex_all (rest (lx c)))
     | None \<Rightarrow> lex_all (rest (lx c)))"

definition wf_cur :: "Cur \<Rightarrow> bool" where
  "wf_cur c \<longleftrightarrow> wf_lexer (lx c) \<and> (ahead c = Some Eof \<longrightarrow> rest (lx c) = [])"

lemma lex_all_token: "wf_lexer l \<Longrightarrow>
    fst (next_token l) = hd_tok (lex_all (rest l)) \<and> wf_lexer (snd (next_token l))
    \<and> lex_all (rest (snd (next_token l))) = tl (lex_all (rest l))
    \<and> (fst (next_token l) = Eof \<longrightarrow> rest (snd (next_token l)) = [] \<and> lex_all (rest l) = [])"
proof -
  assume wf: "wf_lexer l"
  from next_token_ref [OF wf] have r: "ref_token (rest l) = (fst (next_token l), rest (snd (next_token l)))"
    and wf': "wf_lexer (snd (next_token l))" by simp_all
  have eof: "fst (next_token l) = Eof \<Longrightarrow> rest (snd (next_token l)) = []"
    using ref_token_shrinks [of "rest l"] by (simp add: r)
  have "lex_all [] = []" by (simp add: lex_all.simps ref_token_def)
  with r wf' eof show ?thesis by (simp add: lex_all.simps [of "rest l"])
qed

lemma lex_all_no_eof: "Eof \<notin> set (lex_all xs)"
proof (induction xs rule: lex_all.induct)
  case (1 xs)
  then show ?case by (auto simp: lex_all.simps [of xs])
qed

interpretation cursor: token_source cur_next cur_peek upcoming wf_cur
proof
  fix c :: Cur
  assume wf: "wf_cur c"
  then have l: "wf_lexer (lx c)" by (simp add: wf_cur_def)
  have e: "lex_all [] = []" by (simp add: lex_all.simps ref_token_def)
  note t = lex_all_token [OF l]
  show "fst (cur_next c) = hd_tok (upcoming c) \<and> upcoming (snd (cur_next c)) = tl (upcoming c)
      \<and> wf_cur (snd (cur_next c))"
    using wf t e by (auto simp: cur_next_def upcoming_def wf_cur_def split_beta split: option.splits)
  show "fst (cur_peek c) = hd_tok (upcoming c) \<and> upcoming (snd (cur_peek c)) = upcoming c
      \<and> wf_cur (snd (cur_peek c))"
  proof (cases "ahead c")
    case None
    then show ?thesis
      using wf t e by (cases "lex_all (rest (lx c))") (auto simp: cur_peek_def upcoming_def wf_cur_def split_beta)
  next
    case (Some a)
    then show ?thesis using wf e by (auto simp: cur_peek_def upcoming_def)
  qed
  show "Eof \<notin> set (upcoming c)"
    using lex_all_no_eof by (auto simp: upcoming_def split: option.splits)
qed

lemma cur_new_facts: "wf_cur (cur_new input)" "upcoming (cur_new input) = lex_all input"
  by (simp_all add: cur_new_def wf_cur_def upcoming_def)

lemma lex_all_length: "length (lex_all xs) \<le> length xs"
proof (induction xs rule: lex_all.induct)
  case (1 xs)
  then show ?case
    using ref_token_shrinks [of xs] by (cases "fst (ref_token xs) = Eof") (simp_all add: lex_all.simps [of xs])
qed

lemma lex_all_space: "is_space b \<Longrightarrow> lex_all (b # xs) = lex_all xs"
  by (simp add: lex_all.simps [of "b # xs"] lex_all.simps [of xs] ref_token_space)

lemma lex_all_render: "list_all printable ts \<Longrightarrow> lex_all (render_all ts) = ts"
proof (induction ts)
  case Nil
  show ?case by (simp add: render_all_def lex_all.simps ref_token_def)
next
  case (Cons t ts)
  have all: "render_all (t # ts) = render t @ 0x20 # render_all ts"
    by (simp add: render_all_def)
  have "t \<noteq> Eof" using Cons.prems by auto
  then have "lex_all (render_all (t # ts)) = t # lex_all (0x20 # render_all ts)"
    using ref_token_render [of t "render_all ts"] Cons.prems by (subst lex_all.simps) (simp add: all)
  with Cons show ?case by (simp add: lex_all_space)
qed

end
