(* ===== verification/Parser.thy ===== *)
theory Parser
  imports Symtab Cursor Native Registry
begin

text \<open>
  The streaming parser and compiler front end (src/compiler/parser.rs): expressions folded
  while they are parsed, function bodies compiled to token streams, and the outcome of one
  input line. A parse threads the compiler, the cursor and the hardware (a \<open>peek\<close> term
  reads memory while it is parsed); the capability registry is only consulted. The mutual
  recursion of the expression parser is bounded by fuel, and \<open>parse\<close> supplies enough.
\<close>

section \<open>State and outcomes\<close>

definition MAX_FNS :: nat where "MAX_FNS = 2"
definition FN_BODY_WORDS :: nat where "FN_BODY_WORDS = 32"

datatype Outcome =
    Empty
  | Bound NameBuf u32
  | FnDefined NameBuf
  | Run StreamProgram
  | Claim NameBuf
  | Drop NameBuf
  | SetBit u32 u32
  | ClrBit u32 u32
  | Help
  | Banner
  | SysAudit
  | EnforcedPoke u32 u32
  | EnforcedPeek u32

record Compiler =
  symbols :: "Symbol list"
  fn_names :: "NameBuf list"
  fn_bodies :: "usize list list"
  fn_body_lens :: "nat list"
  out_stream :: "usize list"
  stream_len :: nat

definition compiler_new :: Compiler where
  "compiler_new = \<lparr>symbols = replicate SYMBOL_SLOTS EMPTY_SYMBOL,
     fn_names = replicate MAX_FNS \<lparr>nb_len = 0, nb_bytes = replicate NAME_MAX 0\<rparr>,
     fn_bodies = replicate MAX_FNS (replicate FN_BODY_WORDS 0),
     fn_body_lens = replicate MAX_FNS 0,
     out_stream = replicate MAX_STREAM_WORDS 0, stream_len = 0\<rparr>"

record 'h pst =
  comp :: Compiler
  cur :: Cur
  phw :: 'h

datatype parse_fail = PE ParseError | OutOfFuel

type_synonym ('h, 'a) parser = "'h pst \<Rightarrow> (parse_fail + 'a) \<times> 'h pst"

section \<open>Tokens\<close>

definition next_tok :: "('h, Token) parser" where
  "next_tok s = (let (t, c) = cur_next (cur s) in (Inr t, s\<lparr>cur := c\<rparr>))"

definition peek_tok :: "('h, Token) parser" where
  "peek_tok s = (let (t, c) = cur_peek (cur s) in (Inr t, s\<lparr>cur := c\<rparr>))"

definition reject :: "ParseError \<Rightarrow> ('h, 'a) parser" where
  "reject e = fail_with (PE e)"

definition of_result :: "ParseError + 'a \<Rightarrow> ('h, 'a) parser" where
  "of_result r = (case r of Inl e \<Rightarrow> reject e | Inr x \<Rightarrow> ok_with x)"

text \<open>\<open>match cur.next() { t => {}, _ => return Err(UnexpectedToken) }\<close>\<close>

definition expect :: "Token \<Rightarrow> ('h, unit) parser" where
  "expect t = try_bind next_tok (\<lambda>t'. if t' = t then ok_with () else reject UnexpectedToken)"

definition expect_name :: "('h, NameBuf) parser" where
  "expect_name = try_bind next_tok (\<lambda>t. case t of
     Identifier i \<Rightarrow> of_result (from_slice i) | _ \<Rightarrow> reject UnexpectedToken)"

definition expect_semicolon :: "('h, unit) parser" where
  "expect_semicolon = try_bind next_tok (\<lambda>t.
     if t = Semicolon \<or> t = Eof then ok_with () else reject MissingSemicolon)"

definition allow_optional_semicolon :: "('h, unit) parser" where
  "allow_optional_semicolon = try_bind peek_tok (\<lambda>t.
     if t = Semicolon then try_then next_tok (ok_with ()) else ok_with ())"

section \<open>Expressions\<close>

definition is_arith :: "u8 \<Rightarrow> bool" where
  "is_arith op \<longleftrightarrow> op \<in> {0x2B, 0x2D, 0x2A, 0x2F, 0x25}"

definition apply_op :: "u8 \<Rightarrow> u32 \<Rightarrow> u32 \<Rightarrow> ParseError + u32" where
  "apply_op op acc rhs =
     (if op = 0x2B then Inr (acc + rhs)
      else if op = 0x2D then Inr (acc - rhs)
      else if op = 0x2A then Inr (acc * rhs)
      else if op = 0x2F then (if rhs = 0 then Inl DivByZero else Inr (acc div rhs))
      else (if rhs = 0 then Inl DivByZero else Inr (acc mod rhs)))"

definition read_word :: "('e, 'h) platform \<Rightarrow> u32 \<Rightarrow> ('h, u32) parser" where
  "read_word P addr s = (let (v, h) = peek_u32 (hw P) addr (phw s) in (Inr v, s\<lparr>phw := h\<rparr>))"

definition symbol_value :: "u8 list \<Rightarrow> ('h, u32) parser" where
  "symbol_value i s =
     (case lookup_symbol (symbols (comp s)) i of
       Some v \<Rightarrow> (Inr v, s) | None \<Rightarrow> (Inl (PE UnknownSymbol), s))"

text \<open>\<open>eval_rest\<close> is the \<open>while let Token::Operator(op) = cur.peek()\<close> loop of \<open>eval_expr\<close>.\<close>

fun eval_expr :: "('e, 'h) platform \<Rightarrow> nat \<Rightarrow> Token option \<Rightarrow> ('h, u32) parser"
  and eval_rest :: "('e, 'h) platform \<Rightarrow> nat \<Rightarrow> u32 \<Rightarrow> ('h, u32) parser"
  and resolve_term :: "('e, 'h) platform \<Rightarrow> nat \<Rightarrow> Token \<Rightarrow> ('h, u32) parser"
  and parse_atomic_term :: "('e, 'h) platform \<Rightarrow> nat \<Rightarrow> ('h, u32) parser" where
  "eval_expr P 0 first = fail_with OutOfFuel"
| "eval_expr P (Suc n) first =
     try_bind (case first of Some t \<Rightarrow> ok_with t | None \<Rightarrow> next_tok) (\<lambda>hd0.
     try_bind
       (if hd0 = LParen then try_bind (eval_expr P n None) (\<lambda>val. try_then (expect RParen) (ok_with val))
        else resolve_term P n hd0)
       (\<lambda>acc. eval_rest P n acc))"
| "eval_rest P 0 acc = fail_with OutOfFuel"
| "eval_rest P (Suc n) acc =
     try_bind peek_tok (\<lambda>t. case t of
       Operator op \<Rightarrow>
         if \<not> is_arith op then ok_with acc
         else try_then next_tok (try_bind next_tok (\<lambda>rhs_tok.
           try_bind
             (if rhs_tok = LParen then try_bind (eval_expr P n None) (\<lambda>val. try_then (expect RParen) (ok_with val))
              else resolve_term P n rhs_tok)
             (\<lambda>rhs. try_bind (of_result (apply_op op acc rhs)) (\<lambda>acc'. eval_rest P n acc'))))
     | _ \<Rightarrow> ok_with acc)"
| "resolve_term P 0 tok = fail_with OutOfFuel"
| "resolve_term P (Suc n) tok =
     (case tok of
       Literal v \<Rightarrow> ok_with v
     | Identifier i \<Rightarrow>
         if i = byte_str ''peek'' then try_bind (parse_atomic_term P n) (\<lambda>addr. read_word P addr)
         else symbol_value i
     | Error msg \<Rightarrow> reject (LexError msg)
     | _ \<Rightarrow> reject UnexpectedToken)"
| "parse_atomic_term P 0 = fail_with OutOfFuel"
| "parse_atomic_term P (Suc n) =
     try_bind next_tok (\<lambda>tok.
       if tok = LParen then try_bind (eval_expr P n None) (\<lambda>val. try_then (expect RParen) (ok_with val))
       else resolve_term P n tok)"

section \<open>Stream emission\<close>

definition stream_reset :: "('h, unit) parser" where
  "stream_reset s = (Inr (), s\<lparr>comp := comp s\<lparr>stream_len := 0\<rparr>\<rparr>)"

definition stream_push :: "usize \<Rightarrow> ('h, unit) parser" where
  "stream_push word s =
     (let c = comp s in
      if MAX_STREAM_WORDS \<le> stream_len c then (Inl (PE StreamFull), s)
      else (Inr (), s\<lparr>comp := c\<lparr>out_stream := (out_stream c)[stream_len c := word],
             stream_len := stream_len c + 1\<rparr>\<rparr>))"

definition stream_push_lit :: "('e, 'h) platform \<Rightarrow> u32 \<Rightarrow> ('h, unit) parser" where
  "stream_push_lit P value = try_then (stream_push (layout P Lit)) (stream_push value)"

definition stream_halt :: "('e, 'h) platform \<Rightarrow> ('h, unit) parser" where
  "stream_halt P = stream_push (layout P Halt)"

definition take_program :: "bool \<Rightarrow> ('h, StreamProgram) parser" where
  "take_program yields s =
     (let c = comp s in
      (Inr \<lparr>prog_words = copy_prefix (take (stream_len c) (out_stream c)) (replicate MAX_STREAM_WORDS 0),
            prog_len = stream_len c, yields_value = yields\<rparr>, s))"

definition build_value_program :: "('e, 'h) platform \<Rightarrow> u32 \<Rightarrow> ('h, StreamProgram) parser" where
  "build_value_program P value =
     try_then stream_reset (try_then (stream_push_lit P value) (try_then (stream_halt P) (take_program True)))"

section \<open>The function table\<close>

definition fn_allocated :: "Compiler \<Rightarrow> nat \<Rightarrow> bool" where
  "fn_allocated c i \<longleftrightarrow> 0 < nb_len (fn_names c ! i)"

definition find_fn :: "Compiler \<Rightarrow> u8 list \<Rightarrow> nat option" where
  "find_fn c name = find (\<lambda>i. fn_allocated c i \<and> eq_bytes (fn_names c ! i) name) [0..<MAX_FNS]"

fun push_words :: "usize list \<Rightarrow> ('h, unit) parser" where
  "push_words [] = ok_with ()"
| "push_words (w # ws) = try_then (stream_push w) (push_words ws)"

text \<open>\<open>for w in 0..len { self.stream_push(self.fn_bodies[index][w])? }\<close>; pushing does not
  change the bodies.\<close>

definition push_body :: "nat \<Rightarrow> ('h, unit) parser" where
  "push_body index s =
     (let c = comp s in push_words (map (\<lambda>w. fn_bodies c ! index ! w) [0..<fn_body_lens c ! index]) s)"

definition lookup_fn :: "u8 list \<Rightarrow> ('h, nat) parser" where
  "lookup_fn name s =
     (case find_fn (comp s) name of Some i \<Rightarrow> (Inr i, s) | None \<Rightarrow> (Inl (PE UnknownSymbol), s))"

definition build_call_program :: "('e, 'h) platform \<Rightarrow> u8 list \<Rightarrow> ('h, StreamProgram) parser" where
  "build_call_program P name =
     try_bind (lookup_fn name) (\<lambda>index.
     try_then stream_reset (try_then (push_body index) (try_then (stream_halt P) (take_program False))))"

definition splice_call :: "u8 list \<Rightarrow> ('h, unit) parser" where
  "splice_call name = try_bind (lookup_fn name) push_body"

definition alloc_fn_slot :: "NameBuf \<Rightarrow> ('h, nat) parser" where
  "alloc_fn_slot name s =
     (if find_fn (comp s) (as_slice name) \<noteq> None then (Inl (PE DuplicateFn), s)
      else (case find (\<lambda>i. nb_len (fn_names (comp s) ! i) = 0) [0..<MAX_FNS] of
        Some i \<Rightarrow> (Inr i, s) | None \<Rightarrow> (Inl (PE FnTableFull), s)))"

section \<open>Statements\<close>

definition require_access :: "('e, 'h) platform \<Rightarrow> registry \<Rightarrow> u32 \<Rightarrow> ('h, unit) parser" where
  "require_access P r addr =
     (case check_access (target P) r addr of Inr _ \<Rightarrow> ok_with () | Inl _ \<Rightarrow> reject CapabilityViolation)"

definition bind_symbol :: "NameBuf \<Rightarrow> u32 \<Rightarrow> ('h, unit) parser" where
  "bind_symbol name value s =
     (case insert_symbol (symbols (comp s)) name value of
       (Inl e, t) \<Rightarrow> (Inl (PE e), s\<lparr>comp := comp s\<lparr>symbols := t\<rparr>\<rparr>)
     | (Inr _, t) \<Rightarrow> (Inr (), s\<lparr>comp := comp s\<lparr>symbols := t\<rparr>\<rparr>))"

definition parse_let :: "('e, 'h) platform \<Rightarrow> nat \<Rightarrow> ('h, Outcome) parser" where
  "parse_let P n =
     try_bind expect_name (\<lambda>name.
     try_then (expect (Operator 0x3D))
     (try_bind (eval_expr P n None) (\<lambda>value.
      try_then expect_semicolon
      (try_then (bind_symbol name value) (ok_with (Bound name value))))))"

definition parse_call_parens :: "('h, unit) parser" where
  "parse_call_parens = try_then next_tok (try_then (expect RParen) expect_semicolon)"

definition parse_body_stmt :: "('e, 'h) platform \<Rightarrow> registry \<Rightarrow> nat \<Rightarrow> ('h, unit) parser" where
  "parse_body_stmt P r n = try_bind next_tok (\<lambda>t. case t of
     Identifier i \<Rightarrow>
       if i = byte_str ''poke'' then
         try_bind (parse_atomic_term P n) (\<lambda>addr.
         try_bind (eval_expr P n None) (\<lambda>val.
         try_then expect_semicolon
         (try_then (require_access P r addr)
         (try_then (stream_push_lit P addr)
         (try_then (stream_push_lit P val)
         (try_then (stream_push (layout P WriteReg)) (ok_with ())))))))
       else if i = byte_str ''peek'' then
         try_bind (parse_atomic_term P n) (\<lambda>addr.
         try_then expect_semicolon
         (try_then (require_access P r addr)
         (try_then (stream_push_lit P addr)
         (try_then (stream_push (layout P LoadReg)) (ok_with ())))))
       else try_bind peek_tok (\<lambda>t.
         if t = LParen then try_then parse_call_parens (try_then (splice_call i) (ok_with ()))
         else try_then (eval_expr P n (Some (Identifier i))) (try_then expect_semicolon (ok_with ())))
   | _ \<Rightarrow> reject UnexpectedToken)"

fun body_loop :: "('e, 'h) platform \<Rightarrow> registry \<Rightarrow> nat \<Rightarrow> nat \<Rightarrow> ('h, unit) parser" where
  "body_loop P r n 0 = fail_with OutOfFuel"
| "body_loop P r n (Suc k) =
     try_bind peek_tok (\<lambda>t.
       if t = RBrace then try_then next_tok (ok_with ())
       else if t = Eof then reject UnexpectedToken
       else try_then (parse_body_stmt P r n) (body_loop P r n k))"

definition store_fn :: "nat \<Rightarrow> NameBuf \<Rightarrow> ('h, unit) parser" where
  "store_fn index name s =
     (let c = comp s; body = take (stream_len c) (out_stream c) in
      (Inr (), s\<lparr>comp := c\<lparr>fn_names := (fn_names c)[index := name],
         fn_body_lens := (fn_body_lens c)[index := stream_len c],
         fn_bodies := (fn_bodies c)[index := copy_prefix body (fn_bodies c ! index)]\<rparr>\<rparr>))"

definition check_body_len :: "('h, unit) parser" where
  "check_body_len s =
     (if FN_BODY_WORDS < stream_len (comp s) then (Inl (PE StreamFull), s) else (Inr (), s))"

definition parse_fn :: "('e, 'h) platform \<Rightarrow> registry \<Rightarrow> nat \<Rightarrow> nat \<Rightarrow> ('h, Outcome) parser" where
  "parse_fn P r n k =
     try_bind expect_name (\<lambda>name.
     try_then (expect LParen) (try_then (expect RParen) (try_then (expect LBrace)
     (try_then stream_reset (try_then (body_loop P r n k)
     (try_then check_body_len
     (try_bind (alloc_fn_slot name) (\<lambda>index.
      try_then (store_fn index name) (ok_with (FnDefined name))))))))))"

definition parse_command :: "('e, 'h) platform \<Rightarrow> registry \<Rightarrow> nat \<Rightarrow> u8 list \<Rightarrow> ('h, Outcome) parser" where
  "parse_command P r n i =
     (if i = byte_str ''peek'' then
        try_bind (parse_atomic_term P n) (\<lambda>addr. try_then expect_semicolon
        (try_then (require_access P r addr) (ok_with (EnforcedPeek addr))))
      else if i = byte_str ''poke'' then
        try_bind (parse_atomic_term P n) (\<lambda>addr. try_bind (eval_expr P n None) (\<lambda>val.
        try_then expect_semicolon
        (try_then (require_access P r addr) (ok_with (EnforcedPoke addr val)))))
      else if i = byte_str ''cap_claim'' then
        try_bind expect_name (\<lambda>name. try_then expect_semicolon (ok_with (Claim name)))
      else if i = byte_str ''cap_drop'' then
        try_bind expect_name (\<lambda>name. try_then expect_semicolon (ok_with (Drop name)))
      else if i = byte_str ''reg_set_bit'' then
        try_bind (parse_atomic_term P n) (\<lambda>addr. try_bind (parse_atomic_term P n) (\<lambda>b.
        try_then expect_semicolon
        (try_then (require_access P r addr) (ok_with (SetBit addr b)))))
      else if i = byte_str ''reg_clr_bit'' then
        try_bind (parse_atomic_term P n) (\<lambda>addr. try_bind (parse_atomic_term P n) (\<lambda>b.
        try_then expect_semicolon
        (try_then (require_access P r addr) (ok_with (ClrBit addr b)))))
      else if i = byte_str ''help'' then try_then allow_optional_semicolon (ok_with Help)
      else if i = byte_str ''banner'' then try_then allow_optional_semicolon (ok_with Banner)
      else if i = byte_str ''sys_audit'' then try_then allow_optional_semicolon (ok_with SysAudit)
      else try_bind peek_tok (\<lambda>t.
        if t = LParen then
          try_then parse_call_parens (try_bind (build_call_program P i) (\<lambda>program. ok_with (Run program)))
        else
          try_bind (eval_expr P n (Some (Identifier i))) (\<lambda>value.
          try_then expect_semicolon
          (try_bind (build_value_program P value) (\<lambda>program. ok_with (Run program))))))"

definition parse_bare :: "('e, 'h) platform \<Rightarrow> nat \<Rightarrow> Token \<Rightarrow> ('h, Outcome) parser" where
  "parse_bare P n first =
     try_bind (eval_expr P n (Some first)) (\<lambda>value.
     try_then expect_semicolon
     (try_bind (build_value_program P value) (\<lambda>program. ok_with (Run program))))"

definition parse_line :: "('e, 'h) platform \<Rightarrow> registry \<Rightarrow> nat \<Rightarrow> nat \<Rightarrow> ('h, Outcome) parser" where
  "parse_line P r n k = try_bind next_tok (\<lambda>first.
     case first of
       Eof \<Rightarrow> reject EmptyLine
     | KwLet \<Rightarrow> parse_let P n
     | KwFn \<Rightarrow> parse_fn P r n k
     | Identifier i \<Rightarrow> parse_command P r n i
     | Literal v \<Rightarrow> parse_bare P n first
     | Operator b \<Rightarrow> parse_bare P n first
     | LParen \<Rightarrow> parse_bare P n first
     | Error msg \<Rightarrow> reject (LexError msg)
     | _ \<Rightarrow> reject UnexpectedToken)"

text \<open>The fuel that is always enough: two levels for each token, of which there are at most as
  many as bytes, and one round of the body loop for each token.\<close>

definition expr_fuel :: "nat \<Rightarrow> nat" where "expr_fuel t = 2 * t + 4"

definition parse ::
    "('e, 'h) platform \<Rightarrow> registry \<Rightarrow> u8 list \<Rightarrow> Compiler \<Rightarrow> 'h
      \<Rightarrow> (parse_fail + Outcome) \<times> Compiler \<times> 'h" where
  "parse P r input c h =
     (let (res, s) = parse_line P r (expr_fuel (length input)) (length input + 1)
        \<lparr>comp = c, cur = cur_new input, phw = h\<rparr>
      in (res, comp s, phw s))"

end
