(* ===== verification/ParserLaws.thy ===== *)
theory ParserLaws
  imports Parser
begin

text \<open>
  Laws of the parser: a program logic for fallible state passing, the invariant of the compiler
  state, and the soundness of every statement parser in it: enough fuel, reads as the only bus
  traffic, well-formed stored bodies, and capability-checked addresses.
\<close>

section \<open>Triples\<close>

definition triple ::
    "('s \<Rightarrow> bool) \<Rightarrow> ('s \<Rightarrow> ('e + 'a) \<times> 's) \<Rightarrow> ('a \<Rightarrow> 's \<Rightarrow> bool) \<Rightarrow> ('e \<Rightarrow> 's \<Rightarrow> bool) \<Rightarrow> bool" where
  "triple I m Q E \<longleftrightarrow> (\<forall>s. I s \<longrightarrow>
     (case m s of (Inr x, s') \<Rightarrow> Q x s' | (Inl e, s') \<Rightarrow> E e s'))"

named_theorems vc \<open>rules that take a triple apart\<close>

lemma triple_bind [vc]:
  "triple I m R E \<Longrightarrow> (\<And>x. triple (R x) (f x) Q E) \<Longrightarrow> triple I (try_bind m f) Q E"
  by (fastforce simp: triple_def try_bind_def split: prod.splits sum.splits)

lemma triple_then [vc]:
  "triple I m (\<lambda>_. R) E \<Longrightarrow> triple R f Q E \<Longrightarrow> triple I (try_then m f) Q E"
  unfolding try_then_def by (rule triple_bind)

lemma triple_ok [vc]: "(\<And>s. I s \<Longrightarrow> Q x s) \<Longrightarrow> triple I (ok_with x) Q E"
  by (simp add: triple_def ok_with_def)

lemma triple_fail [vc]: "(\<And>s. I s \<Longrightarrow> E e s) \<Longrightarrow> triple I (fail_with e) Q E"
  by (simp add: triple_def fail_with_def)

lemma triple_conseq:
  "triple I' m Q' E' \<Longrightarrow> (\<And>s. I s \<Longrightarrow> I' s) \<Longrightarrow> (\<And>x s. Q' x s \<Longrightarrow> Q x s) \<Longrightarrow> (\<And>e s. E' e s \<Longrightarrow> E e s)
    \<Longrightarrow> triple I m Q E"
  by (fastforce simp: triple_def split: prod.splits sum.splits)

lemma triple_pre: "triple I' m Q E \<Longrightarrow> (\<And>s. I s \<Longrightarrow> I' s) \<Longrightarrow> triple I m Q E"
  by (simp add: triple_def)

lemma tripleD:
  assumes "triple I m Q E" "I s"
  shows "m s = (Inr x, s') \<Longrightarrow> Q x s'" "m s = (Inl e, s') \<Longrightarrow> E e s'"
  using assms by (auto simp: triple_def dest!: spec [of _ s])

lemma triple_if [vc]:
  "(b \<Longrightarrow> triple I m Q E) \<Longrightarrow> (\<not> b \<Longrightarrow> triple I m' Q E) \<Longrightarrow> triple I (if b then m else m') Q E"
  by simp

section \<open>Reads\<close>

definition reads :: "'h bus \<Rightarrow> 'h \<Rightarrow> 'h \<Rightarrow> bool" where
  "reads B h h' \<longleftrightarrow> (\<exists>as. h' = read_all B as h)"

lemma reads_refl [simp]: "reads B h h"
  unfolding reads_def by (rule exI [of _ "[]"]) simp

lemma read_all_append: "read_all B (as @ bs) h = read_all B bs (read_all B as h)"
  by (induction as arbitrary: h) simp_all

lemma reads_step: "reads B h h' \<Longrightarrow> reads B h (snd (rd B a h'))"
  unfolding reads_def by (metis read_all.simps read_all_append)

lemma reads_closed: "reads B h h' \<Longrightarrow> read_closed B Q \<Longrightarrow> Q h \<Longrightarrow> Q h'"
proof -
  assume "reads B h h'" and Q: "read_closed B Q" "Q h"
  then obtain as where "h' = read_all B as h" by (auto simp: reads_def)
  moreover have "Q (read_all B as h)"
    using Q by (induction as arbitrary: h) (auto dest: read_closedD)
  ultimately show "Q h'" by simp
qed

section \<open>Cursor and expression parsers\<close>

text \<open>At most \<open>t\<close> tokens to come, \<open>C\<close> of the compiler, and only reads since \<open>h0\<close>.\<close>

definition ntoks :: "'h pst \<Rightarrow> nat" where "ntoks s = length (upcoming (cur s))"

definition pinv :: "'h bus \<Rightarrow> 'h \<Rightarrow> (Compiler \<Rightarrow> bool) \<Rightarrow> nat \<Rightarrow> 'h pst \<Rightarrow> bool" where
  "pinv B h0 C t s \<longleftrightarrow> wf_cur (cur s) \<and> ntoks s \<le> t \<and> C (comp s) \<and> reads B h0 (phw s)"

text \<open>The error postcondition: fuel never ran out.\<close>

definition perr :: "'h bus \<Rightarrow> 'h \<Rightarrow> (Compiler \<Rightarrow> bool) \<Rightarrow> parse_fail \<Rightarrow> 'h pst \<Rightarrow> bool" where
  "perr B h0 C e s \<longleftrightarrow> e \<noteq> OutOfFuel \<and> C (comp s) \<and> reads B h0 (phw s)"

lemma pinv_mono: "pinv B h0 C t s \<Longrightarrow> t \<le> t' \<Longrightarrow> pinv B h0 C t' s"
  by (simp add: pinv_def)

lemma pinv_perr: "pinv B h0 C t s \<Longrightarrow> e \<noteq> OutOfFuel \<Longrightarrow> perr B h0 C e s"
  by (simp add: pinv_def perr_def)

lemma triple_next:
  "triple (pinv B h0 C t) next_tok
     (\<lambda>x s. pinv B h0 C (t - 1) s \<and> (t = 0 \<longrightarrow> x = Eof)) (perr B h0 C)"
  unfolding triple_def
proof (intro allI impI)
  fix s assume s: "pinv B h0 C t s"
  then have c: "wf_cur (cur s)" by (simp add: pinv_def)
  have "length (upcoming (snd (cur_next (cur s)))) \<le> length (upcoming (cur s)) - 1"
    by (rule cursor.nxt_length [OF c])
  moreover have "upcoming (cur s) = [] \<Longrightarrow> fst (cur_next (cur s)) = Eof"
    by (simp add: cursor.nxt_law [OF c])
  ultimately show "case next_tok s of
      (Inr x, s') \<Rightarrow> pinv B h0 C (t - 1) s' \<and> (t = 0 \<longrightarrow> x = Eof) | (Inl e, s') \<Rightarrow> perr B h0 C e s'"
    using s cursor.nxt_law [OF c]
    by (auto simp: next_tok_def pinv_def ntoks_def split_beta)
qed

lemma triple_peek:
  "triple (pinv B h0 C t) peek_tok
     (\<lambda>x s. pinv B h0 C t s \<and> (t = 0 \<longrightarrow> x = Eof)) (perr B h0 C)"
  unfolding triple_def
proof (intro allI impI)
  fix s assume s: "pinv B h0 C t s"
  then have c: "wf_cur (cur s)" by (simp add: pinv_def)
  show "case peek_tok s of
      (Inr x, s') \<Rightarrow> pinv B h0 C t s' \<and> (t = 0 \<longrightarrow> x = Eof) | (Inl e, s') \<Rightarrow> perr B h0 C e s'"
    using s cursor.pk_law [OF c]
    by (auto simp: peek_tok_def pinv_def ntoks_def split_beta)
qed

text \<open>A parser that keeps the invariant for any number of tokens up to \<open>t\<close>.\<close>

definition good :: "'h bus \<Rightarrow> nat \<Rightarrow> ('h, 'a) parser \<Rightarrow> bool" where
  "good B t m \<longleftrightarrow> (\<forall>h0 C. triple (pinv B h0 C t) m (\<lambda>_. pinv B h0 C t) (perr B h0 C))"

lemma goodD: "good B t m \<Longrightarrow> triple (pinv B h0 C t) m (\<lambda>_. pinv B h0 C t) (perr B h0 C)"
  by (simp add: good_def)

lemma good_mono_post:
  assumes "good B t m" and "t \<le> t'"
  shows "triple (pinv B h0 C t) m (\<lambda>_. pinv B h0 C t') (perr B h0 C)"
  by (rule triple_conseq [OF goodD [OF assms(1), of h0 C]]) (use assms(2) in \<open>auto intro: pinv_mono\<close>)

lemma good_bind: "good B t m \<Longrightarrow> (\<And>x. good B t (f x)) \<Longrightarrow> good B t (try_bind m f)"
  unfolding good_def by (blast intro: triple_bind)

lemma good_then: "good B t m \<Longrightarrow> good B t f \<Longrightarrow> good B t (try_then m f)"
  unfolding try_then_def by (rule good_bind)

lemma good_ok: "good B t (ok_with x)"
  by (simp add: good_def triple_def ok_with_def)

lemma good_reject: "good B t (reject e)"
  by (simp add: good_def triple_def reject_def fail_with_def perr_def pinv_def)

lemma good_of_result: "good B t (of_result r)"
  by (simp add: of_result_def good_ok good_reject split: sum.split)

lemma good_next:
  assumes "\<And>x. 0 < t \<Longrightarrow> good B (t - 1) (f x)" and "t = 0 \<Longrightarrow> good B 0 (f Eof)"
  shows "good B t (try_bind next_tok f)"
  unfolding good_def
proof (intro allI)
  fix h0 C
  show "triple (pinv B h0 C t) (try_bind next_tok f) (\<lambda>_. pinv B h0 C t) (perr B h0 C)"
  proof (rule triple_bind [OF triple_next])
    fix x
    show "triple (\<lambda>s. pinv B h0 C (t - 1) s \<and> (t = 0 \<longrightarrow> x = Eof)) (f x) (\<lambda>_. pinv B h0 C t) (perr B h0 C)"
    proof (cases "t = 0")
      case True
      then show ?thesis
        using goodD [OF assms(2), of h0 C] by (cases "x = Eof") (auto simp: triple_def)
    next
      case False
      then show ?thesis
        by (intro triple_pre [OF good_mono_post [OF assms(1)]]) simp_all
    qed
  qed
qed

lemma good_next_then:
  "(0 < t \<Longrightarrow> good B (t - 1) m) \<Longrightarrow> (t = 0 \<Longrightarrow> good B 0 m) \<Longrightarrow> good B t (try_then next_tok m)"
  unfolding try_then_def by (rule good_next)

lemma good_peek:
  assumes "\<And>x. 0 < t \<Longrightarrow> good B t (f x)" and "t = 0 \<Longrightarrow> good B 0 (f Eof)"
  shows "good B t (try_bind peek_tok f)"
  unfolding good_def
proof (intro allI)
  fix h0 C
  show "triple (pinv B h0 C t) (try_bind peek_tok f) (\<lambda>_. pinv B h0 C t) (perr B h0 C)"
  proof (rule triple_bind [OF triple_peek])
    fix x
    show "triple (\<lambda>s. pinv B h0 C t s \<and> (t = 0 \<longrightarrow> x = Eof)) (f x) (\<lambda>_. pinv B h0 C t) (perr B h0 C)"
    proof (cases "t = 0")
      case True
      then show ?thesis
        using goodD [OF assms(2), of h0 C] by (cases "x = Eof") (auto simp: triple_def)
    next
      case False
      then show ?thesis
        by (intro triple_pre [OF goodD [OF assms(1)]]) simp_all
    qed
  qed
qed

lemma good_read: "good (hw P) t (read_word P addr)"
  by (auto simp: good_def triple_def read_word_def peek_u32_def pinv_def ntoks_def split_beta intro: reads_step)

lemma good_symbol: "good B t (symbol_value i)"
  by (auto simp: good_def triple_def symbol_value_def pinv_def perr_def split: option.splits)

lemma good_expect: "good B t (expect x)"
  unfolding expect_def by (rule good_next) (simp_all add: good_ok good_reject)

lemma good_expect_semicolon: "good B t expect_semicolon"
  unfolding expect_semicolon_def by (rule good_next) (simp_all add: good_ok good_reject)

lemma good_allow_semicolon: "good B t allow_optional_semicolon"
  unfolding allow_optional_semicolon_def
  by (rule good_peek) (auto intro!: good_ok good_next_then)

lemma good_expect_name: "good B t expect_name"
  unfolding expect_name_def
  by (rule good_next) (simp_all add: good_reject good_of_result split: Token.split)

lemmas good_rules = good_bind good_then good_ok good_reject good_of_result good_read good_symbol
  good_expect good_expect_semicolon good_allow_semicolon good_expect_name

section \<open>Fuel\<close>

text \<open>Enough fuel for \<open>t\<close> tokens, for all four parsers at once.\<close>

definition fueled :: "('e, 'h) platform \<Rightarrow> nat \<Rightarrow> nat \<Rightarrow> bool" where
  "fueled P n t \<longleftrightarrow>
     (2 * t + 1 \<le> n \<longrightarrow> (\<forall>acc. good (hw P) t (eval_rest P n acc))) \<and>
     (2 * t + 2 \<le> n \<longrightarrow> good (hw P) t (eval_expr P n None) \<and> good (hw P) t (parse_atomic_term P n)) \<and>
     (2 * t + 3 \<le> n \<longrightarrow> (\<forall>tok. good (hw P) t (resolve_term P n tok))) \<and>
     (2 * t + 4 \<le> n \<longrightarrow> (\<forall>tok. good (hw P) t (eval_expr P n (Some tok)))) \<and>
     (1 \<le> n \<longrightarrow> good (hw P) t (resolve_term P n Eof))"

abbreviation paren_term :: "('e, 'h) platform \<Rightarrow> nat \<Rightarrow> ('h, u32) parser" where
  "paren_term P n \<equiv> try_bind (eval_expr P n None) (\<lambda>val. try_then (expect RParen) (ok_with val))"

lemma fueledD:
  assumes "\<And>t. fueled P n t"
  shows "2 * t + 1 \<le> n \<Longrightarrow> good (hw P) t (eval_rest P n acc)"
    "2 * t + 2 \<le> n \<Longrightarrow> good (hw P) t (eval_expr P n None)" "2 * t + 2 \<le> n \<Longrightarrow> good (hw P) t (parse_atomic_term P n)"
    "2 * t + 3 \<le> n \<Longrightarrow> good (hw P) t (resolve_term P n tok)" "1 \<le> n \<Longrightarrow> good (hw P) t (resolve_term P n Eof)"
    "2 * t + 3 \<le> n \<Longrightarrow> good (hw P) t (if tok = LParen then paren_term P n else resolve_term P n tok)"
proof -
  show "2 * t + 1 \<le> n \<Longrightarrow> good (hw P) t (eval_rest P n acc)"
    and e: "2 * t + 2 \<le> n \<Longrightarrow> good (hw P) t (eval_expr P n None)" and "2 * t + 2 \<le> n \<Longrightarrow> good (hw P) t (parse_atomic_term P n)"
    and r: "2 * t + 3 \<le> n \<Longrightarrow> good (hw P) t (resolve_term P n tok)" and "1 \<le> n \<Longrightarrow> good (hw P) t (resolve_term P n Eof)"
    using assms [of t] by (simp_all add: fueled_def)
  show "2 * t + 3 \<le> n \<Longrightarrow> good (hw P) t (if tok = LParen then paren_term P n else resolve_term P n tok)"
    using e r by (auto intro!: good_rules)
qed

text \<open>One operator and its right operand, then the rest.\<close>

lemma fueled_operation:
  assumes "\<And>t. fueled P n t" and "2 * t \<le> n" and "0 < t"
  shows "good (hw P) t (try_then next_tok (try_bind next_tok (\<lambda>rhs_tok. try_bind
      (if rhs_tok = LParen then paren_term P n else resolve_term P n rhs_tok)
      (\<lambda>rhs. try_bind (of_result (apply_op op acc rhs)) (\<lambda>acc'. eval_rest P n acc')))))"
proof (rule good_next_then)
  note F = fueledD [OF assms(1)]
  show "good (hw P) (t - 1) (try_bind next_tok (\<lambda>rhs_tok. try_bind
      (if rhs_tok = LParen then paren_term P n else resolve_term P n rhs_tok)
      (\<lambda>rhs. try_bind (of_result (apply_op op acc rhs)) (\<lambda>acc'. eval_rest P n acc'))))"
  proof (rule good_next)
    fix rhs_tok assume "0 < t - 1"
    then show "good (hw P) (t - 1 - 1) (try_bind (if rhs_tok = LParen then paren_term P n else resolve_term P n rhs_tok)
        (\<lambda>rhs. try_bind (of_result (apply_op op acc rhs)) (\<lambda>acc'. eval_rest P n acc')))"
      using assms(2) by (intro good_bind F(6) good_of_result F(1)) simp_all
  next
    show "good (hw P) 0 (try_bind (if Eof = LParen then paren_term P n else resolve_term P n Eof)
        (\<lambda>rhs. try_bind (of_result (apply_op op acc rhs)) (\<lambda>acc'. eval_rest P n acc')))"
      using assms(2,3) by (simp, intro good_bind F(5) good_of_result F(1)) simp_all
  qed
qed (use assms(3) in simp)

lemma fueled_steps:
  assumes "\<And>t. fueled P n t"
  shows "2 * t + 1 \<le> Suc n \<Longrightarrow> good (hw P) t (eval_rest P (Suc n) acc)"
    "2 * t + 2 \<le> Suc n \<Longrightarrow> good (hw P) t (eval_expr P (Suc n) None)"
    "2 * t + 2 \<le> Suc n \<Longrightarrow> good (hw P) t (parse_atomic_term P (Suc n))"
    "2 * t + 3 \<le> Suc n \<Longrightarrow> good (hw P) t (resolve_term P (Suc n) tok)"
    "2 * t + 4 \<le> Suc n \<Longrightarrow> good (hw P) t (eval_expr P (Suc n) (Some tok))"
proof -
  note F = fueledD [OF assms]
  show "good (hw P) t (eval_rest P (Suc n) acc)" if n: "2 * t + 1 \<le> Suc n"
    unfolding eval_rest.simps
  proof (rule good_peek)
    fix x assume t: "0 < t"
    show "good (hw P) t (case x of
        Operator op \<Rightarrow>
          if \<not> is_arith op then ok_with acc
          else try_then next_tok (try_bind next_tok (\<lambda>rhs_tok. try_bind
            (if rhs_tok = LParen then paren_term P n else resolve_term P n rhs_tok)
            (\<lambda>rhs. try_bind (of_result (apply_op op acc rhs)) (\<lambda>acc'. eval_rest P n acc'))))
        | _ \<Rightarrow> ok_with acc)"
      using fueled_operation [OF assms _ t] n by (cases x) (simp_all add: good_ok)
  qed (simp add: good_ok)
  show "good (hw P) t (eval_expr P (Suc n) None)" if n: "2 * t + 2 \<le> Suc n"
    unfolding eval_expr.simps option.simps
  proof (rule good_next)
    show "good (hw P) (t - 1) (try_bind (if x = LParen then paren_term P n else resolve_term P n x) (eval_rest P n))" if "0 < t" for x
      using n that by (intro good_bind F(6) F(1)) simp_all
    show "good (hw P) 0 (try_bind (if Eof = LParen then paren_term P n else resolve_term P n Eof) (eval_rest P n))"
      using n by (simp, intro good_bind F(5) F(1)) simp_all
  qed
  show "good (hw P) t (parse_atomic_term P (Suc n))" if n: "2 * t + 2 \<le> Suc n"
    unfolding parse_atomic_term.simps
  proof (rule good_next)
    show "good (hw P) (t - 1) (if x = LParen then paren_term P n else resolve_term P n x)" if "0 < t" for x
      using n that by (intro F(6)) simp
    show "good (hw P) 0 (if Eof = LParen then paren_term P n else resolve_term P n Eof)"
      using n by (simp, intro F(5)) simp
  qed
  show "good (hw P) t (resolve_term P (Suc n) tok)" if n: "2 * t + 3 \<le> Suc n"
  proof -
    have "good (hw P) t (try_bind (parse_atomic_term P n) (read_word P))" using n by (intro good_bind F(3) good_read) simp
    then show ?thesis by (cases tok) (simp_all add: good_ok good_reject good_symbol)
  qed
  show "good (hw P) t (eval_expr P (Suc n) (Some tok))" if "2 * t + 4 \<le> Suc n"
    using that unfolding eval_expr.simps option.simps by (intro good_bind good_ok F(6) F(1)) simp_all
qed

lemma fueled: "fueled P n t"
proof (induction n arbitrary: t)
  case 0
  show ?case by (simp add: fueled_def)
next
  case (Suc n)
  have "good (hw P) t (resolve_term P (Suc n) Eof)" by (simp add: good_reject)
  with fueled_steps [OF Suc.IH] show ?case by (simp add: fueled_def)
qed

lemma good_eval: "expr_fuel t \<le> n \<Longrightarrow> good (hw P) t (eval_expr P n first)"
  using fueled [of P n t] by (cases first) (simp_all add: fueled_def expr_fuel_def)

lemma good_atomic: "expr_fuel t \<le> n \<Longrightarrow> good (hw P) t (parse_atomic_term P n)"
  using fueled [of P n t] by (simp add: fueled_def expr_fuel_def)

section \<open>The compiler invariant\<close>

text \<open>A stored function body is the stream of a list of \<open>poke\<close> and \<open>peek\<close> statements.\<close>

datatype bstmt = SPoke u32 u32 | SPeek u32

fun stmt_ops :: "bstmt \<Rightarrow> rpn_op list" where
  "stmt_ops (SPoke a v) = poke_ops a v"
| "stmt_ops (SPeek a) = peek_ops [a]"

fun stmt_addr :: "bstmt \<Rightarrow> u32" where
  "stmt_addr (SPoke a v) = a"
| "stmt_addr (SPeek a) = a"

definition body_ops :: "bstmt list \<Rightarrow> rpn_op list" where
  "body_ops ss = concat (map stmt_ops ss)"

lemma body_ops_simps [simp]:
  "body_ops [] = []" "body_ops (x # ss) = stmt_ops x @ body_ops ss" "body_ops (ss @ ss') = body_ops ss @ body_ops ss'"
  by (simp_all add: body_ops_def)

text \<open>\<open>A\<close> is what is known of the addresses, e.g. that the check granted them at some time.\<close>

definition body_code :: "(prim \<Rightarrow> usize) \<Rightarrow> (u32 \<Rightarrow> bool) \<Rightarrow> usize list \<Rightarrow> bool" where
  "body_code lay A ws \<longleftrightarrow> (\<exists>ss. ws = enc lay (body_ops ss) \<and> list_all (\<lambda>x. A (stmt_addr x)) ss)"

definition wf_comp :: "(prim \<Rightarrow> usize) \<Rightarrow> (u32 \<Rightarrow> bool) \<Rightarrow> Compiler \<Rightarrow> bool" where
  "wf_comp lay A c \<longleftrightarrow>
     wf_symbols (symbols c)
     \<and> length (fn_names c) = MAX_FNS \<and> list_all wf_name (fn_names c)
     \<and> length (fn_bodies c) = MAX_FNS \<and> list_all (\<lambda>b. length b = FN_BODY_WORDS) (fn_bodies c)
     \<and> length (fn_body_lens c) = MAX_FNS \<and> list_all (\<lambda>n. n \<le> FN_BODY_WORDS) (fn_body_lens c)
     \<and> (\<forall>i<MAX_FNS. body_code lay A (take (fn_body_lens c ! i) (fn_bodies c ! i)))
     \<and> length (out_stream c) = MAX_STREAM_WORDS \<and> stream_len c \<le> MAX_STREAM_WORDS"

lemma body_code_simps [intro]:
  "body_code lay A []"
  "body_code lay A ws \<Longrightarrow> body_code lay A us \<Longrightarrow> body_code lay A (ws @ us)"
  "A a \<Longrightarrow> body_code lay A [lay Lit, a, lay Lit, v, lay WriteReg]"
  "A a \<Longrightarrow> body_code lay A [lay Lit, a, lay LoadReg]"
proof -
  show "body_code lay A []" unfolding body_code_def by (rule exI [of _ "[]"]) simp
  show "body_code lay A ws \<Longrightarrow> body_code lay A us \<Longrightarrow> body_code lay A (ws @ us)"
    unfolding body_code_def by (metis body_ops_simps(3) enc_simps(3) list_all_append)
  show "A a \<Longrightarrow> body_code lay A [lay Lit, a, lay Lit, v, lay WriteReg]"
    unfolding body_code_def by (rule exI [of _ "[SPoke a v]"]) (simp add: poke_ops_def)
  show "A a \<Longrightarrow> body_code lay A [lay Lit, a, lay LoadReg]"
    unfolding body_code_def by (rule exI [of _ "[SPeek a]"]) simp
qed

lemma wf_comp_new: "wf_comp lay A compiler_new"
proof -
  have "length (replicate NAME_MAX (0 :: u8)) = NAME_MAX" by simp
  then show ?thesis
    by (auto simp: wf_comp_def compiler_new_def wf_symbols_empty wf_name_def MAX_FNS_def list_all_iff)
qed

text \<open>The stream so far.\<close>

definition emitted :: "(prim \<Rightarrow> usize) \<Rightarrow> (u32 \<Rightarrow> bool) \<Rightarrow> usize list \<Rightarrow> Compiler \<Rightarrow> bool" where
  "emitted lay A ws c \<longleftrightarrow> wf_comp lay A c \<and> take (stream_len c) (out_stream c) = ws"

definition in_body :: "(prim \<Rightarrow> usize) \<Rightarrow> (u32 \<Rightarrow> bool) \<Rightarrow> Compiler \<Rightarrow> bool" where
  "in_body lay A c \<longleftrightarrow> (\<exists>ws. body_code lay A ws \<and> emitted lay A ws c)"

lemma emitted_wf: "emitted lay A ws c \<Longrightarrow> wf_comp lay A c" "in_body lay A c \<Longrightarrow> wf_comp lay A c"
  by (auto simp: emitted_def in_body_def)

lemma emitted_len: "emitted lay A ws c \<Longrightarrow> stream_len c = length ws"
  by (auto simp: emitted_def wf_comp_def)

section \<open>Emission\<close>

lemma triple_good:
  assumes "good B t m" and "\<And>c. C c \<Longrightarrow> W c"
  shows "triple (pinv B h0 C t) m (\<lambda>_. pinv B h0 C t) (perr B h0 W)"
  by (rule triple_conseq [OF goodD [OF assms(1), of h0 C]]) (use assms(2) in \<open>auto simp: perr_def\<close>)

lemma triple_stream_reset:
  "triple (pinv B h0 (wf_comp lay A) t) stream_reset (\<lambda>_. pinv B h0 (emitted lay A []) t) (perr B h0 (wf_comp lay A))"
  by (simp add: triple_def stream_reset_def pinv_def emitted_def wf_comp_def ntoks_def)

lemma triple_stream_push:
  "triple (pinv B h0 (emitted lay A ws) t) (stream_push w)
     (\<lambda>_. pinv B h0 (emitted lay A (ws @ [w])) t) (perr B h0 (wf_comp lay A))"
  unfolding triple_def
proof (intro allI impI)
  fix s assume s: "pinv B h0 (emitted lay A ws) t s"
  show "case stream_push w s of (Inr x, s') \<Rightarrow> pinv B h0 (emitted lay A (ws @ [w])) t s'
    | (Inl e, s') \<Rightarrow> perr B h0 (wf_comp lay A) e s'"
  proof (cases "MAX_STREAM_WORDS \<le> stream_len (comp s)")
    case True
    then show ?thesis using s by (simp add: stream_push_def pinv_def perr_def emitted_def)
  next
    case False
    then show ?thesis
      using s by (simp add: stream_push_def Let_def pinv_def emitted_def wf_comp_def ntoks_def take_Suc_conv_app_nth)
  qed
qed

lemma triple_push_words:
  "triple (pinv B h0 (emitted lay A ws) t) (push_words us)
     (\<lambda>_. pinv B h0 (emitted lay A (ws @ us)) t) (perr B h0 (wf_comp lay A))"
proof (induction us arbitrary: ws)
  case Nil
  show ?case by (simp add: triple_ok)
next
  case (Cons u us)
  show ?case
    using triple_then [OF triple_stream_push Cons.IH [of "ws @ [u]"]] by simp
qed

lemma triple_push_lit:
  "triple (pinv B h0 (emitted lay A ws) t) (stream_push_lit P v)
     (\<lambda>_. pinv B h0 (emitted lay A (ws @ [layout P Lit, v])) t) (perr B h0 (wf_comp lay A))"
  unfolding stream_push_lit_def
  using triple_then [OF triple_stream_push triple_stream_push, of B h0 lay A ws t "layout P Lit" v] by simp

lemma triple_take_program:
  "triple (pinv B h0 (emitted lay A ws) t) (take_program y)
     (\<lambda>p s. pinv B h0 (wf_comp lay A) t s \<and> length ws \<le> MAX_STREAM_WORDS
        \<and> p = \<lparr>prog_words = ws @ replicate (MAX_STREAM_WORDS - length ws) 0, prog_len = length ws, yields_value = y\<rparr>)
     (perr B h0 (wf_comp lay A))"
  by (auto simp: triple_def take_program_def Let_def pinv_def emitted_def copy_prefix_def wf_comp_def)

lemma triple_lookup_fn:
  "triple (pinv B h0 C t) (lookup_fn name) (\<lambda>i s. pinv B h0 C t s \<and> i < MAX_FNS) (perr B h0 C)"
  by (auto simp: triple_def lookup_fn_def find_fn_def pinv_def perr_def find_Some_iff split: option.splits)

lemma triple_push_body:
  assumes "i < MAX_FNS"
  shows "triple (pinv B h0 (emitted lay A ws) t) (push_body i)
     (\<lambda>_ s. \<exists>us. body_code lay A us \<and> length us \<le> FN_BODY_WORDS \<and> pinv B h0 (emitted lay A (ws @ us)) t s)
     (perr B h0 (wf_comp lay A))"
  unfolding triple_def
proof (intro allI impI)
  fix s assume s: "pinv B h0 (emitted lay A ws) t s"
  let ?c = "comp s"
  let ?us = "map (\<lambda>w. fn_bodies ?c ! i ! w) [0..<fn_body_lens ?c ! i]"
  have wf: "wf_comp lay A ?c" using s by (simp add: pinv_def emitted_def)
  have "fn_body_lens ?c ! i \<le> FN_BODY_WORDS" "length (fn_bodies ?c ! i) = FN_BODY_WORDS"
    using wf assms by (auto simp: wf_comp_def list_all_length)
  then have us: "?us = take (fn_body_lens ?c ! i) (fn_bodies ?c ! i)" "length ?us \<le> FN_BODY_WORDS"
    by (simp_all add: list_eq_iff_nth_eq)
  then have "body_code lay A ?us" using wf assms by (simp add: wf_comp_def)
  moreover have "case push_words ?us s of (Inr x, s') \<Rightarrow> pinv B h0 (emitted lay A (ws @ ?us)) t s'
    | (Inl e, s') \<Rightarrow> perr B h0 (wf_comp lay A) e s'"
    using triple_push_words [of B h0 lay A ws t ?us] s by (simp add: triple_def)
  ultimately show "case push_body i s of
      (Inr x, s') \<Rightarrow> \<exists>us. body_code lay A us \<and> length us \<le> FN_BODY_WORDS \<and> pinv B h0 (emitted lay A (ws @ us)) t s'
    | (Inl e, s') \<Rightarrow> perr B h0 (wf_comp lay A) e s'"
    using us(2) by (auto simp: push_body_def Let_def split: prod.splits sum.splits simp del: map_eq_conv)
qed

section \<open>Statements\<close>

text \<open>The addresses that the check grants.\<close>

definition granted :: "('e, 'h) platform \<Rightarrow> registry \<Rightarrow> u32 \<Rightarrow> bool" where
  "granted P r addr \<longleftrightarrow> check_access (target P) r addr = Inr ()"

lemma triple_require:
  "triple (pinv B h0 C t) (require_access P r addr)
     (\<lambda>_ s. pinv B h0 C t s \<and> granted P r addr) (perr B h0 C)"
  by (auto simp: triple_def require_access_def granted_def reject_def ok_with_def fail_with_def pinv_def perr_def
      split: sum.splits)

lemma triple_weaken_err:
  assumes "triple I m Q (perr B h0 C)" and "\<And>c. C c \<Longrightarrow> W c"
  shows "triple I m Q (perr B h0 W)"
  by (rule triple_conseq [OF assms(1)]) (use assms(2) in \<open>auto simp: perr_def\<close>)

lemma triple_name:
  "triple (pinv B h0 C t) expect_name (\<lambda>n s. pinv B h0 C t s \<and> wf_name n) (perr B h0 C)"
  unfolding expect_name_def
proof (rule triple_bind [OF triple_next])
  fix x
  show "triple (\<lambda>s. pinv B h0 C (t - 1) s \<and> (t = 0 \<longrightarrow> x = Eof))
      (case x of Identifier i \<Rightarrow> of_result (from_slice i) | _ \<Rightarrow> reject UnexpectedToken)
      (\<lambda>n s. pinv B h0 C t s \<and> wf_name n) (perr B h0 C)"
    by (cases x)
      (auto simp: triple_def of_result_def reject_def fail_with_def ok_with_def pinv_def perr_def
        split: sum.splits dest: from_slice_Inr(1))
qed

lemma triple_imp: "(b \<Longrightarrow> triple I m Q E) \<Longrightarrow> triple (\<lambda>s. I s \<and> b) m Q E"
  by (auto simp: triple_def)

lemma triple_dec: "triple (pinv B h0 C (t - 1)) m Q E \<Longrightarrow> triple (\<lambda>s. pinv B h0 C (t - 1) s \<and> b) m Q E"
  by (auto simp: triple_def)

lemma good_call_parens: "good B t parse_call_parens"
  unfolding parse_call_parens_def
  by (rule good_next_then) (intro good_rules)+

text \<open>Emitting the code of one more statement, whose address the check has granted.\<close>

lemma triple_emit:
  assumes "\<And>ws. triple (pinv B h0 (emitted L A ws) u) m (\<lambda>_. pinv B h0 (emitted L A (ws @ us)) u) (perr B h0 (wf_comp L A))"
    and "b \<Longrightarrow> body_code L A us"
  shows "triple (\<lambda>s. pinv B h0 (in_body L A) u s \<and> b) m (\<lambda>_. pinv B h0 (in_body L A) u) (perr B h0 (wf_comp L A))"
proof (rule triple_imp)
  assume b: b
  show "triple (pinv B h0 (in_body L A) u) m (\<lambda>_. pinv B h0 (in_body L A) u) (perr B h0 (wf_comp L A))"
    unfolding triple_def
  proof (intro allI impI)
    fix s assume s: "pinv B h0 (in_body L A) u s"
    then obtain ws where ws: "body_code L A ws" "pinv B h0 (emitted L A ws) u s"
      by (auto simp: pinv_def in_body_def)
    have "body_code L A (ws @ us)" by (intro body_code_simps ws assms(2) b)
    then show "case m s of (Inr x, s') \<Rightarrow> pinv B h0 (in_body L A) u s' | (Inl e, s') \<Rightarrow> perr B h0 (wf_comp L A) e s'"
      using assms(1) [of ws] ws(2)
      by (fastforce simp: triple_def pinv_def in_body_def split: prod.splits sum.splits)
  qed
qed

lemma triple_stmt_code:
  "triple (pinv B h0 (emitted (layout P) A ws) u)
     (try_then (stream_push_lit P addr) (try_then (stream_push_lit P val)
       (try_then (stream_push (layout P WriteReg)) (ok_with ()))))
     (\<lambda>_. pinv B h0 (emitted (layout P) A (ws @ [layout P Lit, addr, layout P Lit, val, layout P WriteReg])) u)
     (perr B h0 (wf_comp (layout P) A))"
  "triple (pinv B h0 (emitted (layout P) A ws) u)
     (try_then (stream_push_lit P addr) (try_then (stream_push (layout P LoadReg)) (ok_with ())))
     (\<lambda>_. pinv B h0 (emitted (layout P) A (ws @ [layout P Lit, addr, layout P LoadReg])) u)
     (perr B h0 (wf_comp (layout P) A))"
proof -
  have fin: "triple (pinv B h0 (emitted (layout P) A us) u) (ok_with ())
      (\<lambda>_. pinv B h0 (emitted (layout P) A us) u) (perr B h0 (wf_comp (layout P) A))" for us
    by (rule triple_ok)
  note lit = triple_push_lit [of B h0 "layout P" A _ u P] and push = triple_stream_push [of B h0 "layout P" A _ u]
  show "triple (pinv B h0 (emitted (layout P) A ws) u)
     (try_then (stream_push_lit P addr) (try_then (stream_push_lit P val)
       (try_then (stream_push (layout P WriteReg)) (ok_with ()))))
     (\<lambda>_. pinv B h0 (emitted (layout P) A (ws @ [layout P Lit, addr, layout P Lit, val, layout P WriteReg])) u)
     (perr B h0 (wf_comp (layout P) A))"
    using triple_then [OF lit triple_then [OF lit triple_then [OF push fin]]] by simp
  show "triple (pinv B h0 (emitted (layout P) A ws) u)
     (try_then (stream_push_lit P addr) (try_then (stream_push (layout P LoadReg)) (ok_with ())))
     (\<lambda>_. pinv B h0 (emitted (layout P) A (ws @ [layout P Lit, addr, layout P LoadReg])) u)
     (perr B h0 (wf_comp (layout P) A))"
    using triple_then [OF lit triple_then [OF push fin]] by simp
qed

lemma triple_splice:
  assumes "j < MAX_FNS"
  shows "triple (pinv B h0 (in_body L A) u) (push_body j) (\<lambda>_. pinv B h0 (in_body L A) u) (perr B h0 (wf_comp L A))"
  unfolding triple_def
proof (intro allI impI)
  fix s assume s: "pinv B h0 (in_body L A) u s"
  then obtain ws where ws: "body_code L A ws" "pinv B h0 (emitted L A ws) u s"
    by (auto simp: pinv_def in_body_def)
  note T = triple_push_body [OF assms, of B h0 L A ws u]
  obtain res s' where m: "push_body j s = (res, s')" by (cases "push_body j s")
  show "case push_body j s of (Inr x, s') \<Rightarrow> pinv B h0 (in_body L A) u s' | (Inl e, s') \<Rightarrow> perr B h0 (wf_comp L A) e s'"
  proof (cases res)
    case (Inl e)
    then show ?thesis using tripleD(2) [OF T ws(2)] m by simp
  next
    case (Inr x)
    then obtain us where us: "body_code L A us" "pinv B h0 (emitted L A (ws @ us)) u s'"
      using tripleD(1) [OF T ws(2)] m by blast
    have "body_code L A (ws @ us)" by (rule body_code_simps(2) [OF ws(1) us(1)])
    with us(2) show ?thesis using m Inr by (auto simp: pinv_def in_body_def)
  qed
qed

text \<open>The three kinds of code that a body statement emits, each for an address that the check
  has granted.\<close>

lemma triple_stmt_emits:
  assumes A: "\<And>a. granted P r a \<Longrightarrow> A a"
  defines "L \<equiv> layout P"
  shows "triple (\<lambda>s. pinv B h0 (in_body L A) u s \<and> granted P r addr)
      (try_then (stream_push_lit P addr) (try_then (stream_push_lit P val)
        (try_then (stream_push (layout P WriteReg)) (ok_with ()))))
      (\<lambda>_. pinv B h0 (in_body L A) u) (perr B h0 (wf_comp L A))"
    "triple (\<lambda>s. pinv B h0 (in_body L A) u s \<and> granted P r addr)
      (try_then (stream_push_lit P addr) (try_then (stream_push (layout P LoadReg)) (ok_with ())))
      (\<lambda>_. pinv B h0 (in_body L A) u) (perr B h0 (wf_comp L A))"
    "triple (pinv B h0 (in_body L A) u) (splice_call i) (\<lambda>_. pinv B h0 (in_body L A) u) (perr B h0 (wf_comp L A))"
proof -
  show "triple (\<lambda>s. pinv B h0 (in_body L A) u s \<and> granted P r addr)
      (try_then (stream_push_lit P addr) (try_then (stream_push_lit P val)
        (try_then (stream_push (layout P WriteReg)) (ok_with ()))))
      (\<lambda>_. pinv B h0 (in_body L A) u) (perr B h0 (wf_comp L A))"
    by (rule triple_emit [where us = "[L Lit, addr, L Lit, val, L WriteReg]"])
      (use triple_stmt_code(1) [where P = P] in \<open>simp add: L_def\<close>, intro body_code_simps A)
  show "triple (\<lambda>s. pinv B h0 (in_body L A) u s \<and> granted P r addr)
      (try_then (stream_push_lit P addr) (try_then (stream_push (layout P LoadReg)) (ok_with ())))
      (\<lambda>_. pinv B h0 (in_body L A) u) (perr B h0 (wf_comp L A))"
    by (rule triple_emit [where us = "[L Lit, addr, L LoadReg]"])
      (use triple_stmt_code(2) [where P = P] in \<open>simp add: L_def\<close>, intro body_code_simps A)
  show "triple (pinv B h0 (in_body L A) u) (splice_call i) (\<lambda>_. pinv B h0 (in_body L A) u) (perr B h0 (wf_comp L A))"
    unfolding splice_call_def
  proof (rule triple_bind [OF triple_weaken_err [OF triple_lookup_fn emitted_wf(2)]])
    show "triple (\<lambda>s. pinv B h0 (in_body L A) u s \<and> j < MAX_FNS) (push_body j) (\<lambda>_. pinv B h0 (in_body L A) u) (perr B h0 (wf_comp L A))" for j
      by (rule triple_imp) (rule triple_splice)
  qed
qed

text \<open>One body statement extends the emitted body; any failure keeps the compiler well-formed.\<close>

lemma triple_body_stmt:
  assumes "expr_fuel t \<le> n" and A: "\<And>a. granted P r a \<Longrightarrow> A a"
  defines "B \<equiv> hw P"
  shows "triple (pinv B h0 (in_body (layout P) A) t) (parse_body_stmt P r n)
    (\<lambda>_. pinv B h0 (in_body (layout P) A) (t - 1)) (perr B h0 (wf_comp (layout P) A))"
  unfolding parse_body_stmt_def
proof (rule triple_bind [OF triple_weaken_err [OF triple_next emitted_wf(2)]])
  let ?W = "wf_comp (layout P) A" and ?I = "in_body (layout P) A" and ?u = "t - 1"
  have n: "expr_fuel ?u \<le> n" using assms(1) by (simp add: expr_fuel_def)
  have keep: "triple (pinv B h0 ?I ?u) m (\<lambda>_. pinv B h0 ?I ?u) (perr B h0 ?W)" if "good B ?u m" for m :: "(_, 'x) parser"
    using that emitted_wf(2) by (rule triple_good)
  have rej: "triple I (reject e) Q (perr B h0 ?W)" if "\<And>s. I s \<Longrightarrow> pinv B h0 ?I ?u s" for I e and Q :: "'x \<Rightarrow> _"
    using that emitted_wf(2) by (fastforce simp: triple_def reject_def fail_with_def pinv_def perr_def)
  note rules = triple_bind [OF keep [OF good_atomic [OF n, where P = P, folded B_def]]]
    triple_bind [OF keep [OF good_eval [OF n, where P = P, folded B_def]]]
    triple_then [OF keep [OF good_eval [OF n, where P = P, folded B_def]]]
    triple_then [OF keep [OF good_expect_semicolon]] triple_then [OF keep [OF good_call_parens]]
    triple_then [OF triple_weaken_err [OF triple_require emitted_wf(2)]]
    triple_stmt_emits(1,2) [where P = P and r = r and A = A and B = B and ?h0.0 = h0]
    triple_then [OF triple_stmt_emits(3) [where P = P and r = r and A = A and B = B and ?h0.0 = h0]] triple_ok
  have pk: "triple (pinv B h0 ?I ?u) peek_tok (\<lambda>_. pinv B h0 ?I ?u) (perr B h0 ?W)"
    by (rule triple_conseq [OF triple_peek [of B h0 ?I ?u]]) (auto simp: perr_def intro: emitted_wf(2))
  show "triple (\<lambda>s. pinv B h0 ?I ?u s \<and> (t = 0 \<longrightarrow> x = Eof)) (case x of
     Identifier i \<Rightarrow>
       if i = byte_str ''poke'' then
         try_bind (parse_atomic_term P n) (\<lambda>addr.
         try_bind (eval_expr P n None) (\<lambda>val.
         try_then expect_semicolon
         (try_then (require_access P r addr)
         (try_then (stream_push_lit P addr)
         (try_then (stream_push_lit P val)
         (try_then (stream_push (layout P WriteReg)) (ok_with ())))))))
       else if i = byte_str ''peek'' then
         try_bind (parse_atomic_term P n) (\<lambda>addr.
         try_then expect_semicolon
         (try_then (require_access P r addr)
         (try_then (stream_push_lit P addr)
         (try_then (stream_push (layout P LoadReg)) (ok_with ())))))
       else try_bind peek_tok (\<lambda>t.
         if t = LParen then try_then parse_call_parens (try_then (splice_call i) (ok_with ()))
         else try_then (eval_expr P n (Some (Identifier i))) (try_then expect_semicolon (ok_with ())))
   | _ \<Rightarrow> reject UnexpectedToken) (\<lambda>_. pinv B h0 ?I ?u) (perr B h0 ?W)" for x
  proof (cases x)
    case (Identifier i)
    show ?thesis
      unfolding Identifier Token.case
      by (rule triple_dec, intro triple_if triple_bind [OF pk] rules A)
  qed (auto intro: rej)
qed

section \<open>Lines\<close>

text \<open>What a successful parse may return.\<close>

definition value_program :: "(prim \<Rightarrow> usize) \<Rightarrow> u32 \<Rightarrow> StreamProgram" where
  "value_program lay v = stream_of lay [Push v] (replicate 125 0) True"

definition call_program :: "(prim \<Rightarrow> usize) \<Rightarrow> bstmt list \<Rightarrow> StreamProgram" where
  "call_program lay ss =
     stream_of lay (body_ops ss) (replicate (127 - length (enc lay (body_ops ss))) 0) False"

definition runnable :: "(prim \<Rightarrow> usize) \<Rightarrow> (u32 \<Rightarrow> bool) \<Rightarrow> StreamProgram \<Rightarrow> bool" where
  "runnable lay A p \<longleftrightarrow> (\<exists>v. p = value_program lay v) \<or>
     (\<exists>ss. p = call_program lay ss \<and> list_all (\<lambda>x. A (stmt_addr x)) ss
        \<and> length (enc lay (body_ops ss)) \<le> FN_BODY_WORDS)"

fun outcome_ok :: "(prim \<Rightarrow> usize) \<Rightarrow> (u32 \<Rightarrow> bool) \<Rightarrow> (u32 \<Rightarrow> bool) \<Rightarrow> Outcome \<Rightarrow> bool" where
  "outcome_ok lay A G Empty = False"
| "outcome_ok lay A G (Bound n v) = wf_name n"
| "outcome_ok lay A G (FnDefined n) = wf_name n"
| "outcome_ok lay A G (Run p) = runnable lay A p"
| "outcome_ok lay A G (Claim n) = wf_name n"
| "outcome_ok lay A G (Drop n) = wf_name n"
| "outcome_ok lay A G (SetBit a b) = G a"
| "outcome_ok lay A G (ClrBit a b) = G a"
| "outcome_ok lay A G (EnforcedPoke a v) = G a"
| "outcome_ok lay A G (EnforcedPeek a) = G a"
| "outcome_ok lay A G _ = True"

lemma triple_value_program:
  "triple (pinv B h0 (wf_comp (layout P) A) t) (build_value_program P v)
     (\<lambda>p s. pinv B h0 (wf_comp (layout P) A) t s \<and> runnable (layout P) A p)
     (perr B h0 (wf_comp (layout P) A))"
proof -
  let ?L = "layout P"
  have "triple (pinv B h0 (wf_comp ?L A) t) (build_value_program P v)
     (\<lambda>p s. pinv B h0 (wf_comp ?L A) t s \<and> length [?L Lit, v, ?L Halt] \<le> MAX_STREAM_WORDS
        \<and> p = \<lparr>prog_words = [?L Lit, v, ?L Halt] @ replicate (MAX_STREAM_WORDS - length [?L Lit, v, ?L Halt]) 0,
              prog_len = length [?L Lit, v, ?L Halt], yields_value = True\<rparr>)
     (perr B h0 (wf_comp ?L A))"
  proof -
    have lit: "triple (pinv B h0 (emitted ?L A []) t) (stream_push_lit P v)
        (\<lambda>_. pinv B h0 (emitted ?L A [?L Lit, v]) t) (perr B h0 (wf_comp ?L A))"
      using triple_push_lit [of B h0 ?L A "[]" t P v] by simp
    have halt: "triple (pinv B h0 (emitted ?L A [?L Lit, v]) t) (stream_halt P)
        (\<lambda>_. pinv B h0 (emitted ?L A [?L Lit, v, ?L Halt]) t) (perr B h0 (wf_comp ?L A))"
      using triple_stream_push [of B h0 ?L A "[?L Lit, v]" t "?L Halt"] by (simp add: stream_halt_def)
    show ?thesis
      unfolding build_value_program_def
      by (rule triple_then [OF triple_stream_reset triple_then [OF lit triple_then [OF halt triple_take_program]]])
  qed
  then show ?thesis
    by (rule triple_conseq) (auto simp: runnable_def value_program_def stream_of_def MAX_STREAM_WORDS_def)
qed

lemma triple_call_program:
  "triple (pinv B h0 (wf_comp (layout P) A) t) (build_call_program P name)
     (\<lambda>p s. pinv B h0 (wf_comp (layout P) A) t s \<and> runnable (layout P) A p)
     (perr B h0 (wf_comp (layout P) A))"
  unfolding build_call_program_def
proof (rule triple_bind)
  let ?L = "layout P" and ?W = "wf_comp (layout P) A"
  show "triple (pinv B h0 ?W t) (lookup_fn name) (\<lambda>i s. pinv B h0 ?W t s \<and> i < MAX_FNS) (perr B h0 ?W)"
    by (rule triple_lookup_fn)
  fix i
  have fin: "triple (\<lambda>s. \<exists>us. body_code ?L A us \<and> length us \<le> FN_BODY_WORDS \<and> pinv B h0 (emitted ?L A ([] @ us)) t s)
      (try_then (stream_halt P) (take_program False))
      (\<lambda>p s. pinv B h0 ?W t s \<and> runnable ?L A p) (perr B h0 ?W)"
    unfolding triple_def
  proof (intro allI impI, elim exE conjE)
    fix s us assume us: "body_code ?L A us" "length us \<le> FN_BODY_WORDS" "pinv B h0 (emitted ?L A ([] @ us)) t s"
    then obtain ss where ss: "us = enc ?L (body_ops ss)" "list_all (\<lambda>x. A (stmt_addr x)) ss"
      by (auto simp: body_code_def)
    have "triple (pinv B h0 (emitted ?L A us) t) (try_then (stream_halt P) (take_program False))
      (\<lambda>p s. pinv B h0 ?W t s \<and> length (us @ [?L Halt]) \<le> MAX_STREAM_WORDS
        \<and> p = \<lparr>prog_words = (us @ [?L Halt]) @ replicate (MAX_STREAM_WORDS - length (us @ [?L Halt])) 0,
              prog_len = length (us @ [?L Halt]), yields_value = False\<rparr>) (perr B h0 ?W)"
      unfolding stream_halt_def by (rule triple_then [OF triple_stream_push triple_take_program])
    then have "triple (pinv B h0 (emitted ?L A us) t) (try_then (stream_halt P) (take_program False))
      (\<lambda>p s. pinv B h0 ?W t s \<and> runnable ?L A p) (perr B h0 ?W)"
    proof (rule triple_conseq)
      fix p s
      assume *: "pinv B h0 ?W t s \<and> length (us @ [?L Halt]) \<le> MAX_STREAM_WORDS
        \<and> p = \<lparr>prog_words = (us @ [?L Halt]) @ replicate (MAX_STREAM_WORDS - length (us @ [?L Halt])) 0,
              prog_len = length (us @ [?L Halt]), yields_value = False\<rparr>"
      then have "p = call_program ?L ss"
        by (simp add: call_program_def stream_of_def ss(1) MAX_STREAM_WORDS_def)
      then show "pinv B h0 ?W t s \<and> runnable ?L A p"
        using * ss us(2) unfolding runnable_def by blast
    qed simp_all
    with us(3) show "case try_then (stream_halt P) (take_program False) s of
        (Inr p, s') \<Rightarrow> pinv B h0 ?W t s' \<and> runnable ?L A p | (Inl e, s') \<Rightarrow> perr B h0 ?W e s'"
      by (simp add: triple_def)
  qed
  show "triple (\<lambda>s. pinv B h0 ?W t s \<and> i < MAX_FNS)
      (try_then stream_reset (try_then (push_body i) (try_then (stream_halt P) (take_program False))))
      (\<lambda>p s. pinv B h0 ?W t s \<and> runnable ?L A p) (perr B h0 ?W)"
    by (rule triple_imp) (rule triple_then [OF triple_stream_reset triple_then [OF triple_push_body fin]])
qed

lemma triple_bind_symbol:
  assumes "wf_name n"
  shows "triple (pinv B h0 (wf_comp L A) t) (bind_symbol n v) (\<lambda>_. pinv B h0 (wf_comp L A) t) (perr B h0 (wf_comp L A))"
  unfolding triple_def
proof (intro allI impI)
  fix s assume s: "pinv B h0 (wf_comp L A) t s"
  then have "wf_symbols (symbols (comp s))" by (simp add: pinv_def wf_comp_def)
  from syms.insert_ok [OF this assms, of v] s
  show "case bind_symbol n v s of (Inr x, s') \<Rightarrow> pinv B h0 (wf_comp L A) t s' | (Inl e, s') \<Rightarrow> perr B h0 (wf_comp L A) e s'"
    by (cases "insert_symbol (symbols (comp s)) n v")
      (auto simp: bind_symbol_def pinv_def perr_def wf_comp_def ntoks_def split: sum.splits)
qed

lemma triple_alloc:
  "triple (pinv B h0 C t) (alloc_fn_slot name) (\<lambda>i s. pinv B h0 C t s \<and> i < MAX_FNS) (perr B h0 C)"
  by (auto simp: triple_def alloc_fn_slot_def pinv_def perr_def find_Some_iff split: option.splits)

definition short_body :: "(prim \<Rightarrow> usize) \<Rightarrow> (u32 \<Rightarrow> bool) \<Rightarrow> Compiler \<Rightarrow> bool" where
  "short_body L A c \<longleftrightarrow> in_body L A c \<and> stream_len c \<le> FN_BODY_WORDS"

lemma triple_check_len:
  "triple (pinv B h0 (in_body L A) t) check_body_len (\<lambda>_. pinv B h0 (short_body L A) t) (perr B h0 (wf_comp L A))"
  using emitted_wf(2)
  by (auto simp: triple_def check_body_len_def pinv_def perr_def short_body_def)

lemma list_all_update: "list_all Q xs \<Longrightarrow> Q x \<Longrightarrow> list_all Q (xs[i := x])"
  using set_update_subset_insert [of xs i x] by (auto simp: list_all_iff)

lemma store_wf:
  assumes "short_body L A c" and "i < MAX_FNS" and "wf_name n"
  shows "wf_comp L A (c\<lparr>fn_names := (fn_names c)[i := n], fn_body_lens := (fn_body_lens c)[i := stream_len c],
    fn_bodies := (fn_bodies c)[i := copy_prefix (take (stream_len c) (out_stream c)) (fn_bodies c ! i)]\<rparr>)"
proof -
  obtain ws where ws: "body_code L A ws" "wf_comp L A c" "take (stream_len c) (out_stream c) = ws"
    using assms(1) by (auto simp: short_body_def in_body_def emitted_def)
  have len: "stream_len c = length ws" using ws by (auto simp: wf_comp_def)
  have b: "length (fn_bodies c ! i) = FN_BODY_WORDS" using ws(2) assms(2) by (simp add: wf_comp_def list_all_length)
  have le: "length ws \<le> FN_BODY_WORDS" using assms(1) len by (simp add: short_body_def)
  have "length (copy_prefix ws (fn_bodies c ! i)) = FN_BODY_WORDS" using b le by simp
  moreover have "take (length ws) (copy_prefix ws (fn_bodies c ! i)) = ws" by (simp add: copy_prefix_def)
  ultimately show ?thesis
    using ws assms(2,3) le unfolding wf_comp_def ws(3) len
    by (auto simp: nth_list_update len intro: list_all_update)
qed

lemma triple_store:
  assumes "i < MAX_FNS" and "wf_name n"
  shows "triple (pinv B h0 (short_body L A) t) (store_fn i n) (\<lambda>_. pinv B h0 (wf_comp L A) t) (perr B h0 (wf_comp L A))"
  using store_wf [OF _ assms]
  by (auto simp: triple_def store_fn_def Let_def pinv_def ntoks_def)

text \<open>The body loop ends within as many rounds as there are tokens.\<close>

lemma triple_body_loop:
  assumes A: "\<And>a. granted P r a \<Longrightarrow> A a"
  defines "B \<equiv> hw P" and "L \<equiv> layout P"
  shows "expr_fuel t \<le> n \<Longrightarrow> t < k \<Longrightarrow>
    triple (pinv B h0 (in_body L A) t) (body_loop P r n k) (\<lambda>_. pinv B h0 (in_body L A) t) (perr B h0 (wf_comp L A))"
proof (induction k arbitrary: t)
  case 0
  then show ?case by simp
next
  case (Suc k)
  let ?I = "in_body L A" and ?W = "wf_comp L A"
  show ?case
    unfolding body_loop.simps
  proof (rule triple_bind)
    show "triple (pinv B h0 ?I t) peek_tok (\<lambda>x s. pinv B h0 ?I t s \<and> (t = 0 \<longrightarrow> x = Eof)) (perr B h0 ?W)"
      by (rule triple_weaken_err [OF triple_peek emitted_wf(2)])
    fix x
    show "triple (\<lambda>s. pinv B h0 ?I t s \<and> (t = 0 \<longrightarrow> x = Eof))
      (if x = RBrace then try_then next_tok (ok_with ())
       else if x = Eof then reject UnexpectedToken
       else try_then (parse_body_stmt P r n) (body_loop P r n k)) (\<lambda>_. pinv B h0 ?I t) (perr B h0 ?W)"
    proof (intro triple_imp triple_if)
      have "triple (pinv B h0 ?I t) next_tok (\<lambda>_. pinv B h0 ?I t) (perr B h0 ?W)"
        by (rule triple_conseq [OF triple_next [of B h0 ?I t]]) (auto simp: perr_def intro: emitted_wf(2) pinv_mono)
      then show "triple (pinv B h0 ?I t) (try_then next_tok (ok_with ())) (\<lambda>_. pinv B h0 ?I t) (perr B h0 ?W)"
        by (rule triple_then) (rule triple_ok)
      show "triple (pinv B h0 ?I t) (reject UnexpectedToken) (\<lambda>_. pinv B h0 ?I t) (perr B h0 ?W)"
        by (auto simp: triple_def reject_def fail_with_def pinv_def perr_def intro: emitted_wf(2))
      assume "t = 0 \<longrightarrow> x = Eof" "x \<noteq> Eof"
      then have t: "0 < t" by simp
      have st: "triple (pinv B h0 ?I t) (parse_body_stmt P r n) (\<lambda>_. pinv B h0 ?I (t - 1)) (perr B h0 ?W)"
        using triple_body_stmt [where A = A and P = P and r = r, OF Suc.prems(1) A] by (simp add: B_def L_def)
      have "triple (pinv B h0 ?I (t - 1)) (body_loop P r n k) (\<lambda>_. pinv B h0 ?I (t - 1)) (perr B h0 ?W)"
        using Suc.prems t by (intro Suc.IH) (simp_all add: expr_fuel_def)
      then have "triple (pinv B h0 ?I (t - 1)) (body_loop P r n k) (\<lambda>_. pinv B h0 ?I t) (perr B h0 ?W)"
        by (rule triple_conseq) (auto intro: pinv_mono)
      with st show "triple (pinv B h0 ?I t) (try_then (parse_body_stmt P r n) (body_loop P r n k))
          (\<lambda>_. pinv B h0 ?I t) (perr B h0 ?W)"
        by (rule triple_then)
    qed
  qed
qed

text \<open>The statement parsers of a line.\<close>

abbreviation line_ok where
  "line_ok P r A h0 t m \<equiv> triple (pinv (hw P) h0 (wf_comp (layout P) A) t) m
     (\<lambda>out s. pinv (hw P) h0 (wf_comp (layout P) A) t s \<and> outcome_ok (layout P) A (granted P r) out)
     (perr (hw P) h0 (wf_comp (layout P) A))"

lemma triple_let:
  assumes "expr_fuel t \<le> n"
  shows "line_ok P r A h0 t (parse_let P n)"
  unfolding parse_let_def
proof (rule triple_bind [OF triple_name], rule triple_imp)
  let ?I = "pinv (hw P) h0 (wf_comp (layout P) A) t" and ?E = "perr (hw P) h0 (wf_comp (layout P) A)"
  fix name assume name: "wf_name name"
  show "line_ok P r A h0 t (try_then (expect (Operator 0x3D))
     (try_bind (eval_expr P n None) (\<lambda>value. try_then expect_semicolon
      (try_then (bind_symbol name value) (ok_with (Bound name value))))))"
    by (rule triple_then [OF goodD [OF good_expect]], rule triple_bind [OF goodD [OF good_eval [OF assms]]],
        rule triple_then [OF goodD [OF good_expect_semicolon]], rule triple_then [OF triple_bind_symbol [OF name]],
        rule triple_ok) (simp add: name)
qed

lemma triple_fn:
  assumes "expr_fuel t \<le> n" and "t < k" and A: "\<And>a. granted P r a \<Longrightarrow> A a"
  shows "line_ok P r A h0 t (parse_fn P r n k)"
  unfolding parse_fn_def
proof (rule triple_bind [OF triple_name], rule triple_imp)
  let ?L = "layout P" and ?B = "hw P"
  let ?W = "wf_comp ?L A"
  fix name assume name: "wf_name name"
  have reset: "triple (pinv ?B h0 ?W t) stream_reset (\<lambda>_. pinv ?B h0 (in_body ?L A) t) (perr ?B h0 ?W)"
  proof (rule triple_conseq [OF triple_stream_reset])
    show "pinv ?B h0 (emitted ?L A []) t s \<Longrightarrow> pinv ?B h0 (in_body ?L A) t s" for s
      using body_code_simps(1) by (auto simp: pinv_def in_body_def)
  qed auto
  have loop: "triple (pinv ?B h0 (in_body ?L A) t) (body_loop P r n k) (\<lambda>_. pinv ?B h0 (in_body ?L A) t) (perr ?B h0 ?W)"
    using triple_body_loop [where P = P and r = r and A = A, OF A assms(1,2)] by simp
  have alloc: "triple (pinv ?B h0 (short_body ?L A) t) (alloc_fn_slot name)
      (\<lambda>i s. pinv ?B h0 (short_body ?L A) t s \<and> i < MAX_FNS) (perr ?B h0 ?W)"
    by (rule triple_weaken_err [OF triple_alloc]) (auto simp: short_body_def intro: emitted_wf(2))
  show "line_ok P r A h0 t (try_then (expect LParen) (try_then (expect RParen) (try_then (expect LBrace)
     (try_then stream_reset (try_then (body_loop P r n k) (try_then check_body_len
     (try_bind (alloc_fn_slot name) (\<lambda>index. try_then (store_fn index name) (ok_with (FnDefined name))))))))))"
  proof (rule triple_then [OF goodD [OF good_expect]], rule triple_then [OF goodD [OF good_expect]],
      rule triple_then [OF goodD [OF good_expect]], rule triple_then [OF reset], rule triple_then [OF loop],
      rule triple_then [OF triple_check_len], rule triple_bind [OF alloc], rule triple_imp)
    fix i :: nat assume i: "i < MAX_FNS"
    show "triple (pinv ?B h0 (short_body ?L A) t) (try_then (store_fn i name) (ok_with (FnDefined name)))
      (\<lambda>out s. pinv ?B h0 ?W t s \<and> outcome_ok ?L A (granted P r) out) (perr ?B h0 ?W)"
      by (rule triple_then [OF triple_store [OF i name]], rule triple_ok) (simp add: name)
  qed
qed

lemma triple_run:
  assumes "triple (pinv (hw P) h0 (wf_comp (layout P) A) t) m
     (\<lambda>p s. pinv (hw P) h0 (wf_comp (layout P) A) t s \<and> runnable (layout P) A p)
     (perr (hw P) h0 (wf_comp (layout P) A))"
  shows "line_ok P r A h0 t (try_bind m (\<lambda>program. ok_with (Run program)))"
  by (rule triple_bind [OF assms], rule triple_ok) simp

lemma triple_bare:
  assumes "expr_fuel t \<le> n"
  shows "line_ok P r A h0 t (try_bind (eval_expr P n f) (\<lambda>value. try_then expect_semicolon
     (try_bind (build_value_program P value) (\<lambda>program. ok_with (Run program)))))"
  by (rule triple_bind [OF goodD [OF good_eval [OF assms]]], rule triple_then [OF goodD [OF good_expect_semicolon]],
      rule triple_run [OF triple_value_program])

text \<open>The commands on an address end with the check and return the granted address.\<close>

lemma triple_gate:
  assumes "granted P r a \<Longrightarrow> outcome_ok (layout P) A (granted P r) out"
  shows "line_ok P r A h0 t (try_then expect_semicolon (try_then (require_access P r a) (ok_with out)))"
  by (rule triple_then [OF goodD [OF good_expect_semicolon]], rule triple_then [OF triple_require],
      rule triple_ok) (use assms in simp)

lemma triple_named:
  assumes "\<And>name. wf_name name \<Longrightarrow> outcome_ok (layout P) A (granted P r) (f name)"
  shows "line_ok P r A h0 t (try_bind expect_name (\<lambda>name. try_then expect_semicolon (ok_with (f name))))"
  by (rule triple_bind [OF triple_name], rule triple_imp, rule triple_then [OF goodD [OF good_expect_semicolon]],
      rule triple_ok) (use assms in simp)

lemma triple_word:
  "outcome_ok (layout P) A (granted P r) out \<Longrightarrow>
   line_ok P r A h0 t (try_then allow_optional_semicolon (ok_with out))"
  by (rule triple_then [OF goodD [OF good_allow_semicolon]], rule triple_ok) simp

lemma triple_command:
  assumes n: "expr_fuel t \<le> n"
  shows "line_ok P r A h0 t (parse_command P r n i)"
proof -
  let ?W = "wf_comp (layout P) A"
  note atom = goodD [OF good_atomic [OF n, of P], of h0 ?W] and expr = goodD [OF good_eval [OF n, of P], of h0 ?W]
  have pk: "triple (pinv (hw P) h0 ?W t) peek_tok (\<lambda>_. pinv (hw P) h0 ?W t) (perr (hw P) h0 ?W)"
    by (rule triple_conseq [OF triple_peek [of "hw P" h0 ?W t]]) auto
  have call: "line_ok P r A h0 t (try_then parse_call_parens
      (try_bind (build_call_program P i) (\<lambda>program. ok_with (Run program))))"
    by (rule triple_then [OF goodD [OF good_call_parens]], rule triple_run [OF triple_call_program])
  have other: "line_ok P r A h0 t (try_bind peek_tok (\<lambda>t.
        if t = LParen then
          try_then parse_call_parens (try_bind (build_call_program P i) (\<lambda>program. ok_with (Run program)))
        else
          try_bind (eval_expr P n (Some (Identifier i))) (\<lambda>value.
          try_then expect_semicolon
          (try_bind (build_value_program P value) (\<lambda>program. ok_with (Run program))))))"
    by (rule triple_bind [OF pk], rule triple_if, rule call, rule triple_bare [OF n])
  show ?thesis
    unfolding parse_command_def
    by (intro triple_if other triple_named triple_word triple_bind [OF atom] triple_bind [OF expr] triple_gate) simp_all
qed

lemma triple_line:
  assumes n: "expr_fuel t \<le> n" and "t < k" and A: "\<And>a. granted P r a \<Longrightarrow> A a"
  shows "line_ok P r A h0 t (parse_line P r n k)"
  unfolding parse_line_def
proof (rule triple_bind)
  let ?W = "wf_comp (layout P) A"
  show "triple (pinv (hw P) h0 ?W t) next_tok (\<lambda>_. pinv (hw P) h0 ?W t) (perr (hw P) h0 ?W)"
    by (rule triple_conseq [OF triple_next [of "hw P" h0 ?W t]]) (auto intro: pinv_mono)
  have rej: "line_ok P r A h0 t (reject e)" for e
    by (auto simp: triple_def reject_def fail_with_def pinv_def perr_def)
  have bare: "line_ok P r A h0 t (parse_bare P n x)" for x
    unfolding parse_bare_def by (rule triple_bare [OF n])
  fix x
  show "line_ok P r A h0 t (case x of
       Eof \<Rightarrow> reject EmptyLine
     | KwLet \<Rightarrow> parse_let P n
     | KwFn \<Rightarrow> parse_fn P r n k
     | Identifier i \<Rightarrow> parse_command P r n i
     | Literal v \<Rightarrow> parse_bare P n x
     | Operator b \<Rightarrow> parse_bare P n x
     | LParen \<Rightarrow> parse_bare P n x
     | Error msg \<Rightarrow> reject (LexError msg)
     | _ \<Rightarrow> reject UnexpectedToken)"
    by (cases x) (simp_all add: rej bare triple_let [OF n] triple_fn [OF n assms(2) A] triple_command [OF n])
qed

section \<open>Soundness of a parse\<close>

lemma parse_sound:
  assumes "wf_comp (layout P) A c" and "\<And>a. granted P r a \<Longrightarrow> A a"
    and "parse P r input c h = (res, c', h')"
  shows "wf_comp (layout P) A c'" "reads (hw P) h h'" "res \<noteq> Inl OutOfFuel"
    "res = Inr out \<Longrightarrow> outcome_ok (layout P) A (granted P r) out"
proof -
  let ?s = "\<lparr>comp = c, cur = cur_new input, phw = h\<rparr>" and ?t = "length input"
  have "length (upcoming (cur_new input)) \<le> ?t" by (simp add: cur_new_facts lex_all_length)
  then have I: "pinv (hw P) h (wf_comp (layout P) A) ?t ?s"
    using assms(1) by (simp add: pinv_def ntoks_def cur_new_facts)
  have T: "line_ok P r A h ?t (parse_line P r (expr_fuel ?t) (?t + 1))"
    by (rule triple_line) (use assms(2) in simp_all)
  obtain s' where s': "parse_line P r (expr_fuel ?t) (?t + 1) ?s = (res, s')" "c' = comp s'" "h' = phw s'"
    using assms(3) by (cases "parse_line P r (expr_fuel ?t) (?t + 1) ?s") (simp add: parse_def)
  show "wf_comp (layout P) A c'" "reads (hw P) h h'" "res \<noteq> Inl OutOfFuel"
    "res = Inr out \<Longrightarrow> outcome_ok (layout P) A (granted P r) out"
    using tripleD [OF T I] s' by (cases res; force simp: pinv_def perr_def)+
qed

end
