(* ===== verification/ExprSem.thy ===== *)
theory ExprSem
  imports ParserLaws
begin

text \<open>
  The meaning of expressions, as an evaluator of syntax trees, and the parser's refinement to
  it: on the tokens of a tree, \<open>eval_expr\<close> returns what the evaluator does, strictly from
  left to right and without precedence, and stops exactly behind the tree.
\<close>

section \<open>Syntax trees\<close>

datatype term0 =
    TLit u32
  | TVar "u8 list"
  | TPeek term0
  | TParen expr0
and expr0 = Ex term0 ops0
and ops0 = Done | Op u8 term0 ops0

primrec ttoks :: "term0 \<Rightarrow> Token list" and etoks :: "expr0 \<Rightarrow> Token list" and otoks :: "ops0 \<Rightarrow> Token list" where
  "ttoks (TLit v) = [Literal v]"
| "ttoks (TVar n) = [Identifier n]"
| "ttoks (TPeek t) = Identifier (byte_str ''peek'') # ttoks t"
| "ttoks (TParen e) = LParen # etoks e @ [RParen]"
| "etoks (Ex t ops) = ttoks t @ otoks ops"
| "otoks Done = []"
| "otoks (Op b t ops) = Operator b # ttoks t @ otoks ops"

primrec twf :: "term0 \<Rightarrow> bool" and ewf :: "expr0 \<Rightarrow> bool" and owf :: "ops0 \<Rightarrow> bool" where
  "twf (TLit v) = True"
| "twf (TVar n) = (n \<noteq> byte_str ''peek'')"
| "twf (TPeek t) = twf t"
| "twf (TParen e) = ewf e"
| "ewf (Ex t ops) = (twf t \<and> owf ops)"
| "owf Done = True"
| "owf (Op b t ops) = (is_arith b \<and> twf t \<and> owf ops)"

text \<open>The evaluator: \<open>env\<close> gives the bound names, reads go to the bus.\<close>

primrec teval :: "'h bus \<Rightarrow> (u8 list \<Rightarrow> u32 option) \<Rightarrow> term0 \<Rightarrow> 'h \<Rightarrow> (ParseError + u32) \<times> 'h"
  and eeval :: "'h bus \<Rightarrow> (u8 list \<Rightarrow> u32 option) \<Rightarrow> expr0 \<Rightarrow> 'h \<Rightarrow> (ParseError + u32) \<times> 'h"
  and oeval :: "'h bus \<Rightarrow> (u8 list \<Rightarrow> u32 option) \<Rightarrow> ops0 \<Rightarrow> u32 \<Rightarrow> 'h \<Rightarrow> (ParseError + u32) \<times> 'h" where
  "teval B env (TLit v) = ok_with v"
| "teval B env (TVar n) = (case env n of Some v \<Rightarrow> ok_with v | None \<Rightarrow> fail_with UnknownSymbol)"
| "teval B env (TPeek t) = try_bind (teval B env t) (\<lambda>a h. (Inr (fst (rd B a h)), snd (rd B a h)))"
| "teval B env (TParen e) = eeval B env e"
| "eeval B env (Ex t ops) = try_bind (teval B env t) (\<lambda>v. oeval B env ops v)"
| "oeval B env Done = (\<lambda>acc. ok_with acc)"
| "oeval B env (Op b t ops) = (\<lambda>acc. try_bind (teval B env t) (\<lambda>rhs.
     case apply_op b acc rhs of Inl e \<Rightarrow> fail_with e | Inr acc' \<Rightarrow> oeval B env ops acc'))"

section \<open>Runs on token lists\<close>

text \<open>\<open>m\<close> takes the tokens \<open>us\<close> off any cursor that has \<open>us @ ts\<close> to come, with this result;
  on an error the cursor is left unspecified.\<close>

definition runs :: "('h, 'a) parser \<Rightarrow> Token list \<Rightarrow> Token list \<Rightarrow> Compiler \<Rightarrow> 'h
    \<Rightarrow> (ParseError + 'a) \<Rightarrow> Compiler \<Rightarrow> 'h \<Rightarrow> bool" where
  "runs m us ts c h res c' h' \<longleftrightarrow>
     (\<forall>s. wf_cur (cur s) \<and> upcoming (cur s) = us @ ts \<and> comp s = c \<and> phw s = h \<longrightarrow>
       (\<exists>s'. comp s' = c' \<and> phw s' = h' \<and>
         (case res of
           Inr x \<Rightarrow> m s = (Inr x, s') \<and> wf_cur (cur s') \<and> upcoming (cur s') = ts
         | Inl e \<Rightarrow> m s = (Inl (PE e), s'))))"

lemma runs_bind:
  fixes m :: "('h, 'a) parser"
  assumes "runs m us (vs @ ts) c h (Inr x) c1 h1" and "runs (f x) vs ts c1 h1 res c2 h2"
  shows "runs (try_bind m f) (us @ vs) ts c h res c2 h2"
  unfolding runs_def
proof (intro allI impI)
  fix s :: "'h pst"
  assume "wf_cur (cur s) \<and> upcoming (cur s) = (us @ vs) @ ts \<and> comp s = c \<and> phw s = h"
  then obtain s1 where s1: "m s = (Inr x, s1)" "wf_cur (cur s1)" "upcoming (cur s1) = vs @ ts" "comp s1 = c1" "phw s1 = h1"
    using assms(1) unfolding runs_def by (auto dest!: spec [of _ s])
  then show "\<exists>s'. comp s' = c2 \<and> phw s' = h2 \<and>
         (case res of
           Inr x \<Rightarrow> try_bind m f s = (Inr x, s') \<and> wf_cur (cur s') \<and> upcoming (cur s') = ts
         | Inl e \<Rightarrow> try_bind m f s = (Inl (PE e), s'))"
    using assms(2) [unfolded runs_def, rule_format, of s1] unfolding try_bind_ok [of m s x s1 f, OF s1(1)] by simp
qed

lemma runs_bind_err:
  "runs m us ts c h (Inl e) c1 h1 \<Longrightarrow> runs (try_bind m f) us ts c h (Inl e) c1 h1"
  unfolding runs_def by (fastforce simp: try_bind_err)

lemma runs_then:
  "runs m us (vs @ ts) c h (Inr x) c1 h1 \<Longrightarrow> runs f vs ts c1 h1 res c2 h2
    \<Longrightarrow> runs (try_then m f) (us @ vs) ts c h res c2 h2"
  unfolding try_then_def by (rule runs_bind)

lemma runs_ok: "runs (ok_with x) [] ts c h (Inr x) c h"
  by (simp add: runs_def ok_with_def)

lemma runs_reject: "runs (reject e) us ts c h (Inl e) c h"
  by (simp add: runs_def reject_def fail_with_def)

lemma runs_next: "runs next_tok [t] ts c h (Inr t) c h"
  unfolding runs_def
proof (intro allI impI)
  fix s :: "'a pst"
  assume s: "wf_cur (cur s) \<and> upcoming (cur s) = [t] @ ts \<and> comp s = c \<and> phw s = h"
  then have "fst (cur_next (cur s)) = t \<and> upcoming (snd (cur_next (cur s))) = ts \<and> wf_cur (snd (cur_next (cur s)))"
    using cursor.nxt_law [of "cur s"] by simp
  with s show "\<exists>s'. comp s' = c \<and> phw s' = h \<and> (case Inr t of
           Inr x \<Rightarrow> next_tok s = (Inr x, s') \<and> wf_cur (cur s') \<and> upcoming (cur s') = ts
         | Inl e \<Rightarrow> next_tok s = (Inl (PE e), s'))"
    by (intro exI [of _ "snd (next_tok s)"]) (simp add: next_tok_def split_beta)
qed

lemma runs_next_eof: "runs next_tok [] [] c h (Inr Eof) c h"
  unfolding runs_def
proof (intro allI impI)
  fix s :: "'a pst"
  assume s: "wf_cur (cur s) \<and> upcoming (cur s) = [] @ [] \<and> comp s = c \<and> phw s = h"
  then have "fst (cur_next (cur s)) = Eof \<and> upcoming (snd (cur_next (cur s))) = [] \<and> wf_cur (snd (cur_next (cur s)))"
    using cursor.nxt_law [of "cur s"] by simp
  with s show "\<exists>s'. comp s' = c \<and> phw s' = h \<and> (case Inr Eof of
           Inr x \<Rightarrow> next_tok s = (Inr x, s') \<and> wf_cur (cur s') \<and> upcoming (cur s') = []
         | Inl e \<Rightarrow> next_tok s = (Inl (PE e), s'))"
    by (intro exI [of _ "snd (next_tok s)"]) (simp add: next_tok_def split_beta)
qed

lemma runs_peek: "runs peek_tok [] ts c h (Inr (hd_tok ts)) c h"
  unfolding runs_def
proof (intro allI impI)
  fix s :: "'a pst"
  assume s: "wf_cur (cur s) \<and> upcoming (cur s) = [] @ ts \<and> comp s = c \<and> phw s = h"
  then have "fst (cur_peek (cur s)) = hd_tok ts \<and> upcoming (snd (cur_peek (cur s))) = ts \<and> wf_cur (snd (cur_peek (cur s)))"
    using cursor.pk_law [of "cur s"] by simp
  with s show "\<exists>s'. comp s' = c \<and> phw s' = h \<and> (case Inr (hd_tok ts) of
           Inr x \<Rightarrow> peek_tok s = (Inr x, s') \<and> wf_cur (cur s') \<and> upcoming (cur s') = ts
         | Inl e \<Rightarrow> peek_tok s = (Inl (PE e), s'))"
    by (intro exI [of _ "snd (peek_tok s)"]) (simp add: peek_tok_def split_beta)
qed

lemma runs_next_bind: "runs (f t) us ts c h res c' h' \<Longrightarrow> runs (try_bind next_tok f) (t # us) ts c h res c' h'"
  using runs_bind [OF runs_next, of f t us ts c h res c' h'] by simp

lemma runs_next_then: "runs m us ts c h res c' h' \<Longrightarrow> runs (try_then next_tok m) (t # us) ts c h res c' h'"
  unfolding try_then_def by (rule runs_next_bind)

lemma runs_peek_bind:
  "runs (f (hd_tok (us @ ts))) us ts c h res c' h' \<Longrightarrow> runs (try_bind peek_tok f) us ts c h res c' h'"
  using runs_bind [OF runs_peek, of f us ts c h res c' h'] by simp

lemma runs_expect: "runs (expect t) [t] ts c h (Inr ()) c h"
  unfolding expect_def by (rule runs_next_bind) (simp add: runs_ok)

lemma runs_semicolon: "runs expect_semicolon [Semicolon] ts c h (Inr ()) c h"
  unfolding expect_semicolon_def by (rule runs_next_bind) (simp add: runs_ok)

lemma runs_read: "runs (read_word P a) [] ts c h (Inr (fst (rd (hw P) a h))) c (snd (rd (hw P) a h))"
  by (auto simp: runs_def read_word_def peek_u32_def split_beta)

section \<open>The expression parser refines the evaluator\<close>

text \<open>A token that ends an expression.\<close>

definition ends_expr :: "Token list \<Rightarrow> bool" where
  "ends_expr ts \<longleftrightarrow> (\<forall>b. hd_tok ts = Operator b \<longrightarrow> \<not> is_arith b)"

abbreviation paren_expr where
  "paren_expr P n \<equiv> try_bind (eval_expr P n None) (\<lambda>val. try_then (expect RParen) (ok_with val))"

text \<open>An operand, its first token just read, or still to be read.\<close>

definition operand_of :: "('e, 'h) platform \<Rightarrow> nat \<Rightarrow> Token \<Rightarrow> ('h, u32) parser" where
  "operand_of P n tok = (if tok = LParen then paren_expr P n else resolve_term P n tok)"

definition operand :: "('e, 'h) platform \<Rightarrow> nat \<Rightarrow> ('h, u32) parser" where
  "operand P n = try_bind next_tok (operand_of P n)"

lemma runs_operand:
  "runs (operand_of P n (hd us)) (tl us) ts c h res c' h' \<Longrightarrow> us \<noteq> [] \<Longrightarrow> runs (operand P n) us ts c h res c' h'"
  unfolding operand_def by (cases us) (auto intro: runs_next_bind)

lemma atomic_operand: "parse_atomic_term P (Suc n) = operand P n"
  by (simp add: operand_def operand_of_def [abs_def])

lemma eval_expr_some: "eval_expr P (Suc n) (Some t) = try_bind (operand_of P n t) (\<lambda>acc. eval_rest P n acc)"
  by (rule ext) (simp add: operand_of_def try_bind_def ok_with_def)

lemma eval_expr_operand: "eval_expr P (Suc n) None = try_bind (operand P n) (\<lambda>acc. eval_rest P n acc)"
  unfolding eval_expr.simps operand_def operand_of_def [abs_def] try_bind_assoc by simp

lemma eval_rest_operand:
  "is_arith b \<Longrightarrow> hd_tok (us @ ts) = Operator b \<Longrightarrow>
   runs (try_then next_tok (try_bind (operand P n)
      (\<lambda>rhs. try_bind (of_result (apply_op b acc rhs)) (\<lambda>acc'. eval_rest P n acc')))) us ts c h res c' h' \<Longrightarrow>
   runs (eval_rest P (Suc n) acc) us ts c h res c' h'"
  unfolding eval_rest.simps
  by (rule runs_peek_bind) (simp add: operand_def operand_of_def [abs_def] try_then_def try_bind_assoc cong: if_cong)

lemma ends_simps [simp]:
  "ends_expr []" "ends_expr (RParen # ts)" "ends_expr (Semicolon # ts)" "ends_expr (Literal v # ts)"
  "ends_expr (Identifier i # ts)" "ends_expr (LParen # ts)"
  by (simp_all add: ends_expr_def)

lemma runs_paren:
  assumes "\<And>ts. ends_expr ts \<Longrightarrow> runs (eval_expr P n None) us ts c h res c h'"
  shows "runs (paren_expr P n) (us @ [RParen]) ts c h res c h'"
proof (cases res)
  case (Inl e)
  have "runs (paren_expr P n) us (RParen # ts) c h (Inl e) c h'"
    using assms [of "RParen # ts"] Inl by (intro runs_bind_err) simp
  then show ?thesis by (simp add: runs_def Inl)
next
  case (Inr v)
  have "runs (eval_expr P n None) us ([RParen] @ ts) c h (Inr v) c h'"
    using assms [of "RParen # ts"] Inr by simp
  moreover have "runs (expect RParen) [RParen] ([] @ ts) c h' (Inr ()) c h'" by (simp add: runs_expect)
  from runs_then [OF this runs_ok]
  have "runs (try_then (expect RParen) (ok_with v)) [RParen] ts c h' (Inr v) c h'" by simp
  ultimately show ?thesis using Inr by (simp add: runs_bind)
qed

lemma ttoks_nonempty [simp]: "ttoks t \<noteq> []"
  by (cases t) simp_all

text \<open>Weakening the split between consumed and remaining tokens on an error.\<close>

lemma runs_err_tokens: "runs m us (vs @ ts) c h (Inl e) c' h' \<Longrightarrow> runs m (us @ vs) ts c h (Inl e) c' h'"
  by (simp add: runs_def)

text \<open>A parser and its meaning are bound alike, on errors and on values.\<close>

lemma runs_sem_bind:
  fixes m :: "('h, 'a) parser" and ev :: "'h \<Rightarrow> (ParseError + 'a) \<times> 'h"
  assumes m: "runs m us (vs @ ts) c h (fst (ev h)) c (snd (ev h))"
    and f: "\<And>v h1. ev h = (Inr v, h1) \<Longrightarrow> runs (f v) vs ts c h1 (fst (g v h1)) c (snd (g v h1))"
  shows "runs (try_bind m f) (us @ vs) ts c h (fst (try_bind ev g h)) c (snd (try_bind ev g h))"
proof (cases "ev h")
  case (Pair r h1)
  show ?thesis
  proof (cases r)
    case (Inl e)
    with m Pair have "runs (try_bind m f) us (vs @ ts) c h (Inl e) c h1" by (intro runs_bind_err) simp
    with Pair Inl show ?thesis by (simp add: try_bind_def runs_err_tokens)
  next
    case (Inr v)
    with m Pair have "runs m us (vs @ ts) c h (Inr v) c h1" by simp
    from runs_bind [OF this f] Pair Inr show ?thesis by (simp add: try_bind_def)
  qed
qed

text \<open>The operator step.\<close>

lemma runs_apply:
  assumes "\<And>acc'. apply_op b acc rhs = Inr acc' \<Longrightarrow> runs (f acc') us ts c h (fst (g acc' h)) c (snd (g acc' h))"
  shows "runs (try_bind (of_result (apply_op b acc rhs)) f) us ts c h
    (fst ((case apply_op b acc rhs of Inl e \<Rightarrow> fail_with e | Inr acc' \<Rightarrow> g acc') h)) c
    (snd ((case apply_op b acc rhs of Inl e \<Rightarrow> fail_with e | Inr acc' \<Rightarrow> g acc') h))"
proof (cases "apply_op b acc rhs")
  case (Inl e)
  then show ?thesis using runs_bind_err [OF runs_reject] by (simp add: of_result_def fail_with_def)
next
  case (Inr acc')
  have "try_bind (ok_with acc') f = f acc'" by (rule ext) (simp add: try_bind_def ok_with_def)
  with assms [OF Inr] Inr show ?thesis by (simp add: of_result_def)
qed

lemma runs_tree:
  fixes P :: "('e, 'h) platform" and c :: Compiler
  defines "B \<equiv> hw P" and "env \<equiv> lookup_symbol (symbols c)"
  shows "twf t \<Longrightarrow> 2 * length (ttoks t) + 1 \<le> n \<Longrightarrow>
      runs (operand_of P n (hd (ttoks t))) (tl (ttoks t)) ts c h (fst (teval B env t h)) c (snd (teval B env t h))"
    and "ewf e \<Longrightarrow> 2 * length (etoks e) + 2 \<le> n \<Longrightarrow> ends_expr ts \<Longrightarrow>
      runs (eval_expr P n None) (etoks e) ts c h (fst (eeval B env e h)) c (snd (eeval B env e h))"
    and "owf ops \<Longrightarrow> 2 * length (otoks ops) + 1 \<le> n \<Longrightarrow> ends_expr ts \<Longrightarrow>
      runs (eval_rest P n acc) (otoks ops) ts c h (fst (oeval B env ops acc h)) c (snd (oeval B env ops acc h))"
proof (induction t and e and ops arbitrary: n ts h and n ts h and n ts h acc)
  case (TLit v)
  then show ?case
    by (cases n) (simp_all add: operand_of_def runs_ok)
next
  case (TVar i)
  have "runs (symbol_value i) [] ts c h (fst (teval B env (TVar i) h)) c (snd (teval B env (TVar i) h))"
    by (auto simp: runs_def symbol_value_def env_def ok_with_def fail_with_def split: option.splits)
  with TVar show ?case
    by (cases n) (simp_all add: operand_of_def)
next
  case (TPeek t)
  then obtain n1 where n1: "n = Suc (Suc n1)" by (cases n; cases "n - 1") auto
  have "runs (parse_atomic_term P (Suc n1)) (ttoks t) ([] @ ts) c h (fst (teval B env t h)) c (snd (teval B env t h))"
    unfolding atomic_operand append_Nil using TPeek n1 by (intro runs_operand TPeek.IH) simp_all
  then have "runs (try_bind (parse_atomic_term P (Suc n1)) (read_word P)) (ttoks t @ []) ts c h
      (fst (teval B env (TPeek t) h)) c (snd (teval B env (TPeek t) h))"
    unfolding teval.simps by (rule runs_sem_bind) (simp add: runs_read B_def)
  then show ?case by (simp add: operand_of_def n1)
next
  case (TParen e)
  have "runs (paren_expr P n) (etoks e @ [RParen]) ts c h (fst (eeval B env e h)) c (snd (eeval B env e h))"
    using TParen by (intro runs_paren TParen.IH) simp_all
  then show ?case by (simp add: operand_of_def)
next
  case (Ex t ops)
  then obtain m where m: "n = Suc m" by (cases n) auto
  show ?case
    unfolding m eval_expr_operand etoks.simps eeval.simps
    using Ex.prems m length_greater_0_conv [of "ttoks t"] by (intro runs_sem_bind runs_operand Ex.IH) simp_all
next
  case Done
  then obtain m where m: "n = Suc m" by (cases n) auto
  have "runs (case hd_tok ts of Operator op \<Rightarrow> if \<not> is_arith op then ok_with acc else f op | _ \<Rightarrow> ok_with acc)
      [] ts c h (Inr acc) c h" for f
    using Done.prems(3) by (cases "hd_tok ts") (auto simp: ends_expr_def runs_ok)
  then show ?case
    unfolding m eval_rest.simps by (intro runs_peek_bind) simp
next
  case (Op b t ops)
  then obtain m where m: "n = Suc m" by (cases n) auto
  have "runs (try_bind (operand P m) (\<lambda>rhs. try_bind (of_result (apply_op b acc rhs)) (\<lambda>acc'. eval_rest P m acc')))
      (ttoks t @ otoks ops) ts c h (fst (oeval B env (Op b t ops) acc h)) c (snd (oeval B env (Op b t ops) acc h))"
    unfolding oeval.simps using Op.prems m by (intro runs_sem_bind runs_apply runs_operand Op.IH) simp_all
  then show ?case
    using Op.prems unfolding m otoks.simps
    by (intro eval_rest_operand) (auto intro: runs_next_then)
qed

end
