(* ===== verification/LineSem.thy ===== *)
theory LineSem
  imports ExprSem
begin

text \<open>
  Whole input lines: what \<open>parse\<close> returns on the printed tokens of a binding, an expression and
  each command, in terms of the expression evaluator, the symbol table's operations and the
  capability check. These are the completeness half of the parser's specification; the soundness
  half (what any line at all can return) is \<open>ParserLaws.parse_sound\<close>.
\<close>

section \<open>Lines\<close>

lemma runs_expr_some:
  assumes "ewf e" and "2 * length (etoks e) + 2 \<le> n" and "ends_expr ts"
  shows "runs (eval_expr P n (Some (hd (etoks e)))) (tl (etoks e)) ts c h
    (fst (eeval (hw P) (lookup_symbol (symbols c)) e h)) c (snd (eeval (hw P) (lookup_symbol (symbols c)) e h))"
proof -
  obtain t ops where e: "e = Ex t ops" by (cases e)
  obtain m where m: "n = Suc m" using assms(2) by (cases n) auto
  let ?env = "lookup_symbol (symbols c)"
  have hd: "hd (etoks e) = hd (ttoks t)" "tl (etoks e) = tl (ttoks t) @ otoks ops" by (simp_all add: e)
  have t: "runs (operand_of P m (hd (ttoks t))) (tl (ttoks t)) (otoks ops @ ts) c h
      (fst (teval (hw P) ?env t h)) c (snd (teval (hw P) ?env t h))"
    using assms e m by (intro runs_tree(1)) simp_all
  show ?thesis
  proof (cases "teval (hw P) ?env t h")
    case (Pair r h1)
    show ?thesis
    proof (cases r)
      case (Inl x)
      with t Pair have "runs (eval_expr P n (Some (hd (ttoks t)))) (tl (ttoks t)) (otoks ops @ ts) c h (Inl x) c h1"
        unfolding m eval_expr_some by (intro runs_bind_err) simp
      with Pair Inl show ?thesis by (simp add: e try_bind_def runs_err_tokens)
    next
      case (Inr v)
      have "runs (eval_rest P m v) (otoks ops) ts c h1 (fst (oeval (hw P) ?env ops v h1)) c (snd (oeval (hw P) ?env ops v h1))"
        using assms e m length_greater_0_conv [of "ttoks t"] by (intro runs_tree(3)) simp_all
      with t Pair Inr have "runs (eval_expr P n (Some (hd (ttoks t)))) (tl (ttoks t) @ otoks ops) ts c h
          (fst (oeval (hw P) ?env ops v h1)) c (snd (oeval (hw P) ?env ops v h1))"
        unfolding m eval_expr_some by (intro runs_bind) simp_all
      with Pair Inr show ?thesis by (simp add: e try_bind_def)
    qed
  qed
qed

lemma runs_name: "length i \<le> NAME_MAX \<Longrightarrow> runs expect_name [Identifier i] ts c h (Inr (name_of i)) c h"
  unfolding expect_name_def
  by (rule runs_next_bind) (simp add: of_result_def from_slice_def name_of_def runs_ok)

lemma runs_bind_symbol:
  assumes "insert_symbol (symbols c) name v = (Inr (), t)"
  shows "runs (bind_symbol name v) [] ts c h (Inr ()) (c\<lparr>symbols := t\<rparr>) h"
  using assms by (auto simp: runs_def bind_symbol_def)

lemma take3_update: "3 \<le> length xs \<Longrightarrow> take 3 (xs[0 := a, Suc 0 := b, 2 := d]) = [a, b, d]"
  by (cases xs; cases "tl xs"; cases "tl (tl xs)") (auto simp: numeral_3_eq_3 numeral_2_eq_2)

lemma runs_value_program:
  assumes "length (out_stream c) = MAX_STREAM_WORDS"
  shows "\<exists>c'. runs (build_value_program P v) [] ts c h (Inr (value_program (layout P) v)) c' h \<and> symbols c' = symbols c"
proof -
  let ?c' = "c\<lparr>out_stream := (out_stream c)[0 := layout P Lit, Suc 0 := v, 2 := layout P Halt], stream_len := 3\<rparr>"
  have "build_value_program P v s = (Inr (value_program (layout P) v), s\<lparr>comp := ?c'\<rparr>)" if "comp s = c" for s
    using that assms take3_update [of "out_stream c" "layout P Lit" v "layout P Halt"]
    by (simp add: build_value_program_def stream_reset_def stream_push_lit_def stream_halt_def stream_push_def
        take_program_def try_then_def try_bind_def Let_def MAX_STREAM_WORDS_def value_program_def stream_of_def
        copy_prefix_def numeral_2_eq_2)
      (simp add: numeral_3_eq_3)
  then show ?thesis by (intro exI [of _ ?c']) (auto simp: runs_def)
qed

lemma parse_runs:
  assumes "runs (parse_line P r (expr_fuel (length input)) (length input + 1)) (lex_all input) [] c h res c' h'"
  shows "parse P r input c h = (case res of Inl e \<Rightarrow> Inl (PE e) | Inr x \<Rightarrow> Inr x, c', h')"
proof -
  let ?s = "\<lparr>comp = c, cur = cur_new input, phw = h\<rparr>"
  have "wf_cur (cur ?s) \<and> upcoming (cur ?s) = lex_all input @ [] \<and> comp ?s = c \<and> phw ?s = h"
    by (simp add: cur_new_facts)
  with assms show ?thesis unfolding runs_def by (auto simp: parse_def split: sum.splits dest!: spec [of _ ?s])
qed

text \<open>A line of printable tokens, and the fuel it gets.\<close>

lemma line_fuel: "list_all printable us \<Longrightarrow> lex_all (render_all us) = us \<and> length us \<le> length (render_all us)"
  using lex_all_length [of "render_all us"] by (simp add: lex_all_render)

lemma let_line:
  assumes "list_all printable (Identifier i # etoks e)" and "ewf e" and "length i \<le> NAME_MAX"
    and "eeval (hw P) (lookup_symbol (symbols c)) e h = (Inr v, h')"
    and "insert_symbol (symbols c) (name_of i) v = (Inr (), t)"
  shows "parse P r (render_all (KwLet # Identifier i # Operator 0x3D # etoks e @ [Semicolon])) c h
    = (Inr (Bound (name_of i) v), c\<lparr>symbols := t\<rparr>, h')"
proof -
  let ?us = "KwLet # Identifier i # Operator 0x3D # etoks e @ [Semicolon]"
  let ?n = "expr_fuel (length (render_all ?us))" and ?k = "length (render_all ?us) + 1"
  have us: "lex_all (render_all ?us) = ?us" "length ?us \<le> length (render_all ?us)"
    using assms(1) by (intro line_fuel [THEN conjunct1] line_fuel [THEN conjunct2]; simp add: is_operator_def byte_str_def)+
  have ex: "runs (eval_expr P ?n None) (etoks e) [Semicolon] c h (Inr v) c h'"
    using runs_tree(2) [OF assms(2), of ?n "[Semicolon]" P c h] us(2) assms(4) by (simp add: expr_fuel_def)
  have "runs (try_then (bind_symbol (name_of i) v) (ok_with (Bound (name_of i) v))) ([] @ []) [] c h'
      (Inr (Bound (name_of i) v)) (c\<lparr>symbols := t\<rparr>) h'"
    by (rule runs_then [OF _ runs_ok]) (simp add: runs_bind_symbol assms(5))
  then have fin: "runs (try_then expect_semicolon (try_then (bind_symbol (name_of i) v) (ok_with (Bound (name_of i) v))))
      ([Semicolon] @ []) [] c h' (Inr (Bound (name_of i) v)) (c\<lparr>symbols := t\<rparr>) h'"
    by (intro runs_then [where us = "[Semicolon]" and vs = "[]"]) (simp_all add: runs_semicolon)
  have "runs (parse_let P ?n) ([Identifier i] @ [Operator 0x3D] @ etoks e @ [Semicolon]) [] c h
      (Inr (Bound (name_of i) v)) (c\<lparr>symbols := t\<rparr>) h'"
    unfolding parse_let_def
    by (intro runs_bind [OF runs_name [OF assms(3)]] runs_then [OF runs_expect])
      (rule runs_bind [where vs = "[Semicolon]" and ts = "[]", simplified, OF ex], use fin in simp)
  then have "runs (parse_line P r ?n ?k) ?us [] c h (Inr (Bound (name_of i) v)) (c\<lparr>symbols := t\<rparr>) h'"
    unfolding parse_line_def by (intro runs_next_bind) simp
  from parse_runs [where input = "render_all ?us", unfolded us(1), OF this] show ?thesis by simp
qed

lemma bare_line:
  assumes "list_all printable (etoks e)" and "ewf e" and "(\<exists>w. hd (etoks e) = Literal w) \<or> hd (etoks e) = LParen"
    and "eeval (hw P) (lookup_symbol (symbols c)) e h = (Inr v, h')" and "length (out_stream c) = MAX_STREAM_WORDS"
  shows "\<exists>c'. parse P r (render_all (etoks e @ [Semicolon])) c h = (Inr (Run (value_program (layout P) v)), c', h')
    \<and> symbols c' = symbols c"
proof -
  let ?us = "etoks e @ [Semicolon]"
  let ?n = "expr_fuel (length (render_all ?us))" and ?k = "length (render_all ?us) + 1"
  have us: "lex_all (render_all ?us) = ?us" "length ?us \<le> length (render_all ?us)"
    using line_fuel [of ?us] assms(1) by simp_all
  have ne: "etoks e \<noteq> []" by (cases e) simp
  have ex: "runs (eval_expr P ?n (Some (hd (etoks e)))) (tl (etoks e)) [Semicolon] c h (Inr v) c h'"
    using runs_expr_some [OF assms(2), of ?n "[Semicolon]" P c h] us(2) assms(4) by (simp add: expr_fuel_def)
  obtain c' where c': "runs (build_value_program P v) [] [] c h' (Inr (value_program (layout P) v)) c' h'"
    "symbols c' = symbols c" using runs_value_program [OF assms(5), of P v "[]" h'] by blast
  have "runs (try_bind (build_value_program P v) (\<lambda>program. ok_with (Run program))) [] [] c h'
      (Inr (Run (value_program (layout P) v))) c' h'"
    using runs_bind [where us = "[]" and vs = "[]" and ts = "[]" and f = "\<lambda>program. ok_with (Run program)",
      simplified, OF c'(1) runs_ok] .
  then have fin: "runs (try_then expect_semicolon (try_bind (build_value_program P v) (\<lambda>program. ok_with (Run program))))
      [Semicolon] [] c h' (Inr (Run (value_program (layout P) v))) c' h'"
    by (rule runs_then [where us = "[Semicolon]" and vs = "[]" and ts = "[]", simplified, OF runs_semicolon])
  have "runs (parse_bare P ?n (hd (etoks e))) (tl (etoks e) @ [Semicolon]) [] c h
      (Inr (Run (value_program (layout P) v))) c' h'"
    unfolding parse_bare_def
    by (rule runs_bind [where vs = "[Semicolon]" and ts = "[]", simplified, OF ex]) (rule fin)
  then have "runs (parse_line P r ?n ?k) (hd (etoks e) # tl (etoks e) @ [Semicolon]) [] c h
      (Inr (Run (value_program (layout P) v))) c' h'"
    unfolding parse_line_def using assms(3) by (intro runs_next_bind) auto
  then have "runs (parse_line P r ?n ?k) ?us [] c h (Inr (Run (value_program (layout P) v))) c' h'"
    using ne by (metis append_Cons list.collapse)
  from parse_runs [where input = "render_all ?us", unfolded us(1), OF this] c'(2) show ?thesis by auto
qed

section \<open>Commands\<close>

lemma command_line:
  assumes "list_all printable (Identifier w # ts)"
    and "\<And>n. 2 * length ts + 4 \<le> n \<Longrightarrow> runs (parse_command P r n w) ts [] c h res c' h'"
  shows "parse P r (render_all (Identifier w # ts)) c h = (case res of Inl e \<Rightarrow> Inl (PE e) | Inr x \<Rightarrow> Inr x, c', h')"
proof -
  let ?us = "Identifier w # ts"
  let ?n = "expr_fuel (length (render_all ?us))" and ?k = "length (render_all ?us) + 1"
  have us: "lex_all (render_all ?us) = ?us" "length ?us \<le> length (render_all ?us)"
    using line_fuel [of ?us] assms(1) by simp_all
  have "runs (parse_command P r ?n w) ts [] c h res c' h'"
    using us(2) by (intro assms(2)) (simp add: expr_fuel_def)
  then have "runs (parse_line P r ?n ?k) ?us [] c h res c' h'"
    unfolding parse_line_def by (intro runs_next_bind) simp
  from parse_runs [where input = "render_all ?us", unfolded us(1), OF this] show ?thesis .
qed

lemma runs_atomic:
  assumes "twf t" and "2 * length (ttoks t) + 2 \<le> n"
  shows "runs (parse_atomic_term P n) (ttoks t) ts c h
    (fst (teval (hw P) (lookup_symbol (symbols c)) t h)) c (snd (teval (hw P) (lookup_symbol (symbols c)) t h))"
proof -
  obtain m where m: "n = Suc m" using assms(2) by (cases n) auto
  show ?thesis
    unfolding m atomic_operand using assms m by (intro runs_operand runs_tree(1)) simp_all
qed

lemma runs_require:
  "runs (require_access P r a) [] ts c h (if granted P r a then Inr () else Inl CapabilityViolation) c h"
  by (cases "check_access (target P) r a")
    (simp_all add: require_access_def granted_def runs_ok runs_reject)

text \<open>The tail that every gated command ends with.\<close>

lemma runs_gate:
  "runs (try_then expect_semicolon (try_then (require_access P r a) (ok_with out))) [Semicolon] [] c h
    (if granted P r a then Inr out else Inl CapabilityViolation) c h"
proof -
  have "runs (try_then (require_access P r a) (ok_with out)) ([] @ []) [] c h
      (if granted P r a then Inr out else Inl CapabilityViolation) c h"
    using runs_require [of P r a "[] @ []" c h]
    by (cases "granted P r a")
      (auto simp: try_then_def intro: runs_bind_err runs_bind [where us = "[]" and vs = "[]", simplified, OF _ runs_ok])
  then show ?thesis
    by (intro runs_then [where us = "[Semicolon]" and vs = "[]" and ts = "[]", simplified, OF runs_semicolon]) simp
qed

lemma peek_line:
  assumes "twf t" and "list_all printable (ttoks t)" and "teval (hw P) (lookup_symbol (symbols c)) t h = (Inr a, h')"
  shows "parse P r (render_all (Identifier (byte_str ''peek'') # ttoks t @ [Semicolon])) c h
    = (if granted P r a then Inr (EnforcedPeek a) else Inl (PE CapabilityViolation), c, h')"
proof -
  have "runs (parse_command P r n (byte_str ''peek'')) (ttoks t @ [Semicolon]) [] c h
      (if granted P r a then Inr (EnforcedPeek a) else Inl CapabilityViolation) c h'"
    if "2 * length (ttoks t @ [Semicolon]) + 4 \<le> n" for n
  proof -
    have t: "runs (parse_atomic_term P n) (ttoks t) ([Semicolon] @ []) c h (Inr a) c h'"
      using runs_atomic [OF assms(1), of n P "[Semicolon]" c h] that assms(3) by simp
    show ?thesis
      unfolding parse_command_def by (simp only: refl if_True) (rule runs_bind [OF t runs_gate])
  qed
  from command_line [OF _ this] show ?thesis
    using assms(2) by (simp add: byte_str_def is_alpha_def is_ident_char_def)
qed

lemma poke_line:
  assumes "twf t" and "ewf e" and "list_all printable (ttoks t @ etoks e)"
    and "teval (hw P) (lookup_symbol (symbols c)) t h = (Inr a, h1)"
    and "eeval (hw P) (lookup_symbol (symbols c)) e h1 = (Inr v, h')"
  shows "parse P r (render_all (Identifier (byte_str ''poke'') # ttoks t @ etoks e @ [Semicolon])) c h
    = (if granted P r a then Inr (EnforcedPoke a v) else Inl (PE CapabilityViolation), c, h')"
proof -
  have "runs (parse_command P r n (byte_str ''poke'')) (ttoks t @ etoks e @ [Semicolon]) [] c h
      (if granted P r a then Inr (EnforcedPoke a v) else Inl CapabilityViolation) c h'"
    if "2 * length (ttoks t @ etoks e @ [Semicolon]) + 4 \<le> n" for n
  proof -
    have t: "runs (parse_atomic_term P n) (ttoks t) ((etoks e @ [Semicolon]) @ []) c h (Inr a) c h1"
      using runs_atomic [OF assms(1), of n P "etoks e @ [Semicolon]" c h] that assms(4) by simp
    have e: "runs (eval_expr P n None) (etoks e) ([Semicolon] @ []) c h1 (Inr v) c h'"
      using runs_tree(2) [OF assms(2), of n "[Semicolon]" P c h1] that assms(5) by simp
    have ne: "byte_str ''poke'' \<noteq> byte_str ''peek''" by (simp add: byte_str_def)
    show ?thesis
      unfolding parse_command_def
      by (simp only: refl if_True ne if_False) (rule runs_bind [OF t runs_bind [OF e runs_gate]])
  qed
  from command_line [OF _ this] show ?thesis
    using assms(3) by (simp add: byte_str_def is_alpha_def is_ident_char_def)
qed

lemma bit_line:
  assumes "twf t" and "twf b" and "list_all printable (ttoks t @ ttoks b)"
    and "teval (hw P) (lookup_symbol (symbols c)) t h = (Inr a, h1)"
    and "teval (hw P) (lookup_symbol (symbols c)) b h1 = (Inr v, h')"
    and "(w, out) \<in> {(byte_str ''reg_set_bit'', SetBit a v), (byte_str ''reg_clr_bit'', ClrBit a v)}"
  shows "parse P r (render_all (Identifier w # ttoks t @ ttoks b @ [Semicolon])) c h
    = (if granted P r a then Inr out else Inl (PE CapabilityViolation), c, h')"
proof -
  have "runs (parse_command P r n w) (ttoks t @ ttoks b @ [Semicolon]) [] c h
      (if granted P r a then Inr out else Inl CapabilityViolation) c h'"
    if "2 * length (ttoks t @ ttoks b @ [Semicolon]) + 4 \<le> n" for n
  proof -
    have t: "runs (parse_atomic_term P n) (ttoks t) ((ttoks b @ [Semicolon]) @ []) c h (Inr a) c h1"
      using runs_atomic [OF assms(1), of n P "ttoks b @ [Semicolon]" c h] that assms(4) by simp
    have e: "runs (parse_atomic_term P n) (ttoks b) ([Semicolon] @ []) c h1 (Inr v) c h'"
      using runs_atomic [OF assms(2), of n P "[Semicolon]" c h1] that assms(5) by simp
    have "parse_command P r n w = try_bind (parse_atomic_term P n) (\<lambda>addr. try_bind (parse_atomic_term P n) (\<lambda>b.
        try_then expect_semicolon (try_then (require_access P r addr)
          (ok_with (if w = byte_str ''reg_set_bit'' then SetBit addr b else ClrBit addr b)))))"
      using assms(6) by (auto simp: parse_command_def byte_str_def)
    moreover have out: "out = (if w = byte_str ''reg_set_bit'' then SetBit a v else ClrBit a v)"
      using assms(6) by (auto simp: byte_str_def)
    ultimately show ?thesis
      by (simp only:) (rule runs_bind [OF t], rule runs_bind [OF e], rule runs_gate)
  qed
  from command_line [OF _ this] show ?thesis
    using assms(3,6) by (auto simp: byte_str_def is_alpha_def is_ident_char_def is_digit_def)
qed

lemma name_line:
  assumes "printable (Identifier i)" and "length i \<le> NAME_MAX"
    and "(w, out) \<in> {(byte_str ''cap_claim'', Claim (name_of i)), (byte_str ''cap_drop'', Drop (name_of i))}"
  shows "parse P r (render_all [Identifier w, Identifier i, Semicolon]) c h = (Inr out, c, h)"
proof -
  have cmd: "parse_command P r n w = try_bind expect_name (\<lambda>name. try_then expect_semicolon
      (ok_with (if w = byte_str ''cap_claim'' then Claim name else Drop name)))" for n
    using assms(3) by (auto simp: parse_command_def byte_str_def)
  have out: "out = (if w = byte_str ''cap_claim'' then Claim (name_of i) else Drop (name_of i))"
    using assms(3) by (auto simp: byte_str_def)
  have "runs (parse_command P r n w) ([Identifier i] @ [Semicolon] @ []) [] c h (Inr out) c h" for n
    unfolding cmd out
    by (intro runs_bind [OF runs_name [OF assms(2)]] runs_then [OF runs_semicolon] runs_ok)
  from command_line [OF _ this [simplified]] show ?thesis
    using assms(1,3) by (auto simp: byte_str_def is_alpha_def is_ident_char_def is_digit_def)
qed

end
