(* ===== verification/FnSem.thy ===== *)
theory FnSem
  imports LineSem
begin

text \<open>
  Function definitions and calls, as whole lines: what \<open>fn f() { ... }\<close> stores for a body of
  register statements, and the program that a later \<open>f();\<close> returns.
\<close>

section \<open>Appending to the output stream\<close>

definition push_all :: "usize list \<Rightarrow> Compiler \<Rightarrow> Compiler" where
  "push_all = fold (\<lambda>w c. c\<lparr>out_stream := (out_stream c)[stream_len c := w], stream_len := stream_len c + 1\<rparr>)"

lemma push_all_simps [simp]:
  "push_all [] c = c"
  "push_all (w # ws) c = push_all ws (c\<lparr>out_stream := (out_stream c)[stream_len c := w], stream_len := stream_len c + 1\<rparr>)"
  "push_all (xs @ ys) c = push_all ys (push_all xs c)"
  by (simp_all add: push_all_def)

lemma push_all_frame [simp]:
  "symbols (push_all ws c) = symbols c" "fn_names (push_all ws c) = fn_names c"
  "fn_bodies (push_all ws c) = fn_bodies c" "fn_body_lens (push_all ws c) = fn_body_lens c"
  "stream_len (push_all ws c) = stream_len c + length ws"
  "length (out_stream (push_all ws c)) = length (out_stream c)"
  by (induction ws arbitrary: c) simp_all

lemma push_all_take:
  "stream_len c + length ws \<le> length (out_stream c) \<Longrightarrow>
   take (stream_len c + length ws) (out_stream (push_all ws c)) = take (stream_len c) (out_stream c) @ ws"
proof (induction ws arbitrary: c)
  case (Cons w ws)
  let ?c = "c\<lparr>out_stream := (out_stream c)[stream_len c := w], stream_len := stream_len c + 1\<rparr>"
  have "take (stream_len ?c + length ws) (out_stream (push_all ws ?c)) = take (stream_len ?c) (out_stream ?c) @ ws"
    using Cons.prems by (intro Cons.IH) simp
  moreover have "take (stream_len ?c) (out_stream ?c) = take (stream_len c) (out_stream c) @ [w]"
    using Cons.prems by (simp add: take_Suc_conv_app_nth)
  ultimately show ?case by simp
qed simp

lemma runs_reset: "runs stream_reset [] ts c h (Inr ()) (c\<lparr>stream_len := 0\<rparr>) h"
  by (auto simp: runs_def stream_reset_def)

lemma runs_push:
  "stream_len c < MAX_STREAM_WORDS \<Longrightarrow> runs (stream_push w) [] ts c h (Inr ()) (push_all [w] c) h"
  by (auto simp: runs_def stream_push_def Let_def)

lemma runs_push_words:
  "stream_len c + length ws \<le> MAX_STREAM_WORDS \<Longrightarrow> runs (push_words ws) [] ts c h (Inr ()) (push_all ws c) h"
proof (induction ws arbitrary: c)
  case (Cons w ws)
  have "runs (stream_push w) [] ([] @ ts) c h (Inr ()) (push_all [w] c) h"
    using Cons.prems by (intro runs_push) simp
  moreover have "runs (push_words ws) [] ts (push_all [w] c) h (Inr ()) (push_all ws (push_all [w] c)) h"
    using Cons.prems by (intro Cons.IH) simp
  ultimately show ?case
    using runs_then [where us = "[]" and vs = "[]" and ts = ts] by (simp del: push_all_simps(2)) (simp add: push_all_def)
qed (simp add: runs_ok)

text \<open>A sequence of operations that take no token.\<close>

lemma runs_silent:
  "runs m [] ts c h (Inr x) c1 h1 \<Longrightarrow> runs f us ts' c1 h1 res c2 h2 \<Longrightarrow> us @ ts' = ts
    \<Longrightarrow> runs (try_then m f) us ts' c h res c2 h2"
  using runs_then [of m "[]" us ts' c h x c1 h1 f res c2 h2] by simp

lemma runs_push_lit:
  assumes "stream_len c + 2 \<le> MAX_STREAM_WORDS"
  shows "runs (stream_push_lit P v) [] ts c h (Inr ()) (push_all [layout P Lit, v] c) h"
  using runs_silent [OF runs_push [of c "layout P Lit" "ts" h] runs_push [of "push_all [layout P Lit] c" v ts h]] assms
  by (simp add: stream_push_lit_def)
section \<open>Function bodies\<close>

text \<open>Statement trees, their tokens and their evaluation to compiled statements: the operands are
  evaluated, and the hardware read, while the body is parsed.\<close>

datatype stmt0 = PokeS term0 expr0 | PeekS term0

fun stoks :: "stmt0 \<Rightarrow> Token list" where
  "stoks (PokeS t e) = Identifier (byte_str ''poke'') # ttoks t @ etoks e @ [Semicolon]"
| "stoks (PeekS t) = Identifier (byte_str ''peek'') # ttoks t @ [Semicolon]"

fun swf :: "stmt0 \<Rightarrow> bool" where
  "swf (PokeS t e) \<longleftrightarrow> twf t \<and> ewf e"
| "swf (PeekS t) \<longleftrightarrow> twf t"

definition gate :: "(u32 \<Rightarrow> bool) \<Rightarrow> bstmt \<Rightarrow> 'h \<Rightarrow> (ParseError + bstmt) \<times> 'h" where
  "gate G x = (if G (stmt_addr x) then ok_with x else fail_with CapabilityViolation)"

fun seval :: "'h bus \<Rightarrow> (u8 list \<Rightarrow> u32 option) \<Rightarrow> (u32 \<Rightarrow> bool) \<Rightarrow> stmt0 \<Rightarrow> 'h \<Rightarrow> (ParseError + bstmt) \<times> 'h" where
  "seval B env G (PokeS t e) = try_bind (teval B env t) (\<lambda>a. try_bind (eeval B env e) (\<lambda>v. gate G (SPoke a v)))"
| "seval B env G (PeekS t) = try_bind (teval B env t) (\<lambda>a. gate G (SPeek a))"

fun bseval :: "'h bus \<Rightarrow> (u8 list \<Rightarrow> u32 option) \<Rightarrow> (u32 \<Rightarrow> bool) \<Rightarrow> stmt0 list \<Rightarrow> 'h \<Rightarrow> (ParseError + bstmt list) \<times> 'h" where
  "bseval B env G [] = ok_with []"
| "bseval B env G (x # xs) = try_bind (seval B env G x) (\<lambda>y. try_bind (bseval B env G xs) (\<lambda>ys. ok_with (y # ys)))"

abbreviation swords :: "(prim \<Rightarrow> usize) \<Rightarrow> bstmt list \<Rightarrow> usize list" where
  "swords lay ss \<equiv> enc lay (body_ops ss)"

lemma try_bind_Inr: "try_bind m f s = (Inr y, s') \<longleftrightarrow> (\<exists>x s1. m s = (Inr x, s1) \<and> f x s1 = (Inr y, s'))"
  by (cases "m s") (auto simp: try_bind_def split: sum.splits)

lemma gate_Inr [simp]: "gate G x s = (Inr y, s') \<longleftrightarrow> G (stmt_addr x) \<and> y = x \<and> s' = s"
  by (auto simp: gate_def ok_with_def fail_with_def)

lemma runs_granted: "granted P r a \<Longrightarrow> runs (require_access P r a) [] ts c h (Inr ()) c h"
  using runs_require [of P r a ts c h] by simp

lemma runs_poke_stmt:
  assumes "twf t" and "ewf e" and "2 * length (stoks (PokeS t e)) \<le> n" and "granted P r a"
    and "teval (hw P) (lookup_symbol (symbols c)) t h = (Inr a, h1)" and "eeval (hw P) (lookup_symbol (symbols c)) e h1 = (Inr v, h')"
    and "stream_len c + length (swords (layout P) [SPoke a v]) \<le> MAX_STREAM_WORDS"
  shows "runs (parse_body_stmt P r n) (stoks (PokeS t e)) ts c h (Inr ()) (push_all (swords (layout P) [SPoke a v]) c) h'"
proof -
  let ?L = "layout P"
  have t: "runs (parse_atomic_term P n) (ttoks t) ((etoks e @ [Semicolon]) @ ts) c h (Inr a) c h1"
    using runs_atomic [of t n P "(etoks e @ [Semicolon]) @ ts" c h] assms(1,3,5) by simp
  have e: "runs (eval_expr P n None) (etoks e) ([Semicolon] @ ts) c h1 (Inr v) c h'"
    using runs_tree(2) [of e n "[Semicolon] @ ts" P c h1] assms(2,3,6) by simp
  have w: "swords ?L [SPoke a v] = [?L Lit, a] @ [?L Lit, v] @ [?L WriteReg]" by (simp add: poke_ops_def)
  have "runs (try_then (require_access P r a) (try_then (stream_push_lit P a) (try_then (stream_push_lit P v)
      (try_then (stream_push (?L WriteReg)) (ok_with ()))))) [] ts c h' (Inr ()) (push_all (swords ?L [SPoke a v]) c) h'"
    unfolding w push_all_simps(3) using assms(7) w
    by (intro runs_silent [OF runs_granted] runs_silent [OF runs_push_lit] runs_silent [OF runs_push] runs_ok assms(4))
      (simp_all del: push_all_simps(2))
  then have fin: "runs (try_then expect_semicolon (try_then (require_access P r a) (try_then (stream_push_lit P a)
      (try_then (stream_push_lit P v) (try_then (stream_push (?L WriteReg)) (ok_with ())))))) ([Semicolon] @ []) ts c h'
      (Inr ()) (push_all (swords ?L [SPoke a v]) c) h'"
    by (intro runs_then [OF runs_semicolon]) simp
  show ?thesis
    unfolding parse_body_stmt_def stoks.simps
    by (rule runs_next_bind, simp only: Token.case refl if_True)
      (rule runs_bind [OF t], rule runs_bind [OF e], rule fin [unfolded append_Nil2])
qed

lemma runs_peek_stmt:
  assumes "twf t" and "2 * length (stoks (PeekS t)) \<le> n" and "granted P r a"
    and "teval (hw P) (lookup_symbol (symbols c)) t h = (Inr a, h')"
    and "stream_len c + length (swords (layout P) [SPeek a]) \<le> MAX_STREAM_WORDS"
  shows "runs (parse_body_stmt P r n) (stoks (PeekS t)) ts c h (Inr ()) (push_all (swords (layout P) [SPeek a]) c) h'"
proof -
  let ?L = "layout P"
  have t: "runs (parse_atomic_term P n) (ttoks t) ([Semicolon] @ ts) c h (Inr a) c h'"
    using runs_atomic [of t n P "[Semicolon] @ ts" c h] assms(1,2,4) by simp
  have w: "swords ?L [SPeek a] = [?L Lit, a] @ [?L LoadReg]" by simp
  have "runs (try_then (require_access P r a) (try_then (stream_push_lit P a) (try_then (stream_push (?L LoadReg)) (ok_with ()))))
      [] ts c h' (Inr ()) (push_all (swords ?L [SPeek a]) c) h'"
    unfolding w push_all_simps(3) using assms(5) w
    by (intro runs_silent [OF runs_granted] runs_silent [OF runs_push_lit] runs_silent [OF runs_push] runs_ok assms(3))
      (simp_all del: push_all_simps(2))
  then have fin: "runs (try_then expect_semicolon (try_then (require_access P r a) (try_then (stream_push_lit P a)
      (try_then (stream_push (?L LoadReg)) (ok_with ()))))) ([Semicolon] @ []) ts c h'
      (Inr ()) (push_all (swords ?L [SPeek a]) c) h'"
    by (intro runs_then [OF runs_semicolon]) simp
  have ne: "byte_str ''peek'' \<noteq> byte_str ''poke''" by (simp add: byte_str_def)
  show ?thesis
    unfolding parse_body_stmt_def stoks.simps
    by (rule runs_next_bind, simp only: Token.case refl if_True ne if_False)
      (rule runs_bind [OF t], rule fin [unfolded append_Nil2])
qed

lemma runs_stmt:
  assumes "swf x" and "2 * length (stoks x) \<le> n"
    and "seval (hw P) (lookup_symbol (symbols c)) (granted P r) x h = (Inr y, h')"
    and "stream_len c + length (swords (layout P) [y]) \<le> MAX_STREAM_WORDS"
  shows "runs (parse_body_stmt P r n) (stoks x) ts c h (Inr ()) (push_all (swords (layout P) [y]) c) h'"
proof (cases x)
  case (PokeS t e)
  then obtain a h1 v where "teval (hw P) (lookup_symbol (symbols c)) t h = (Inr a, h1)"
      "eeval (hw P) (lookup_symbol (symbols c)) e h1 = (Inr v, h')" and y: "y = SPoke a v" and "granted P r a"
    using assms(3) by (auto simp: try_bind_Inr)
  with assms show ?thesis unfolding PokeS y by (intro runs_poke_stmt) (simp_all add: PokeS del: stoks.simps)
next
  case (PeekS t)
  then obtain a where "teval (hw P) (lookup_symbol (symbols c)) t h = (Inr a, h')" and y: "y = SPeek a" and "granted P r a"
    using assms(3) by (auto simp: try_bind_Inr)
  with assms show ?thesis unfolding PeekS y by (intro runs_peek_stmt) (simp_all add: PeekS del: stoks.simps)
qed

lemma length_concat_ge: "\<forall>x\<in>set xs. f x \<noteq> [] \<Longrightarrow> length xs \<le> length (concat (map f xs))"
proof (induction xs)
  case (Cons x xs)
  then show ?case by (cases "f x") auto
qed simp

lemma stoks_hd [simp]: "stoks x \<noteq> []" "hd_tok (stoks x @ ts) \<noteq> RBrace" "hd_tok (stoks x @ ts) \<noteq> Eof"
  by (cases x; simp)+

lemma runs_body_loop:
  assumes "list_all swf xs" and "\<forall>x\<in>set xs. 2 * length (stoks x) \<le> n" and "length xs < k"
    and "bseval (hw P) (lookup_symbol (symbols c)) (granted P r) xs h = (Inr ys, h')"
    and "stream_len c + length (swords (layout P) ys) \<le> MAX_STREAM_WORDS"
  shows "runs (body_loop P r n k) (concat (map stoks xs) @ [RBrace]) ts c h (Inr ()) (push_all (swords (layout P) ys) c) h'"
  using assms
proof (induction xs arbitrary: k c h ys)
  case Nil
  then obtain m where m: "k = Suc m" by (cases k) auto
  show ?case
    unfolding m body_loop.simps using Nil.prems
    by (intro runs_peek_bind) (auto simp: ok_with_def [of "[]"] intro: runs_next_then runs_ok)
next
  case (Cons x xs)
  let ?L = "layout P"
  obtain m where m: "k = Suc m" using Cons.prems(3) by (cases k) auto
  obtain y h1 zs where y: "seval (hw P) (lookup_symbol (symbols c)) (granted P r) x h = (Inr y, h1)"
      and zs: "bseval (hw P) (lookup_symbol (symbols c)) (granted P r) xs h1 = (Inr zs, h')" and ys: "ys = y # zs"
    using Cons.prems(4) by (auto simp: try_bind_Inr ok_with_def)
  have x: "runs (parse_body_stmt P r n) (stoks x) ((concat (map stoks xs) @ [RBrace]) @ ts) c h (Inr ())
      (push_all (swords ?L [y]) c) h1"
    using Cons.prems by (intro runs_stmt y) (simp_all add: ys)
  have xs: "runs (body_loop P r n m) (concat (map stoks xs) @ [RBrace]) ts (push_all (swords ?L [y]) c) h1 (Inr ())
      (push_all (swords ?L zs) (push_all (swords ?L [y]) c)) h'"
    using Cons.prems zs by (intro Cons.IH) (simp_all add: ys m)
  have w: "push_all (swords ?L ys) c = push_all (swords ?L zs) (push_all (swords ?L [y]) c)" by (simp add: ys)
  have "runs (try_then (parse_body_stmt P r n) (body_loop P r n m)) (stoks x @ concat (map stoks xs) @ [RBrace]) ts c h
      (Inr ()) (push_all (swords ?L ys) c) h'"
    unfolding w by (rule runs_then [OF x xs])
  then show ?case
    unfolding m body_loop.simps by (intro runs_peek_bind) simp
qed

text \<open>The stored function, and what a later call makes of it.\<close>

definition define_fn :: "Compiler \<Rightarrow> nat \<Rightarrow> NameBuf \<Rightarrow> usize list \<Rightarrow> Compiler" where
  "define_fn c index name ws =
     (let c' = push_all ws (c\<lparr>stream_len := 0\<rparr>) in
      c'\<lparr>fn_names := (fn_names c)[index := name], fn_body_lens := (fn_body_lens c)[index := length ws],
         fn_bodies := (fn_bodies c)[index := copy_prefix ws (fn_bodies c ! index)]\<rparr>)"

text \<open>Storing the emitted body \<open>ws\<close> under a new name.\<close>

lemma runs_store:
  fixes c :: Compiler
  assumes "length i \<le> NAME_MAX" and "length ws \<le> FN_BODY_WORDS" and "length (out_stream c) = MAX_STREAM_WORDS"
    and "find_fn c i = None" and "find (\<lambda>j. nb_len (fn_names c ! j) = 0) [0..<MAX_FNS] = Some index"
  shows "runs (try_then check_body_len (try_bind (alloc_fn_slot (name_of i)) (\<lambda>index.
      try_then (store_fn index (name_of i)) (ok_with (FnDefined (name_of i)))))) [] ts (push_all ws (c\<lparr>stream_len := 0\<rparr>)) h
      (Inr (FnDefined (name_of i))) (define_fn c index (name_of i) ws) h"
proof -
  let ?c0 = "c\<lparr>stream_len := 0\<rparr>"
  let ?c1 = "push_all ws ?c0" and ?c2 = "define_fn c index (name_of i) ws"
  have cl: "runs check_body_len [] us ?c1 h (Inr ()) ?c1 h" for us
    using assms(2) by (auto simp: runs_def check_body_len_def)
  have al: "runs (alloc_fn_slot (name_of i)) [] us ?c1 h (Inr index) ?c1 h" for us
    using assms(4,5) name_of_facts [OF assms(1)] by (auto simp: runs_def alloc_fn_slot_def find_fn_def fn_allocated_def)
  have st: "runs (store_fn index (name_of i)) [] us ?c1 h (Inr ()) ?c2 h" for us
    using assms(2,3) push_all_take [of ?c0 ws]
    by (auto simp: runs_def store_fn_def define_fn_def Let_def FN_BODY_WORDS_def MAX_STREAM_WORDS_def)
  have "runs (try_bind (alloc_fn_slot (name_of i)) (\<lambda>index. try_then (store_fn index (name_of i)) (ok_with (FnDefined (name_of i)))))
      ([] @ []) ts ?c1 h (Inr (FnDefined (name_of i))) ?c2 h"
    by (rule runs_bind [OF al]) (rule runs_silent [OF st runs_ok], simp)
  then show ?thesis by (intro runs_silent [OF cl]) simp_all
qed

lemma fn_line:
  assumes "printable (Identifier i)" and "length i \<le> NAME_MAX" and "list_all swf xs"
    and "list_all printable (concat (map stoks xs))"
    and "bseval (hw P) (lookup_symbol (symbols c)) (granted P r) xs h = (Inr ys, h')"
    and "length (swords (layout P) ys) \<le> FN_BODY_WORDS" and "length (out_stream c) = MAX_STREAM_WORDS"
    and "find_fn c i = None" and "find (\<lambda>j. nb_len (fn_names c ! j) = 0) [0..<MAX_FNS] = Some index"
  shows "parse P r (render_all (KwFn # Identifier i # LParen # RParen # LBrace # concat (map stoks xs) @ [RBrace])) c h
    = (Inr (FnDefined (name_of i)), define_fn c index (name_of i) (swords (layout P) ys), h')"
proof -
  let ?us = "KwFn # Identifier i # LParen # RParen # LBrace # concat (map stoks xs) @ [RBrace]"
  let ?n = "expr_fuel (length (render_all ?us))" and ?k = "length (render_all ?us) + 1"
  let ?ws = "swords (layout P) ys" and ?c0 = "c\<lparr>stream_len := 0\<rparr>"
  let ?c1 = "push_all ?ws ?c0" and ?c2 = "define_fn c index (name_of i) ?ws"
  have us: "lex_all (render_all ?us) = ?us" "length ?us \<le> length (render_all ?us)"
    using line_fuel [of ?us] assms(1,4) by simp_all
  have len: "length xs \<le> length (concat (map stoks xs))"
    by (rule length_concat_ge) simp
  have each: "\<forall>x\<in>set xs. length (stoks x) \<le> length (concat (map stoks xs))"
    by (auto simp: length_concat intro!: member_le_sum_list)
  have body: "runs (body_loop P r ?n ?k) (concat (map stoks xs) @ [RBrace]) ([] @ []) ?c0 h (Inr ()) ?c1 h'"
  proof (rule runs_body_loop [OF assms(3)])
    show "\<forall>x\<in>set xs. 2 * length (stoks x) \<le> ?n" using each us(2) by (auto simp: expr_fuel_def)
    show "length xs < ?k" using len us(2) by simp
  qed (use assms(5,6) in \<open>simp_all add: FN_BODY_WORDS_def MAX_STREAM_WORDS_def\<close>)
  have "runs (try_then stream_reset (try_then (body_loop P r ?n ?k) (try_then check_body_len
      (try_bind (alloc_fn_slot (name_of i)) (\<lambda>index. try_then (store_fn index (name_of i)) (ok_with (FnDefined (name_of i))))))))
      ((concat (map stoks xs) @ [RBrace]) @ []) [] c h (Inr (FnDefined (name_of i))) ?c2 h'"
    by (rule runs_silent [OF runs_reset runs_then [OF body runs_store [OF assms(2,6-9)]]]) simp
  then have "runs (parse_fn P r ?n ?k) ([Identifier i] @ [LParen] @ [RParen] @ [LBrace] @ concat (map stoks xs) @ [RBrace]) [] c h
      (Inr (FnDefined (name_of i))) ?c2 h'"
    unfolding parse_fn_def
    by (intro runs_bind [OF runs_name [OF assms(2)]] runs_then [OF runs_expect]) (simp only: append_Nil2)
  then have "runs (parse_line P r ?n ?k) ?us [] c h (Inr (FnDefined (name_of i))) ?c2 h'"
    unfolding parse_line_def by (intro runs_next_bind) simp
  from parse_runs [where input = "render_all ?us", unfolded us(1), OF this] show ?thesis by simp
qed

text \<open>Calling: \<open>reserved\<close> are the words that \<open>parse_command\<close> takes for itself.\<close>

definition reserved :: "u8 list set" where
  "reserved = {byte_str ''peek'', byte_str ''poke'', byte_str ''cap_claim'', byte_str ''cap_drop'',
     byte_str ''reg_set_bit'', byte_str ''reg_clr_bit'', byte_str ''help'', byte_str ''banner'', byte_str ''sys_audit''}"

lemma runs_call_parens: "runs parse_call_parens [LParen, RParen, Semicolon] ts c h (Inr ()) c h"
proof -
  have "runs parse_call_parens (LParen # [RParen] @ [Semicolon]) ts c h (Inr ()) c h"
    unfolding parse_call_parens_def
    by (intro runs_next_then runs_then [OF runs_expect] runs_semicolon)
  then show ?thesis by simp
qed

lemma call_line:
  assumes "printable (Identifier i)" and "i \<notin> reserved" and "find_fn c i = Some index"
    and "take (fn_body_lens c ! index) (fn_bodies c ! index) = swords (layout P) ys"
    and "fn_body_lens c ! index = length (swords (layout P) ys)" and "length (swords (layout P) ys) \<le> FN_BODY_WORDS"
    and "length (out_stream c) = MAX_STREAM_WORDS"
  shows "parse P r (render_all [Identifier i, LParen, RParen, Semicolon]) c h
    = (Inr (Run (call_program (layout P) ys)),
       push_all (swords (layout P) ys @ [layout P Halt]) (c\<lparr>stream_len := 0\<rparr>), h)"
proof -
  let ?L = "layout P" and ?ws = "swords (layout P) ys" and ?c0 = "c\<lparr>stream_len := 0\<rparr>"
  let ?c1 = "push_all (?ws @ [?L Halt]) ?c0"
  have ws: "map (\<lambda>w. fn_bodies c ! index ! w) [0..<fn_body_lens c ! index] = ?ws"
  proof (rule nth_equalityI)
    fix j assume "j < length (map (\<lambda>w. fn_bodies c ! index ! w) [0..<fn_body_lens c ! index])"
    then show "map (\<lambda>w. fn_bodies c ! index ! w) [0..<fn_body_lens c ! index] ! j = ?ws ! j"
      using arg_cong [OF assms(4), of "\<lambda>l. l ! j"] by simp
  qed (simp add: assms(5))
  have lk: "runs (lookup_fn i) [] ts c h (Inr index) c h" for ts
    using assms(3) by (auto simp: runs_def lookup_fn_def)
  have body: "runs (push_body index) [] ts ?c0 h (Inr ()) (push_all ?ws ?c0) h" for ts
    using runs_push_words [of ?c0 ?ws ts h] assms(6) ws
    by (auto simp: runs_def push_body_def Let_def FN_BODY_WORDS_def MAX_STREAM_WORDS_def)
  have halt: "runs (stream_halt P) [] ts (push_all ?ws ?c0) h (Inr ()) ?c1 h" for ts
    using runs_push [of "push_all ?ws ?c0" "?L Halt" ts h] assms(6)
    by (simp add: stream_halt_def FN_BODY_WORDS_def MAX_STREAM_WORDS_def)
  have tk: "runs (take_program False) [] ts ?c1 h (Inr (call_program ?L ys)) ?c1 h" for ts
    using assms(6,7) push_all_take [of ?c0 "?ws @ [?L Halt]"]
    by (auto simp: runs_def take_program_def Let_def call_program_def stream_of_def copy_prefix_def
        FN_BODY_WORDS_def MAX_STREAM_WORDS_def simp del: push_all_simps)
  have build: "runs (build_call_program P i) ([] @ []) [] c h (Inr (call_program ?L ys)) ?c1 h"
    unfolding build_call_program_def
    by (rule runs_bind [OF lk], intro runs_silent [OF runs_reset] runs_silent [OF body] runs_silent [OF halt] tk) simp_all
  have "runs (try_bind (build_call_program P i) (\<lambda>program. ok_with (Run program))) ([] @ []) [] c h
      (Inr (Run (call_program ?L ys))) ?c1 h"
    by (rule runs_bind [where vs = "[]" and ts = "[]", unfolded append_Nil, OF build [unfolded append_Nil]]) (rule runs_ok)
  then have fin: "runs (try_then parse_call_parens (try_bind (build_call_program P i) (\<lambda>program. ok_with (Run program))))
      ([LParen, RParen, Semicolon] @ []) [] c h (Inr (Run (call_program ?L ys))) ?c1 h"
    by (intro runs_then [OF runs_call_parens]) simp
  have "runs (parse_command P r n i) [LParen, RParen, Semicolon] [] c h (Inr (Run (call_program ?L ys))) ?c1 h" for n
    using assms(2) fin unfolding parse_command_def reserved_def by (auto intro: runs_peek_bind)
  from command_line [OF _ this] show ?thesis using assms(1) by simp
qed

end
