(* ===== verification/Session.thy ===== *)
theory Session
  imports FnSem
begin

text \<open>
  What a user's session can make the front end do: the properties of the parser, composed from
  its soundness (\<open>ParserLaws\<close>), the meaning of lines (\<open>LineSem\<close>, \<open>FnSem\<close>), the symbol table
  and the native back end. Programs are returned to the caller, so every statement about them
  ends with what running them does.
\<close>

section \<open>Soundness\<close>

lemma ram_granted: "check_access Arm REGISTRY_BITS 0x20000000 = Inr ()"
  by (simp add: check_access_def reg_simps arm_addr_to_cap_def wf_registry_ops(3))

lemma addr_windows_arm_gpioa: "check_access Arm REGISTRY_BITS 0x40020014 = Inl GpioA"
  by (simp add: check_access_def reg_simps arm_addr_to_cap_def wf_registry_ops(3) del: cap_num.simps)

lemma new_slots: "\<exists>j<SYMBOL_SLOTS. \<not> sym_used (symbols compiler_new ! j)" "\<exists>j<MAX_FNS. \<not> fn_allocated compiler_new j"
  by (rule exI [of _ 0]; simp add: compiler_new_def EMPTY_SYMBOL_def SYMBOL_SLOTS_def fn_allocated_def MAX_FNS_def)+


text \<open>A parse on a core on which the addresses in \<open>F\<close> do not answer: it ends at the first read there.\<close>

definition parse_faulting :: "(u32 \<Rightarrow> bool) \<Rightarrow> ('e, 'h \<times> access list) platform \<Rightarrow> registry \<Rightarrow> u8 list \<Rightarrow> Compiler \<Rightarrow> 'h \<times> access list
    \<Rightarrow> access + (parse_fail + Outcome) \<times> Compiler \<times> 'h \<times> access list" where
  "parse_faulting F P r input c h =
     (let (res, c', h') = parse P r input c h in
      case first_fault F (drop (length (snd h)) (snd h')) of Some x \<Rightarrow> Inl x | None \<Rightarrow> Inr (res, c', h'))"

lemma read_all_traced:
  "\<exists>s. snd (read_all (traced B) as h) = snd h @ s \<and> map acc_addr s = as \<and> list_all (\<lambda>x. \<not> is_write x) s"
proof (induction as arbitrary: h)
  case (Cons a as)
  let ?h = "snd (rd (traced B) a h)"
  obtain s where s: "snd (read_all (traced B) as ?h) = snd ?h @ s \<and> map acc_addr s = as \<and> list_all (\<lambda>x. \<not> is_write x) s"
    using Cons by blast
  have "snd ?h = snd h @ [Rd a (fst (rd B a (fst h)))]" by (cases h) (simp add: traced_simps)
  with s show ?case by (intro exI [of _ "Rd a (fst (rd B a (fst h))) # s"]) simp
qed simp

text \<open>C23: a parse is total and harmless, up to a read that faults. From any well-formed compiler
  state, for every input line, registry and hardware, where the addresses in \<open>F\<close> do not answer:
  either the line makes the parser read an address in \<open>F\<close>, and the core faults at that read (the
  parser checks no \<open>peek\<close> inside an expression, so a line can do that); or the parser
  finishes within its fuel, leaves the compiler well formed (symbol table chained, every stored
  body a stream of complete statements of at most 32 words, every index in range), and all it has
  done to the hardware is a sequence of reads, none in \<open>F\<close>. With \<open>F\<close> empty every parse finishes.\<close>

theorem parse_total_and_harmless:
  assumes "wf_comp (layout P) (\<lambda>_. True) c" and "hw P = traced B"
  shows "case parse_faulting F P r input c h of
      Inl x \<Rightarrow> \<exists>a v. x = Rd a v \<and> F a
    | Inr (res, c', h') \<Rightarrow> res \<noteq> Inl OutOfFuel \<and> wf_comp (layout P) (\<lambda>_. True) c'
        \<and> (\<exists>as. h' = read_all (hw P) as h \<and> (\<forall>a \<in> set as. \<not> F a))"
proof -
  obtain res c' h' where p: "parse P r input c h = (res, c', h')" by (cases "parse P r input c h")
  have ps: "res \<noteq> Inl OutOfFuel" "wf_comp (layout P) (\<lambda>_. True) c'" "reads (hw P) h h'"
    using parse_sound [OF assms(1) _ p] by simp_all
  then obtain as where as: "h' = read_all (hw P) as h" by (auto simp: reads_def)
  obtain s where s: "snd h' = snd h @ s" "map acc_addr s = as" "list_all (\<lambda>x. \<not> is_write x) s"
    using read_all_traced [of B as h] by (auto simp: as assms(2))
  show ?thesis
  proof (cases "first_fault F s")
    case None
    then have "\<forall>a \<in> set as. \<not> F a" using s(2) by (auto simp: first_fault_None)
    with None ps(1,2) as show ?thesis using s(1) by (simp add: parse_faulting_def p) blast
  next
    case (Some x)
    from first_fault_SomeD [OF this] s(3) have "\<exists>a v. x = Rd a v \<and> F a" by (cases x) (auto simp: list_all_iff)
    with Some s(1) show ?thesis by (simp add: parse_faulting_def p)
  qed
qed

text \<open>The witness: on plain memory, the line binds what it read; where the address does not answer, it faults.\<close>

theorem parse_total_and_harmless_witness:
  "\<exists>y. parse_faulting (\<lambda>a. a = 0) (arm_platform example_layout (traced ram_bus) (\<lambda>_. 0)) REGISTRY_BITS (byte_str ''let x = 5;'')
      compiler_new (\<lambda>_. 3, []) = y \<and> (case y of Inl x \<Rightarrow> acc_addr x = 0 | Inr (res, c', h') \<Rightarrow> res \<noteq> Inl OutOfFuel)"
proof -
  let ?P = "arm_platform example_layout (traced ram_bus) (\<lambda>_. 0)"
  have "hw ?P = traced ram_bus" by (simp add: arm_platform_def)
  from parse_total_and_harmless [where F = "\<lambda>a. a = 0" and r = REGISTRY_BITS and input = "byte_str ''let x = 5;''"
      and h = "(\<lambda>_. 3, [])", OF wf_comp_new this]
  show ?thesis by (auto split: sum.splits)
qed

text \<open>Statements on addresses are gated. Whenever a line is accepted as a register access
  (peek, poke, set bit, clear bit), \<open>check_access\<close> grants its address under the current
  registry; and the parser never returns the \<open>Empty\<close> outcome.\<close>

lemma parse_gates_statements:
  assumes "wf_comp (layout P) (\<lambda>_. True) c" and "fst (parse P r input c h) = Inr out"
    and "out \<in> {EnforcedPeek a, EnforcedPoke a v, SetBit a v, ClrBit a v, Empty}"
  shows "out \<noteq> Empty \<and> check_access (target P) r a = Inr ()"
proof -
  obtain c' h' where "parse P r input c h = (Inr out, c', h')"
    using assms(2) by (cases "parse P r input c h") auto
  from parse_sound(4) [OF assms(1) _ this refl] have "outcome_ok (layout P) (\<lambda>_. True) (granted P r) out"
    by simp
  with assms(3) show ?thesis by (auto simp: granted_def)
qed

text \<open>A history of lines, each parsed under the registry of its time.\<close>

fun parse_lines :: "('e, 'h) platform \<Rightarrow> (registry \<times> u8 list) list \<Rightarrow> Compiler \<times> 'h \<Rightarrow> Compiler \<times> 'h" where
  "parse_lines P [] ch = ch"
| "parse_lines P ((r, input) # ls) (c, h) = parse_lines P ls (snd (parse P r input c h))"

lemma parse_lines_wf:
  assumes "wf_comp (layout P) A c" and "\<And>r a. r \<in> fst ` set ls \<Longrightarrow> granted P r a \<Longrightarrow> A a"
  shows "wf_comp (layout P) A (fst (parse_lines P ls (c, h)))"
  using assms
proof (induction ls arbitrary: c h)
  case Nil
  then show ?case by simp
next
  case (Cons l ls)
  obtain r input where l: "l = (r, input)" by (cases l)
  obtain res c' h' where p: "parse P r input c h = (res, c', h')" by (cases "parse P r input c h")
  have "wf_comp (layout P) A c'"
    using Cons.prems by (intro parse_sound(1) [OF _ _ p]) (auto simp: l)
  then have "wf_comp (layout P) A (fst (parse_lines P ls (c', h')))"
    by (rule Cons.IH) (use Cons.prems(2) in \<open>auto simp: l\<close>)
  then show ?case by (simp add: l p)
qed

text \<open>C15: what a session can run. After any sequence of lines from the initial state, under
  registries that change between the lines, a program that a further line returns is either
  the value of an expression or the body of a function, complete statements of at most 32 words,
  and every address that it reads or writes was granted by \<open>check_access\<close> under the registry
  of one of the lines so far (not necessarily the current one).\<close>

theorem session_programs_gated:
  assumes "fst (parse P r input (fst (parse_lines P ls (compiler_new, h))) h2) = Inr (Run p)"
  shows "(\<exists>v. p = value_program (layout P) v) \<or>
    (\<exists>ss. p = call_program (layout P) ss \<and> length (enc (layout P) (body_ops ss)) \<le> FN_BODY_WORDS \<and>
      (\<forall>x\<in>set ss. \<exists>r'\<in>set (map fst ls) \<union> {r}. check_access (target P) r' (stmt_addr x) = Inr ()))"
proof -
  let ?A = "\<lambda>a. \<exists>r'\<in>set (map fst ls) \<union> {r}. granted P r' a" and ?c = "fst (parse_lines P ls (compiler_new, h))"
  have wf: "wf_comp (layout P) ?A ?c" by (rule parse_lines_wf [OF wf_comp_new]) auto
  obtain c' h' where "parse P r input ?c h2 = (Inr (Run p), c', h')"
    using assms by (cases "parse P r input ?c h2") auto
  from parse_sound(4) [OF wf _ this refl] have "outcome_ok (layout P) ?A (granted P r) (Run p)" by auto
  then show ?thesis by (auto simp: runnable_def granted_def list_all_iff)
qed

theorem session_programs_gated_witness:
  "\<exists>p. fst (parse (arm_platform example_layout ram_bus (\<lambda>_. 0)) REGISTRY_BITS (render_all [Literal 5, Semicolon])
      (fst (parse_lines (arm_platform example_layout ram_bus (\<lambda>_. 0)) [] (compiler_new, \<lambda>_. 0))) (\<lambda>_. 3)) = Inr (Run p)
    \<and> ((\<exists>v. p = value_program example_layout v) \<or> (\<exists>ss. p = call_program example_layout ss))"
proof -
  let ?P = "arm_platform example_layout ram_bus (\<lambda>_. 0)"
  have "fst (parse ?P REGISTRY_BITS (render_all (etoks (Ex (TLit 5) Done) @ [Semicolon]))
      (fst (parse_lines ?P [] (compiler_new, \<lambda>_. 0))) (\<lambda>_. 3)) = Inr (Run (value_program example_layout 5))"
    using bare_line [of "Ex (TLit 5) Done" ?P compiler_new "\<lambda>_. 3" 5 "\<lambda>_. 3" REGISTRY_BITS]
    by (auto simp: ok_with_def try_bind_def compiler_new_def arm_platform_def)
  from session_programs_gated [OF this] this show ?thesis by (auto simp: arm_platform_def)
qed

section \<open>Lines end to end\<close>

lemma insert_free:
  assumes "wf_symbols s" and "\<exists>j<SYMBOL_SLOTS. \<not> sym_used (s ! j)" and "length i \<le> NAME_MAX"
  shows "\<exists>t. insert_symbol s (name_of i) v = (Inr (), t) \<and> lookup_symbol t i = Some v
    \<and> lookup_symbol t = (lookup_symbol s)(i \<mapsto> v)"
proof -
  have n: "wf_name (name_of i)" "as_slice (name_of i) = i" using name_of_facts [OF assms(3)] by simp_all
  have "fst (insert_symbol s (name_of i) v) = Inr ()"
    using syms.insert_fails [OF assms(1) n(1), of v] assms(2) by blast
  then show ?thesis
    using syms.look_insert [OF assms(1) n(1), of v] n(2)
    by (cases "insert_symbol s (name_of i) v") (auto simp: fun_eq_iff)
qed

text \<open>An expression line is its value. For the printed tokens of any expression that
  starts with a number or a parenthesis and whose evaluation (left to right, no precedence,
  wrapping 32-bit arithmetic, division by zero refused) gives \<open>v\<close>, the line parses to a program,
  and running that program natively on ARM returns \<open>v\<close>, whatever the executable buffer held.\<close>

lemma expression_line_value:
  assumes "wf_comp (layout P) A c" and "valid_layout lay" and "P = arm_platform lay B r0"
    and "ewf e" and "list_all printable (etoks e)" and "(\<exists>w. hd (etoks e) = Literal w) \<or> hd (etoks e) = LParen"
    and "eeval B (lookup_symbol (symbols c)) e h = (Inr v, h')" and "2048 \<le> length (em_buf b)"
  shows "\<exists>p c' b'. parse P r (render_all (etoks e @ [Semicolon])) c h = (Inr (Run p), c', h')
    \<and> program_run P p s b h' = Some (Inr (Some v), vm_reset s, b', h')"
proof -
  have P: "hw P = B" "layout P = lay" by (simp_all add: assms(3) arm_platform_def)
  have "length (out_stream c) = MAX_STREAM_WORDS" using assms(1) by (simp add: wf_comp_def)
  then obtain c' where "parse P r (render_all (etoks e @ [Semicolon])) c h = (Inr (Run (value_program lay v)), c', h')"
    using bare_line [OF assms(5,4,6), of P c h v h' r] assms(7) by (auto simp: P)
  moreover obtain b' where "program_run P (value_program lay v) s b h' = Some (Inr (Some v), vm_reset s, b', h')"
    using arm_program_run [OF assms(2), of "[Push v]" b B r0 "replicate 125 0" True s h'] assms(8)
    by (auto simp: assms(3) value_program_def)
  ultimately show ?thesis by blast
qed

text \<open>C24: \<open>let\<close> binds. \<open>let i = e;\<close> evaluates the expression in the current bindings and, unless
  the table is full, afterwards the name \<open>i\<close> and only it means the value; the registry plays no
  part in it.\<close>

theorem let_line_binds:
  assumes "wf_comp (layout P) A c" and "printable (Identifier i)" and "length i \<le> NAME_MAX"
    and "ewf e" and "list_all printable (etoks e)"
    and "eeval (hw P) (lookup_symbol (symbols c)) e h = (Inr v, h')" and "\<exists>j<SYMBOL_SLOTS. \<not> sym_used (symbols c ! j)"
  shows "\<exists>c'. parse P r (render_all (KwLet # Identifier i # Operator 0x3D # etoks e @ [Semicolon])) c h
      = (Inr (Bound (name_of i) v), c', h') \<and> lookup_symbol (symbols c') = (lookup_symbol (symbols c))(i \<mapsto> v)"
proof -
  have wf: "wf_symbols (symbols c)" using assms(1) by (simp add: wf_comp_def)
  obtain t where t: "insert_symbol (symbols c) (name_of i) v = (Inr (), t)"
      and "lookup_symbol t = (lookup_symbol (symbols c))(i \<mapsto> v)"
    using insert_free [OF wf assms(7,3), of v] by auto
  moreover have "parse P r (render_all (KwLet # Identifier i # Operator 0x3D # etoks e @ [Semicolon])) c h
      = (Inr (Bound (name_of i) v), c\<lparr>symbols := t\<rparr>, h')"
    using assms(2,5) by (intro let_line [OF _ assms(4,3,6) t]) simp
  ultimately show ?thesis by (intro exI [of _ "c\<lparr>symbols := t\<rparr>"]) simp
qed

theorem let_line_binds_witness:
  "\<exists>c'. parse (arm_platform example_layout ram_bus (\<lambda>_. 7)) REGISTRY_BITS
      (render_all [KwLet, Identifier [0x62], Operator 0x3D, Literal 9, Operator 0x2D, Literal 10, Semicolon]) compiler_new (\<lambda>_. 0)
      = (Inr (Bound (name_of [0x62]) (- 1)), c', \<lambda>_. 0) \<and> lookup_symbol (symbols c') [0x62] = Some (- 1)"
  using let_line_binds [OF wf_comp_new _ _ _ _ _ new_slots(1), of "[0x62]" "Ex (TLit 9) (Op 0x2D (TLit 10) Done)"
      "arm_platform example_layout ram_bus (\<lambda>_. 7)" "\<lambda>_. 0" "- 1" "\<lambda>_. 0" REGISTRY_BITS]
  by (auto simp: is_arith_def is_operator_def byte_str_def try_bind_def ok_with_def apply_op_def NAME_MAX_def
      is_alpha_def is_ident_char_def)

text \<open>C21: a \<open>peek\<close> inside an expression is not gated. The command \<open>peek a;\<close> is refused at an
  address that the registry does not grant, yet \<open>let x = peek a;\<close> reads the same address under
  the same registry and binds what it read.\<close>

theorem peek_term_not_gated:
  assumes "wf_comp (layout P) A c" and "check_access (target P) r a = Inl cap"
    and "\<exists>j<SYMBOL_SLOTS. \<not> sym_used (symbols c ! j)"
  shows "fst (parse P r (render_all [Identifier (byte_str ''peek''), Literal a, Semicolon]) c h) = Inl (PE CapabilityViolation)
    \<and> (\<exists>c'. parse P r (render_all [KwLet, Identifier [0x78], Operator 0x3D, Identifier (byte_str ''peek''), Literal a, Semicolon]) c h
        = (Inr (Bound (name_of [0x78]) (fst (rd (hw P) a h))), c', snd (rd (hw P) a h))
      \<and> lookup_symbol (symbols c') [0x78] = Some (fst (rd (hw P) a h)))"
proof -
  let ?e = "Ex (TPeek (TLit a)) Done" and ?B = "hw P"
  have ng: "\<not> granted P r a" using assms(2) by (simp add: granted_def)
  have "fst (parse P r (render_all (Identifier (byte_str ''peek'') # ttoks (TLit a) @ [Semicolon])) c h)
      = Inl (PE CapabilityViolation)"
    using peek_line [of "TLit a" P c h a h r] ng by (simp add: ok_with_def)
  moreover have pr: "printable (Identifier (byte_str ''peek''))" "printable (Identifier [0x78])"
    by (simp_all add: byte_str_def is_alpha_def is_ident_char_def)
  moreover obtain t where t: "insert_symbol (symbols c) (name_of [0x78]) (fst (rd ?B a h)) = (Inr (), t)"
      and "lookup_symbol t [0x78] = Some (fst (rd ?B a h))"
    using insert_free [OF _ assms(3), of "[0x78]" "fst (rd ?B a h)"] assms(1)
    by (auto simp: wf_comp_def NAME_MAX_def)
  moreover have "eeval ?B (lookup_symbol (symbols c)) ?e h = (Inr (fst (rd ?B a h)), snd (rd ?B a h))"
    by (simp add: try_bind_def ok_with_def)
  ultimately show ?thesis
    using let_line [of "[0x78]" ?e P c h "fst (rd ?B a h)" "snd (rd ?B a h)" t r] by (simp add: NAME_MAX_def)
qed

theorem peek_term_not_gated_witness:
  "\<exists>c' h'. fst (parse (arm_platform example_layout ram_bus (\<lambda>_. 7)) REGISTRY_BITS
        (render_all [Identifier (byte_str ''peek''), Literal 0x40020014, Semicolon]) compiler_new (\<lambda>_. 5)) = Inl (PE CapabilityViolation)
    \<and> parse (arm_platform example_layout ram_bus (\<lambda>_. 7)) REGISTRY_BITS
        (render_all [KwLet, Identifier [0x78], Operator 0x3D, Identifier (byte_str ''peek''), Literal 0x40020014, Semicolon]) compiler_new (\<lambda>_. 5)
      = (Inr (Bound (name_of [0x78]) 5), c', h')
    \<and> lookup_symbol (symbols c') [0x78] = Some 5"
proof -
  let ?P = "arm_platform example_layout ram_bus (\<lambda>_. 7)"
  have chk: "check_access (target ?P) REGISTRY_BITS 0x40020014 = Inl GpioA"
    using addr_windows_arm_gpioa by (simp add: arm_platform_def)
  have rd: "rd (hw ?P) a h = (h a, h)" for a h by (simp add: arm_platform_def ram_bus_def)
  show ?thesis
    using peek_term_not_gated [OF wf_comp_new chk new_slots(1), of "\<lambda>_. 5"] unfolding rd fst_conv by blast
qed

text \<open>Where such an address does not answer, the line does not come back: the read faults while the
  line is parsed.\<close>

lemma peek_term_faults:
  assumes "wf_comp (layout P) A c" and "hw P = traced B" and "F a" and "\<exists>j<SYMBOL_SLOTS. \<not> sym_used (symbols c ! j)"
  shows "\<exists>v. parse_faulting F P r (render_all [KwLet, Identifier [0x78], Operator 0x3D, Identifier (byte_str ''peek''), Literal a, Semicolon]) c h
    = Inl (Rd a v)"
proof -
  let ?e = "Ex (TPeek (TLit a)) Done" and ?B = "hw P" and ?v = "fst (rd (hw P) a h)"
  have pr: "printable (Identifier (byte_str ''peek''))" "printable (Identifier [0x78])"
    by (simp_all add: byte_str_def is_alpha_def is_ident_char_def)
  obtain t where t: "insert_symbol (symbols c) (name_of [0x78]) ?v = (Inr (), t)"
    using insert_free [OF _ assms(4), of "[0x78]" ?v] assms(1) by (auto simp: wf_comp_def NAME_MAX_def)
  have "eeval ?B (lookup_symbol (symbols c)) ?e h = (Inr ?v, snd (rd ?B a h))"
    by (simp add: try_bind_def ok_with_def)
  with let_line [of "[0x78]" ?e P c h ?v "snd (rd ?B a h)" t r] pr t
  have "snd (snd (parse P r (render_all [KwLet, Identifier [0x78], Operator 0x3D, Identifier (byte_str ''peek''), Literal a, Semicolon]) c h))
      = snd (rd ?B a h)" by (simp add: NAME_MAX_def)
  moreover have "snd (snd (rd ?B a h)) = snd h @ [Rd a (fst (rd B a (fst h)))]"
    by (cases h) (simp add: assms(2) traced_simps)
  ultimately show ?thesis using assms(3) by (simp add: parse_faulting_def split_beta Let_def)
qed

lemma find_fn_defined:
  assumes "length (fn_names c) = MAX_FNS" and "find_fn c i = None" and "0 < length i" and "length i \<le> NAME_MAX"
    and "find (\<lambda>j. nb_len (fn_names c ! j) = 0) [0..<MAX_FNS] = Some index"
  shows "find_fn (define_fn c index (name_of i) ws) i = Some index \<and> index < MAX_FNS"
proof -
  have "index < MAX_FNS" using assms(5) by (auto simp: find_Some_iff)
  moreover have "0 < nb_len (name_of i)"
    using assms(3,4) by (simp add: name_of_def word_less_nat_alt unat_small_u8 NAME_MAX_def)
  moreover have "eq_bytes (name_of i) i" using name_of_facts [OF assms(4)] by (simp add: eq_bytes_def)
  ultimately show ?thesis
    using assms(1,2,5)
    by (auto simp: find_fn_def fn_allocated_def define_fn_def Let_def MAX_FNS_def numeral_2_eq_2 less_Suc_eq
        split: if_splits)
qed

text \<open>A function \<open>i\<close> whose stored words are those of the statements \<open>ys\<close>.\<close>

definition fn_stored :: "(prim \<Rightarrow> usize) \<Rightarrow> Compiler \<Rightarrow> u8 list \<Rightarrow> bstmt list \<Rightarrow> bool" where
  "fn_stored lay c i ys \<longleftrightarrow> length (out_stream c) = MAX_STREAM_WORDS \<and> length (swords lay ys) \<le> FN_BODY_WORDS
     \<and> (\<exists>index. find_fn c i = Some index \<and> fn_body_lens c ! index = length (swords lay ys)
          \<and> take (fn_body_lens c ! index) (fn_bodies c ! index) = swords lay ys)"

lemma fn_stores:
  assumes "wf_comp (layout P) A c" and "printable (Identifier i)" and "length i \<le> NAME_MAX"
    and "list_all swf xs" and "list_all printable (concat (map stoks xs))"
    and "bseval (hw P) (lookup_symbol (symbols c)) (granted P r) xs h = (Inr ys, h')"
    and "length (swords (layout P) ys) \<le> FN_BODY_WORDS" and "find_fn c i = None" and "\<exists>j<MAX_FNS. \<not> fn_allocated c j"
  shows "\<exists>c1. parse P r (render_all (KwFn # Identifier i # LParen # RParen # LBrace # concat (map stoks xs) @ [RBrace])) c h
      = (Inr (FnDefined (name_of i)), c1, h') \<and> fn_stored (layout P) c1 i ys"
proof -
  let ?ws = "swords (layout P) ys"
  have wf: "length (out_stream c) = MAX_STREAM_WORDS" "length (fn_names c) = MAX_FNS"
    "length (fn_body_lens c) = MAX_FNS" "length (fn_bodies c) = MAX_FNS" "\<forall>x\<in>set (fn_bodies c). length x = FN_BODY_WORDS"
    using assms(1) by (simp_all add: wf_comp_def list_all_iff)
  obtain index where index: "find (\<lambda>j. nb_len (fn_names c ! j) = 0) [0..<MAX_FNS] = Some index"
    using assms(9) by (cases "find (\<lambda>j. nb_len (fn_names c ! j) = 0) [0..<MAX_FNS]")
      (auto simp: find_None_iff fn_allocated_def word_gt_0)
  let ?c1 = "define_fn c index (name_of i) ?ws"
  have ne: "0 < length i" using assms(2) by simp
  note fnd = find_fn_defined [OF wf(2) assms(8) ne assms(3) index, of ?ws]
  have lens: "fn_body_lens ?c1 ! index = length ?ws" "length (out_stream ?c1) = MAX_STREAM_WORDS"
    using fnd wf by (simp_all add: define_fn_def Let_def)
  have "fn_bodies c ! index \<in> set (fn_bodies c)" using fnd wf(4) by (intro nth_mem) simp
  then have body: "take (fn_body_lens ?c1 ! index) (fn_bodies ?c1 ! index) = ?ws"
    using fnd wf(3,4,5) assms(7) by (simp add: define_fn_def Let_def copy_prefix_def)
  have "parse P r (render_all (KwFn # Identifier i # LParen # RParen # LBrace # concat (map stoks xs) @ [RBrace])) c h
      = (Inr (FnDefined (name_of i)), ?c1, h')"
    by (rule fn_line [OF assms(2,3,4,5,6,7) wf(1) assms(8) index])
  with lens body fnd assms(7) show ?thesis by (auto simp: fn_stored_def)
qed

lemma stored_call:
  assumes "printable (Identifier i)" and "i \<notin> reserved" and "fn_stored (layout P) c i ys"
  shows "\<exists>c2. parse P r (render_all [Identifier i, LParen, RParen, Semicolon]) c h
    = (Inr (Run (call_program (layout P) ys)), c2, h) \<and> fn_stored (layout P) c2 i ys"
proof -
  obtain index where f: "find_fn c i = Some index" "take (fn_body_lens c ! index) (fn_bodies c ! index) = swords (layout P) ys"
      "fn_body_lens c ! index = length (swords (layout P) ys)" "length (swords (layout P) ys) \<le> FN_BODY_WORDS"
      "length (out_stream c) = MAX_STREAM_WORDS"
    using assms(3) by (auto simp: fn_stored_def)
  have "fn_stored (layout P) (push_all ws (c\<lparr>stream_len := 0\<rparr>)) i ys" for ws
    using assms(3) by (simp add: fn_stored_def find_fn_def fn_allocated_def cong: if_cong)
  with call_line [OF assms(1,2) f, of r h] show ?thesis by blast
qed

text \<open>C16: functions. A function whose body evaluates to register statements \<open>ys\<close> of at most 32
  words is stored when its name is new and a slot is free; from then on calling it, under any
  registry (the capabilities may have been dropped since) returns the program of exactly those
  statements, with the operands evaluated at the time of the definition.\<close>

theorem fn_defined_then_called:
  assumes "wf_comp (layout P) A c" and "printable (Identifier i)" and "i \<notin> reserved" and "length i \<le> NAME_MAX"
    and "list_all swf xs" and "list_all printable (concat (map stoks xs))"
    and "bseval (hw P) (lookup_symbol (symbols c)) (granted P r) xs h = (Inr ys, h')"
    and "length (swords (layout P) ys) \<le> FN_BODY_WORDS" and "find_fn c i = None" and "\<exists>j<MAX_FNS. \<not> fn_allocated c j"
  shows "\<exists>c1. parse P r (render_all (KwFn # Identifier i # LParen # RParen # LBrace # concat (map stoks xs) @ [RBrace])) c h
      = (Inr (FnDefined (name_of i)), c1, h')
    \<and> (\<forall>r2 h2. \<exists>c2. parse P r2 (render_all [Identifier i, LParen, RParen, Semicolon]) c1 h2
        = (Inr (Run (call_program (layout P) ys)), c2, h2))"
proof -
  obtain c1 where "parse P r (render_all (KwFn # Identifier i # LParen # RParen # LBrace # concat (map stoks xs) @ [RBrace])) c h
      = (Inr (FnDefined (name_of i)), c1, h')" and c1: "fn_stored (layout P) c1 i ys"
    using fn_stores [OF assms(1,2,4-10)] by blast
  moreover have "\<exists>c2. parse P r2 (render_all [Identifier i, LParen, RParen, Semicolon]) c1 h2
        = (Inr (Run (call_program (layout P) ys)), c2, h2)" for r2 h2
    using stored_call [OF assms(2,3) c1, of r2 h2] by blast
  ultimately show ?thesis by blast
qed

theorem fn_defined_then_called_witness:
  "\<exists>c1 c2. parse (arm_platform example_layout ram_bus (\<lambda>_. 7)) REGISTRY_BITS
        (render_all (KwFn # Identifier [0x66] # LParen # RParen # LBrace
          # stoks (PokeS (TLit 0x20000000) (Ex (TLit 5) Done)) @ [RBrace])) compiler_new (\<lambda>_. 0)
      = (Inr (FnDefined (name_of [0x66])), c1, \<lambda>_. 0)
    \<and> parse (arm_platform example_layout ram_bus (\<lambda>_. 7)) REGISTRY_BITS (render_all [Identifier [0x66], LParen, RParen, Semicolon]) c1 (\<lambda>_. 1)
      = (Inr (Run (call_program example_layout [SPoke 0x20000000 5])), c2, \<lambda>_. 1)"
proof -
  let ?P = "arm_platform example_layout ram_bus (\<lambda>_. 7)" and ?x = "PokeS (TLit 0x20000000) (Ex (TLit 5) Done)"
  have ev: "bseval (hw ?P) (lookup_symbol (symbols compiler_new)) (granted ?P REGISTRY_BITS) [?x] (\<lambda>_. 0)
      = (Inr [SPoke 0x20000000 5], \<lambda>_. 0)"
    using ram_granted by (simp add: try_bind_def ok_with_def gate_def granted_def arm_platform_def)
  have len: "length (swords (layout ?P) [SPoke 0x20000000 5]) \<le> FN_BODY_WORDS"
    by (simp add: poke_ops_def FN_BODY_WORDS_def)
  have new: "find_fn compiler_new [0x66] = None"
    by (auto simp: find_fn_def fn_allocated_def compiler_new_def MAX_FNS_def find_None_iff)
  have pr: "printable (Identifier [0x66])" "[0x66] \<notin> reserved" "length [0x66 :: u8] \<le> NAME_MAX"
    "list_all swf [?x]" "list_all printable (concat (map stoks [?x]))"
    by (simp_all add: is_alpha_def is_ident_char_def byte_str_def reserved_def NAME_MAX_def)
  show ?thesis
    using fn_defined_then_called [OF wf_comp_new pr ev len new new_slots(2)] by (fastforce simp: arm_platform_def)
qed

end
