(* ===== verification/Uart.thy ===== *)
theory Uart
  imports Bus Lexer
begin

text \<open>
  The console driver (src/drivers/uart.rs): the transmit and receive registers of both
  targets, the number printers, and the receive ring with its interrupt handler. The device
  behind the registers is not part of the source; \<open>console\<close> and \<open>keyboard\<close> say what the code
  relies on, register by register, and \<open>sim_bus\<close> is a device that does.
\<close>

section \<open>Registers\<close>

definition mmio_SR :: u32 where "mmio_SR = 0x40011000"
definition mmio_DR :: u32 where "mmio_DR = 0x40011004"
definition mmio_CR1 :: u32 where "mmio_CR1 = 0x4001100C"
definition SR_TXE :: u32 where "SR_TXE = push_bit 7 1"
definition SR_RXNE :: u32 where "SR_RXNE = push_bit 5 1"
definition CR1_UE :: u32 where "CR1_UE = push_bit 13 1"
definition CR1_TE :: u32 where "CR1_TE = push_bit 3 1"
definition CR1_RE :: u32 where "CR1_RE = push_bit 2 1"
definition mmio_TXDATA :: u32 where "mmio_TXDATA = 0x10013000"
definition mmio_RXDATA :: u32 where "mmio_RXDATA = 0x10013004"
definition RX_EMPTY :: u32 where "RX_EMPTY = push_bit 31 1"

fun uart_init :: "arch \<Rightarrow> 'h bus \<Rightarrow> 'h \<Rightarrow> 'h" where
  "uart_init Arm B h =
     (let (cr1, h') = peek_u32 B mmio_CR1 h
      in poke_u32 B mmio_CR1 (cr1 OR CR1_UE OR CR1_TE OR CR1_RE) h')"
| "uart_init Riscv32 B h = h"

section \<open>Byte input and output\<close>

text \<open>The busy wait of the ARM transmitter may not end: \<open>None\<close>.\<close>

partial_function (option) wait_tx :: "'h bus \<Rightarrow> 'h \<Rightarrow> 'h option" where
  "wait_tx B h =
     (if fst (peek_u32 B mmio_SR h) AND SR_TXE = 0 then wait_tx B (snd (peek_u32 B mmio_SR h))
      else Some (snd (peek_u32 B mmio_SR h)))"

fun put_byte :: "arch \<Rightarrow> 'h bus \<Rightarrow> u8 \<Rightarrow> 'h \<Rightarrow> 'h option" where
  "put_byte Arm B byte h = map_option (\<lambda>h'. poke_u32 B mmio_DR (ucast byte) h') (wait_tx B h)"
| "put_byte Riscv32 B byte h = Some (poke_u32 B mmio_TXDATA (ucast byte) h)"

fun poll_get_byte :: "arch \<Rightarrow> 'h bus \<Rightarrow> 'h \<Rightarrow> u8 option \<times> 'h" where
  "poll_get_byte Arm B h =
     (let (sr, h1) = peek_u32 B mmio_SR h in
      if sr AND SR_RXNE \<noteq> 0 then (let (d, h2) = peek_u32 B mmio_DR h1 in (Some (ucast (d AND 0xFF)), h2))
      else (None, h1))"
| "poll_get_byte Riscv32 B h =
     (let (word, h1) = peek_u32 B mmio_RXDATA h in
      if word AND RX_EMPTY = 0 then (Some (ucast (word AND 0xFF)), h1) else (None, h1))"

section \<open>Formatted output\<close>

fun write_str :: "arch \<Rightarrow> 'h bus \<Rightarrow> u8 list \<Rightarrow> 'h \<Rightarrow> 'h option" where
  "write_str a B [] h = Some h"
| "write_str a B (b # s) h = Option.bind (put_byte a B b h) (\<lambda>h'. write_str a B s h')"

definition HEX :: "u8 list" where "HEX = byte_str ''0123456789ABCDEF''"

fun write_nibbles :: "arch \<Rightarrow> 'h bus \<Rightarrow> u32 \<Rightarrow> nat list \<Rightarrow> 'h \<Rightarrow> 'h option" where
  "write_nibbles a B value [] h = Some h"
| "write_nibbles a B value (shift # shifts) h =
     Option.bind (put_byte a B (HEX ! unat (drop_bit shift value AND 0xF)) h)
       (\<lambda>h'. write_nibbles a B value shifts h')"

definition write_hex_u32 :: "arch \<Rightarrow> 'h bus \<Rightarrow> u32 \<Rightarrow> 'h \<Rightarrow> 'h option" where
  "write_hex_u32 a B value h =
     Option.bind (write_str a B (byte_str ''0x'') h)
       (\<lambda>h'. write_nibbles a B value (rev (map (\<lambda>k. 4 * k) [0..<8])) h')"

text \<open>The digit loop; \<open>None\<close> is the index panic of a full scratch buffer.\<close>

function dec_fill :: "u8 list \<Rightarrow> nat \<Rightarrow> u32 \<Rightarrow> (u8 list \<times> nat) option" where
  "dec_fill scratch len value =
     (if length scratch \<le> len then None
      else let scratch' = scratch[len := 0x30 + ucast (value mod 10)]; value' = value div 10 in
        if value' = 0 then Some (scratch', len + 1) else dec_fill scratch' (len + 1) value')"
  by pat_completeness auto
termination by (relation "measure (\<lambda>(s, len, v). length s - len)") auto

declare dec_fill.simps [simp del]

fun dec_emit :: "arch \<Rightarrow> 'h bus \<Rightarrow> u8 list \<Rightarrow> nat \<Rightarrow> 'h \<Rightarrow> 'h option" where
  "dec_emit a B scratch 0 h = Some h"
| "dec_emit a B scratch (Suc len) h =
     Option.bind (put_byte a B (scratch ! len) h) (\<lambda>h'. dec_emit a B scratch len h')"

definition write_dec_u32 :: "arch \<Rightarrow> 'h bus \<Rightarrow> u32 \<Rightarrow> 'h \<Rightarrow> 'h option" where
  "write_dec_u32 a B value h =
     Option.bind (dec_fill (replicate 10 0) 0 value) (\<lambda>(scratch, len). dec_emit a B scratch len h)"

definition write_line :: "arch \<Rightarrow> 'h bus \<Rightarrow> u8 list \<Rightarrow> 'h \<Rightarrow> 'h option" where
  "write_line a B s h = Option.bind (write_str a B s h) (\<lambda>h'. write_str a B crlf h')"

section \<open>The receive ring\<close>

definition RING_SIZE :: nat where "RING_SIZE = 256"

record RxRing =
  rx_buf :: "u8 list"
  rx_head :: nat
  rx_tail :: nat

definition RX_RING :: RxRing where
  "RX_RING = \<lparr>rx_buf = replicate RING_SIZE 0, rx_head = 0, rx_tail = 0\<rparr>"

definition ring_push :: "u8 \<Rightarrow> RxRing \<Rightarrow> RxRing" where
  "ring_push byte ring =
     (let next = (rx_head ring + 1) mod RING_SIZE in
      if next \<noteq> rx_tail ring then ring\<lparr>rx_buf := (rx_buf ring)[rx_head ring := byte], rx_head := next\<rparr>
      else ring)"

definition irq_handler :: "arch \<Rightarrow> 'h bus \<Rightarrow> RxRing \<Rightarrow> 'h \<Rightarrow> RxRing \<times> 'h" where
  "irq_handler a B ring h =
     (case poll_get_byte a B h of
       (Some byte, h') \<Rightarrow> (ring_push byte ring, h')
     | (None, h') \<Rightarrow> (ring, h'))"

definition ring_pop :: "RxRing \<Rightarrow> u8 option \<times> RxRing" where
  "ring_pop ring =
     (if rx_tail ring = rx_head ring then (None, ring)
      else (Some (rx_buf ring ! rx_tail ring), ring\<lparr>rx_tail := (rx_tail ring + 1) mod RING_SIZE\<rparr>))"

section \<open>What the printers print\<close>

text \<open>Every printer is the transmission of a string that depends only on its argument.\<close>

lemma write_str_append: "write_str a B (xs @ ys) h = Option.bind (write_str a B xs h) (write_str a B ys)"
  by (induction xs arbitrary: h) (simp_all split: Option.bind_split)

lemma write_nibbles_str:
  "write_nibbles a B v ss h = write_str a B (map (\<lambda>s. HEX ! unat (drop_bit s v AND 0xF)) ss) h"
  by (induction ss arbitrary: h) (simp_all split: Option.bind_split)

lemma HEX_nth: "d < 16 \<Longrightarrow> HEX ! d = hex_char d"
  using less_16_cases [of d] less_10_cases [of d]
  by (auto simp: HEX_def byte_str_def hex_char_def eval_nat_numeral)

lemma nibble_unat: "unat (drop_bit (4 * i) (v :: u32) AND 0xF) = unat v div 16 ^ i mod 16"
proof -
  have "drop_bit (4 * i) v AND 0xF = take_bit 4 (drop_bit (4 * i) v)"
    using take_bit_eq_mask [of 4 "drop_bit (4 * i) v"] by (simp add: mask_eq_exp_minus_1)
  also have "unat \<dots> = take_bit 4 (unat (drop_bit (4 * i) v))" by (simp only: unsigned_take_bit_eq)
  also have "unat (drop_bit (4 * i) v) = drop_bit (4 * i) (unat v)" by (rule unat_drop_bit_eq)
  also have "take_bit 4 (drop_bit (4 * i) (unat v)) = unat v div 2 ^ (4 * i) mod 2 ^ 4"
    by (simp only: take_bit_eq_mod drop_bit_eq_div)
  finally show ?thesis by (simp add: power_mult)
qed

lemma write_hex_str: "write_hex_u32 a B v h = write_str a B (byte_str ''0x'' @ hex_digits v) h"
proof -
  have "map (\<lambda>s. HEX ! unat (drop_bit s v AND 0xF)) (rev (map (\<lambda>k. 4 * k) [0..<8])) = hex_digits v"
  proof -
    have "rev (map (\<lambda>k. 4 * k) [0..<8]) = map (\<lambda>i. 4 * i) [7, 6, 5, 4, 3, 2, 1, 0 :: nat]" by (simp add: upt_rec)
    then show ?thesis
      by (simp only: hex_digits_def list.map_comp o_def nibble_unat HEX_nth mod_less_divisor zero_less_numeral)
  qed
  then show ?thesis
    unfolding write_hex_u32_def write_nibbles_str write_str_append by simp
qed

text \<open>The digit loop fills the buffer with the digits, the last one first.\<close>

lemma dec_digit_word:
  fixes v :: u32
  shows "0x30 + ucast (v mod 10) = (0x30 + of_nat (unat v mod 10) :: u8)"
proof -
  have "ucast (v mod 10) = (of_nat (unat (v mod 10)) :: u8)" by simp
  also have "unat (v mod 10) = unat v mod 10" by (simp add: unat_mod)
  finally show ?thesis by simp
qed

lemma dec_fill_digits:
  assumes "len + length (dec_digits (unat v)) \<le> length scratch"
  shows "\<exists>scratch'. dec_fill scratch len v = Some (scratch', len + length (dec_digits (unat v)))
    \<and> take (len + length (dec_digits (unat v))) scratch' = take len scratch @ rev (dec_digits (unat v))"
  using assms
proof (induction scratch len v rule: dec_fill.induct)
  case (1 scratch len v)
  let ?s = "scratch[len := 0x30 + ucast (v mod 10)]"
  have room: "len < length scratch"
    using "1.prems" dec_digits_nonempty [of "unat v"] by (cases "dec_digits (unat v)") auto
  have tk: "take (Suc len) ?s = take len scratch @ [0x30 + ucast (v mod 10)]"
    by (rule take_update_snoc [OF room])
  have small: "v div 10 = 0 \<longleftrightarrow> unat v < 10"
    by (simp add: unat_eq_zero [symmetric] unat_div div_eq_0_iff)
  show ?case
  proof (cases "unat v < 10")
    case True
    then have "dec_digits (unat v) = [0x30 + of_nat (unat v)]" by (subst dec_digits.simps) simp
    with True room tk small show ?thesis
      by (subst dec_fill.simps) (simp add: Let_def dec_digit_word)
  next
    case False
    have d: "dec_digits (unat v) = dec_digits (unat (v div 10)) @ [0x30 + of_nat (unat v mod 10)]"
      using False by (subst dec_digits.simps) (simp add: unat_div)
    obtain s' where "dec_fill ?s (len + 1) (v div 10) = Some (s', len + 1 + length (dec_digits (unat (v div 10))))"
        "take (len + 1 + length (dec_digits (unat (v div 10)))) s' = take (len + 1) ?s @ rev (dec_digits (unat (v div 10)))"
      using "1.IH" [OF _ refl refl] False "1.prems" room small by (auto simp: d)
    then show ?thesis
      using False room small tk by (subst dec_fill.simps) (simp add: Let_def d dec_digit_word)
  qed
qed

lemma dec_emit_str: "dec_emit a B scratch len h = write_str a B (rev (map ((!) scratch) [0..<len])) h"
  by (induction len arbitrary: h) (simp_all split: Option.bind_split)

lemma dec_digits_length: "n < 10 ^ k \<Longrightarrow> 0 < k \<Longrightarrow> length (dec_digits n) \<le> k"
proof (induction n arbitrary: k rule: dec_digits.induct)
  case (1 n)
  show ?case
  proof (cases "n < 10")
    case True
    with "1.prems" show ?thesis by (subst dec_digits.simps) simp
  next
    case False
    then obtain j where j: "k = Suc j" "0 < j" using "1.prems" by (cases k; cases "k - 1") auto
    have "n div 10 < 10 ^ j" using "1.prems" j by (simp add: div_less_iff_less_mult mult.commute)
    with 1 False j show ?thesis by (subst dec_digits.simps) simp
  qed
qed

lemma write_dec_str: "write_dec_u32 a B v h = write_str a B (dec_digits (unat v)) h"
proof -
  let ?n = "length (dec_digits (unat v))"
  have "unat v < 10 ^ 10" using order_less_trans [OF unat_u32_less [of v], of "10 ^ 10"] by simp
  then have "?n \<le> 10" by (rule dec_digits_length) simp
  then obtain s where s: "dec_fill (replicate 10 0) 0 v = Some (s, ?n)" "take ?n s = rev (dec_digits (unat v))"
    using dec_fill_digits [of 0 v "replicate 10 0"] by auto
  have "?n \<le> length s" using arg_cong [OF s(2), of length] by simp
  then have "map ((!) s) [0..<?n] = take ?n s" by (intro nth_equalityI) simp_all
  then show ?thesis by (simp add: write_dec_u32_def s dec_emit_str)
qed

section \<open>The device\<close>

fun tx_reg :: "arch \<Rightarrow> u32" where "tx_reg Arm = mmio_DR" | "tx_reg Riscv32 = mmio_TXDATA"

fun rx_reg :: "arch \<Rightarrow> u32" where "rx_reg Arm = mmio_DR" | "rx_reg Riscv32 = mmio_RXDATA"

text \<open>
  The transmitter, as the reference manuals describe it: \<open>out\<close> is what was sent so far; a
  write to the data register sends its low byte, nothing else sends, and on ARM the status
  register shows the free transmitter again after finitely many reads.
\<close>

definition console :: "arch \<Rightarrow> 'h bus \<Rightarrow> ('h \<Rightarrow> u8 list) \<Rightarrow> bool" where
  "console a B out \<longleftrightarrow>
     (a = Arm \<longrightarrow> (\<forall>h. \<exists>n. bit (fst (rd B mmio_SR (((\<lambda>h. snd (rd B mmio_SR h)) ^^ n) h))) 7))
     \<and> (\<forall>x h. out (snd (rd B x h)) = out h)
     \<and> (\<forall>x v h. out (wr B x v h) = (if x = tx_reg a then out h @ [ucast v] else out h))"

text \<open>The receiver: \<open>inp\<close> are the bytes that have arrived and were not read.\<close>

definition keyboard :: "arch \<Rightarrow> 'h bus \<Rightarrow> ('h \<Rightarrow> u8 list) \<Rightarrow> bool" where
  "keyboard a B inp \<longleftrightarrow>
     (\<forall>x h. inp (snd (rd B x h)) = (if x = rx_reg a then tl (inp h) else inp h))
     \<and> (\<forall>x v h. inp (wr B x v h) = inp h)
     \<and> (\<forall>h. inp h \<noteq> [] \<longrightarrow> ucast (fst (rd B (rx_reg a) h)) = hd (inp h))
     \<and> (\<forall>h. case a of
          Arm \<Rightarrow> bit (fst (rd B mmio_SR h)) 5 \<longleftrightarrow> inp h \<noteq> []
        | Riscv32 \<Rightarrow> bit (fst (rd B mmio_RXDATA h)) 31 \<longleftrightarrow> inp h = [])"

lemma wait_tx_step:
  "wait_tx B h = (if bit (fst (rd B mmio_SR h)) 7 then Some (snd (rd B mmio_SR h)) else wait_tx B (snd (rd B mmio_SR h)))"
  by (subst wait_tx.simps) (simp only: peek_u32_def SR_TXE_def and_single_bit_eq_0 if_not_P split: if_split, blast)

lemma wait_tx_returns:
  "bit (fst (rd B mmio_SR (((\<lambda>h. snd (rd B mmio_SR h)) ^^ n) h))) 7 \<Longrightarrow>
   \<exists>m. wait_tx B h = Some (((\<lambda>h. snd (rd B mmio_SR h)) ^^ m) h)"
proof (induction n arbitrary: h)
  case 0
  then show ?case by (subst wait_tx_step) (auto intro: exI [of _ 1])
next
  case (Suc n)
  let ?next = "\<lambda>h. snd (rd B mmio_SR h)"
  obtain m where m: "wait_tx B (?next h) = Some ((?next ^^ m) (?next h))"
    using Suc.IH [of "?next h"] Suc.prems [unfolded funpow_Suc_right o_apply] by blast
  also have "(?next ^^ m) (?next h) = (?next ^^ Suc m) h" by (simp only: funpow_Suc_right o_apply)
  finally have more: "\<exists>m. wait_tx B (?next h) = Some ((?next ^^ m) h)" by blast
  have "\<exists>m. ?next h = (?next ^^ m) h" by (rule exI [of _ 1]) simp
  with more show ?case by (subst wait_tx_step) auto
qed

lemma less_8_cases: "(n::nat) < 8 \<Longrightarrow> n = 0 \<or> n = 1 \<or> n = 2 \<or> n = 3 \<or> n = 4 \<or> n = 5 \<or> n = 6 \<or> n = 7"
  by arith

lemma u8_low_bits: "n < 8 \<Longrightarrow> bit (0xFF :: int) n"
  using less_8_cases [of n] by auto

lemma byte_through_word [simp]: "ucast (ucast (b :: u8) :: u32) = b"
  by (rule bit_word_eqI) (auto simp: bit_simps)

lemma put_byte_console:
  assumes "console a B out"
  shows "\<exists>h'. put_byte a B b h = Some h' \<and> out h' = out h @ [b]"
proof (cases a)
  case Arm
  let ?next = "\<lambda>h. snd (rd B mmio_SR h)"
  obtain n where "bit (fst (rd B mmio_SR ((?next ^^ n) h))) 7" using assms Arm unfolding console_def by blast
  from wait_tx_returns [OF this] obtain m where m: "wait_tx B h = Some ((?next ^^ m) h)" by blast
  have "out ((?next ^^ m) h) = out h" for m using assms by (induction m) (simp_all add: console_def)
  with m assms Arm show ?thesis by (simp add: console_def poke_u32_def)
next
  case Riscv32
  with assms show ?thesis by (simp add: console_def poke_u32_def)
qed

lemma write_str_console:
  assumes "console a B out"
  shows "\<exists>h'. write_str a B s h = Some h' \<and> out h' = out h @ s"
proof (induction s arbitrary: h)
  case (Cons b s)
  obtain h1 where "put_byte a B b h = Some h1" "out h1 = out h @ [b]" using put_byte_console [OF assms] by blast
  with Cons.IH [of h1] show ?case by auto
qed simp

lemma ready_bits:
  "w AND SR_RXNE = 0 \<longleftrightarrow> \<not> bit w 5" "w AND RX_EMPTY = 0 \<longleftrightarrow> \<not> bit w 31"
  by (simp_all only: SR_RXNE_def RX_EMPTY_def and_single_bit_eq_0)

lemma poll_keyboard:
  assumes "keyboard a B inp"
  shows "fst (poll_get_byte a B h) = (case inp h of [] \<Rightarrow> None | b # bs \<Rightarrow> Some b)"
    and "inp (snd (poll_get_byte a B h)) = tl (inp h)"
proof -
  have low: "ucast (w AND 0xFF) = (ucast w :: u8)" for w :: u32
    by (rule bit_word_eqI) (auto simp: bit_simps u8_low_bits)
  have k: "inp (snd (rd B x h)) = (if x = rx_reg a then tl (inp h) else inp h)"
    "inp h \<noteq> [] \<Longrightarrow> ucast (fst (rd B (rx_reg a) h)) = hd (inp h)" for x h
    using assms by (auto simp: keyboard_def)
  have "fst (poll_get_byte a B h) = (case inp h of [] \<Rightarrow> None | b # bs \<Rightarrow> Some b)
      \<and> inp (snd (poll_get_byte a B h)) = tl (inp h)"
  proof (cases a)
    case Arm
    then have st: "fst (rd B mmio_SR h) AND SR_RXNE \<noteq> 0 \<longleftrightarrow> inp h \<noteq> []" and ne: "mmio_SR \<noteq> rx_reg a"
      using assms by (simp_all add: keyboard_def ready_bits) (simp add: mmio_SR_def mmio_DR_def)
    show ?thesis
      using st ne k(1) [of mmio_SR h] k(1) [of mmio_DR "snd (rd B mmio_SR h)"] k(2) [of "snd (rd B mmio_SR h)"] Arm
      by (auto simp: peek_u32_def split_beta low split: list.split)
  next
    case Riscv32
    then have st: "fst (rd B mmio_RXDATA h) AND RX_EMPTY = 0 \<longleftrightarrow> inp h \<noteq> []"
      using assms by (simp add: keyboard_def ready_bits)
    show ?thesis
      using st k(1) [of mmio_RXDATA h] k(2) [of h] Riscv32
      by (auto simp: peek_u32_def split_beta low split: list.split)
  qed
  then show "fst (poll_get_byte a B h) = (case inp h of [] \<Rightarrow> None | b # bs \<Rightarrow> Some b)"
    and "inp (snd (poll_get_byte a B h)) = tl (inp h)" by simp_all
qed

lemma poll_console: "console a B out \<Longrightarrow> out (snd (poll_get_byte a B h)) = out h"
  by (cases a) (auto simp: console_def peek_u32_def split_beta)

section \<open>The receive ring is a bounded queue\<close>

text \<open>Any interleaving of arrivals (\<open>Some b\<close>) and reads (\<open>None\<close>), and the answers to the reads.\<close>

fun serve :: "('b \<Rightarrow> 'q \<Rightarrow> 'q) \<Rightarrow> ('q \<Rightarrow> 'b option \<times> 'q) \<Rightarrow> 'b option list \<Rightarrow> 'q \<Rightarrow> 'b option list \<times> 'q" where
  "serve push pop [] q = ([], q)"
| "serve push pop (Some b # es) q = serve push pop es (push b q)"
| "serve push pop (None # es) q =
     (let (r, q') = pop q; (rs, q'') = serve push pop es q' in (r # rs, q''))"

definition fifo_push :: "nat \<Rightarrow> 'b \<Rightarrow> 'b list \<Rightarrow> 'b list" where
  "fifo_push cap b bs = (if length bs < cap then bs @ [b] else bs)"

definition fifo_pop :: "'b list \<Rightarrow> 'b option \<times> 'b list" where
  "fifo_pop bs = (case bs of [] \<Rightarrow> (None, []) | b # bs' \<Rightarrow> (Some b, bs'))"

text \<open>
  The contract between the interrupt handler, which pushes, and the consumer, which pops:
  first in, first out, and at \<open>cap\<close> bytes a push is dropped.
\<close>

locale bounded_queue =
  fixes push :: "'b \<Rightarrow> 'q \<Rightarrow> 'q" and pop :: "'q \<Rightarrow> 'b option \<times> 'q"
    and held :: "'q \<Rightarrow> 'b list" and ok :: "'q \<Rightarrow> bool" and cap :: nat
  assumes push_law: "ok q \<Longrightarrow> ok (push b q) \<and> held (push b q) = fifo_push cap b (held q)"
    and pop_law: "ok q \<Longrightarrow> ok (snd (pop q)) \<and> (fst (pop q), held (snd (pop q))) = fifo_pop (held q)"
begin

lemma serve_fifo:
  "ok q \<Longrightarrow> fst (serve push pop es q) = fst (serve (fifo_push cap) fifo_pop es (held q))
    \<and> held (snd (serve push pop es q)) = snd (serve (fifo_push cap) fifo_pop es (held q))
    \<and> ok (snd (serve push pop es q))"
proof (induction es arbitrary: q)
  case (Cons e es)
  show ?case
  proof (cases e)
    case None
    then show ?thesis using Cons.IH [of "snd (pop q)"] pop_law [OF Cons.prems]
      by (simp add: split_beta Let_def) (metis fst_conv snd_conv)
  next
    case (Some b)
    then show ?thesis using Cons.IH [of "push b q"] push_law [OF Cons.prems, of b] by simp
  qed
qed simp

end

definition ring_held :: "RxRing \<Rightarrow> u8 list" where
  "ring_held q = map (\<lambda>i. rx_buf q ! ((rx_tail q + i) mod RING_SIZE)) [0..<(rx_head q + RING_SIZE - rx_tail q) mod RING_SIZE]"

definition wf_ring :: "RxRing \<Rightarrow> bool" where
  "wf_ring q \<longleftrightarrow> length (rx_buf q) = RING_SIZE \<and> rx_head q < RING_SIZE \<and> rx_tail q < RING_SIZE"

lemma ring_dist:
  assumes "w < (256 :: nat)" and "r < 256"
  shows "(Suc w mod 256 + 256 - r) mod 256 = (if Suc w mod 256 = r then 0 else Suc ((w + 256 - r) mod 256))"
    and "Suc w mod 256 = r \<longleftrightarrow> (w + 256 - r) mod 256 = 255"
    and "w = r \<longleftrightarrow> (w + 256 - r) mod 256 = 0"
    and "w \<noteq> r \<Longrightarrow> (w + 256 - Suc r mod 256) mod 256 = (w + 256 - r) mod 256 - 1"
    and "(r + (w + 256 - r) mod 256) mod 256 = w"
  using assms by (auto simp: mod_if split: if_splits)

lemma ring_other:
  assumes "w < (256 :: nat)" and "r < 256" and "i < (w + 256 - r) mod 256"
  shows "(r + i) mod 256 \<noteq> w"
proof (cases "r \<le> w")
  case True
  then have "(w + 256 - r) mod 256 = w - r" using assms(1,2) by (simp add: mod_if)
  with True assms show ?thesis by simp
next
  case False
  then have "(w + 256 - r) mod 256 = w + 256 - r" using assms(1,2) by simp
  moreover have "(r + i) mod 256 = (if r + i < 256 then r + i else r + i - 256)"
    using False assms calculation by (simp add: mod_if)
  ultimately show ?thesis using False assms by auto
qed

interpretation ring: bounded_queue ring_push ring_pop ring_held wf_ring "RING_SIZE - 1"
proof
  fix q :: RxRing and b :: u8
  assume "wf_ring q"
  then have q: "length (rx_buf q) = 256" "rx_head q < 256" "rx_tail q < 256"
    by (simp_all add: wf_ring_def RING_SIZE_def)
  let ?d = "(rx_head q + 256 - rx_tail q) mod 256"
  note dist = ring_dist [OF q(2,3)]
  show "wf_ring (ring_push b q) \<and> ring_held (ring_push b q) = fifo_push (RING_SIZE - 1) b (ring_held q)"
  proof (cases "Suc (rx_head q) mod 256 = rx_tail q")
    case True
    then show ?thesis using q dist(2)
      by (simp add: ring_push_def Let_def RING_SIZE_def wf_ring_def fifo_push_def ring_held_def)
  next
    case False
    then have "?d \<noteq> 255" by (simp only: dist(2) not_False_eq_True)
    moreover have "?d < 256" by (rule mod_less_divisor) simp
    ultimately have d: "?d < 255" by linarith
    note other = ring_other [OF q(2,3)]
    have "map (\<lambda>i. (rx_buf q)[rx_head q := b] ! ((rx_tail q + i) mod 256)) [0..<?d] = map (\<lambda>i. rx_buf q ! ((rx_tail q + i) mod 256)) [0..<?d]"
      by (intro map_cong refl nth_list_update_neq not_sym [OF other]) simp
    then show ?thesis using q False d dist(1,5)
      by (simp add: ring_push_def Let_def RING_SIZE_def wf_ring_def fifo_push_def ring_held_def)
  qed
  show "wf_ring (snd (ring_pop q)) \<and> (fst (ring_pop q), ring_held (snd (ring_pop q))) = fifo_pop (ring_held q)"
  proof (cases "rx_head q = rx_tail q")
    case True
    then show ?thesis using q
      by (simp add: ring_pop_def RING_SIZE_def wf_ring_def fifo_pop_def ring_held_def)
  next
    case False
    then obtain d where d: "?d = Suc d" using dist(3) by (cases ?d) auto
    have "ring_held q = rx_buf q ! rx_tail q # map (\<lambda>i. rx_buf q ! ((Suc (rx_tail q) mod 256 + i) mod 256)) [0..<d]"
      using q unfolding ring_held_def RING_SIZE_def d
      by (simp add: upt_conv_Cons map_Suc_upt [symmetric] mod_simps del: upt_Suc)
    then show ?thesis using q False d dist(4)
      by (simp add: ring_pop_def RING_SIZE_def wf_ring_def fifo_pop_def ring_held_def)
  qed
qed

section \<open>Printed numbers are literals\<close>

lemma hex_chars_ok:
  "list_all (\<lambda>d. is_hexdigit (hex_char d) \<and> hex_val (hex_char d) = d \<and> hex_char d \<noteq> 0x5F) [0..<16]"
  by code_simp

lemma hex_char_facts:
  "d < 16 \<Longrightarrow> is_hexdigit (hex_char d)" "d < 16 \<Longrightarrow> hex_val (hex_char d) = d" "d < 16 \<Longrightarrow> hex_char d \<noteq> 0x5F"
  using hex_chars_ok by (simp_all add: list_all_iff)

lemma hex_expand:
  assumes "n < 4294967296"
  shows "((((((n div 16 ^ 7 mod 16 * 16 + n div 16 ^ 6 mod 16) * 16 + n div 16 ^ 5 mod 16) * 16 + n div 16 ^ 4 mod 16) * 16
    + n div 16 ^ 3 mod 16) * 16 + n div 16 ^ 2 mod 16) * 16 + n div 16 mod 16) * 16 + n mod 16 = (n :: nat)"
proof -
  have step: "n div 16 ^ j * 16 + n div 16 ^ k mod 16 = n div 16 ^ k" if "j = Suc k" for j k
  proof -
    have "n div 16 ^ j = n div 16 ^ k div 16" by (simp add: that power_Suc2 div_mult2_eq del: power_Suc)
    then show ?thesis by (simp only: div_mult_mod_eq)
  qed
  have top: "n div 16 ^ 7 mod 16 = n div 16 ^ 7" using assms by (simp add: div_less_iff_less_mult)
  have "n div 16 ^ 2 * 16 + n div 16 mod 16 = n div 16" using step [of 2 1] by (simp only: power_one_right) simp
  then show ?thesis
    by (simp only: top step [of 7 6] step [of 6 5] step [of 5 4] step [of 4 3] step [of 3 2] div_mult_mod_eq)
qed

lemma hex_digits_run:
  "hex_run (hex_digits v) = hex_digits v" "hex_number 0 (hex_digits v) = unat v" "hex_digits v \<noteq> []"
proof -
  have all: "list_all is_hexdigit (hex_digits v)" "list_all (\<lambda>b. b \<noteq> 0x5F) (hex_digits v)"
    by (simp_all add: hex_digits_def hex_char_facts)
  show "hex_run (hex_digits v) = hex_digits v"
    using all(1) by (auto simp: hex_run_def takeWhile_eq_all_conv list_all_iff)
  have "filter (\<lambda>b. b \<noteq> 0x5F) (hex_digits v) = hex_digits v"
    using all(2) by (simp add: filter_id_conv list_all_iff)
  then have "hex_number 0 (hex_digits v) = digits_from 16 0 (map (\<lambda>i. unat v div 16 ^ i mod 16) [7, 6, 5, 4, 3, 2, 1, 0])"
    by (simp only: hex_number_def) (simp add: hex_digits_def hex_char_facts)
  also have "\<dots> = unat v" using hex_expand [of "unat v"] by simp
  finally show "hex_number 0 (hex_digits v) = unat v" .
  show "hex_digits v \<noteq> []" by (simp add: hex_digits_def)
qed

lemma lex_dec: "fst (next_token (lexer_new (dec_digits (unat v)))) = Literal v"
proof -
  have all: "list_all is_digit (dec_digits (unat v))" by (rule dec_digits_are_digits)
  obtain b zs where b: "dec_digits (unat v) = b # zs" by (cases "dec_digits (unat v)") auto
  have "dec_run (dec_digits (unat v)) = dec_digits (unat v)"
    using all by (auto simp: dec_run_def takeWhile_eq_all_conv list_all_iff)
  moreover have "\<not> hex_prefix (dec_digits (unat v))"
    using all by (auto simp: hex_prefix_def list_all_length dest!: spec [of _ 1]) (simp_all add: is_digit_def)
  ultimately have "ref_literal (dec_digits (unat v)) = (Literal v, [])"
    by (simp add: ref_literal_def dec_digits_number)
  then show ?thesis
    using next_token_literal [OF wf_lexer_new(1), of "dec_digits (unat v)" b zs] all b by simp
qed

lemma lex_hex: "fst (next_token (lexer_new (byte_str ''0x'' @ hex_digits v))) = Literal v"
proof -
  let ?s = "byte_str ''0x'' @ hex_digits v"
  have s: "?s = 0x30 # 0x78 # hex_digits v" "hex_prefix ?s" "drop 2 ?s = hex_digits v"
    by (simp_all add: byte_str_def hex_prefix_def)
  have "fst (ref_literal ?s) = Literal v"
    by (simp only: ref_literal_def s(2,3) if_True Let_def hex_digits_run fits_unat option.case if_False fst_conv)
  then show ?thesis
    using next_token_literal [OF wf_lexer_new(1), of ?s "0x30" "0x78 # hex_digits v"] s(1) by (simp add: is_digit_def)
qed

section \<open>A device that meets the assumptions\<close>

record sim =
  sim_mem :: "u32 \<Rightarrow> u32"
  sim_tx :: "u8 list"
  sim_rx :: "u8 list"

definition sim_bus :: "arch \<Rightarrow> sim bus" where
  "sim_bus a =
     \<lparr>rd = (\<lambda>x s.
        if x = rx_reg a then
          ((case a of Arm \<Rightarrow> 0 | Riscv32 \<Rightarrow> if sim_rx s = [] then RX_EMPTY else 0)
             OR (case sim_rx s of [] \<Rightarrow> 0 | b # _ \<Rightarrow> ucast b), s\<lparr>sim_rx := tl (sim_rx s)\<rparr>)
        else if a = Arm \<and> x = mmio_SR then (SR_TXE OR (if sim_rx s = [] then 0 else SR_RXNE), s)
        else (sim_mem s x, s)),
      wr = (\<lambda>x v s.
        if x = tx_reg a then s\<lparr>sim_tx := sim_tx s @ [ucast v]\<rparr>
        else s\<lparr>sim_mem := (sim_mem s)(x := v)\<rparr>),
      mcycle = (\<lambda>s. (0, s))\<rparr>"

lemma sim_console: "console a (sim_bus a) sim_tx"
proof -
  have "\<exists>n. bit (fst (rd (sim_bus Arm) mmio_SR (((\<lambda>h. snd (rd (sim_bus Arm) mmio_SR h)) ^^ n) h))) 7" for h
    by (rule exI [of _ 0]) (simp add: sim_bus_def mmio_SR_def mmio_DR_def SR_TXE_def bit_simps)
  then show ?thesis by (cases a) (simp_all add: console_def sim_bus_def)
qed

lemma u8_high [simp]: "\<not> bit (b :: u8) 31"
  using bit_imp_le_length [of b 31] by auto

lemma sim_keyboard: "keyboard a (sim_bus a) sim_rx"
  by (cases a)
    (auto simp: keyboard_def sim_bus_def mmio_SR_def mmio_DR_def mmio_RXDATA_def SR_TXE_def SR_RXNE_def RX_EMPTY_def
      bit_simps split: list.splits)

section \<open>Properties\<close>

text \<open>C27: output terminates and is exact. If the transmitter becomes free after finitely many
  reads of its status register, every printer returns and has sent exactly its text: the string
  itself, \<open>0x\<close> and eight upper-case hex digits, or the decimal digits without leading zeros; the
  ten-byte scratch buffer of the decimal printer is never overrun.\<close>

theorem printers_transmit:
  assumes "console a B out"
  shows "(\<exists>h'. write_str a B s h = Some h' \<and> out h' = out h @ s)
    \<and> (\<exists>h'. write_line a B s h = Some h' \<and> out h' = out h @ s @ crlf)
    \<and> (\<exists>h'. write_hex_u32 a B v h = Some h' \<and> out h' = out h @ byte_str ''0x'' @ hex_digits v)
    \<and> (\<exists>h'. write_dec_u32 a B v h = Some h' \<and> out h' = out h @ dec_digits (unat v))"
proof (intro conjI)
  show "\<exists>h'. write_line a B s h = Some h' \<and> out h' = out h @ s @ crlf"
    using write_str_console [OF assms, of "s @ crlf" h] by (simp add: write_line_def write_str_append)
qed (simp_all only: write_hex_str write_dec_str write_str_console [OF assms])

theorem printers_transmit_witness:
  "\<exists>h'. write_dec_u32 Arm (sim_bus Arm) 4294967295 \<lparr>sim_mem = (\<lambda>_. 0), sim_tx = [], sim_rx = []\<rparr> = Some h'
    \<and> sim_tx h' = byte_str ''4294967295''"
proof -
  have "dec_digits (unat (4294967295 :: u32)) = byte_str ''4294967295''"
    by (simp add: dec_digits.simps byte_str_def)
  then show ?thesis using printers_transmit [OF sim_console, of Arm "[]" _ "4294967295"] by force
qed

text \<open>C28: printed numbers read back. What the decimal and the hex printer send for any 32-bit
  value is lexed as the literal of that value, also at the end of the input.\<close>

theorem printed_numbers_lex_back:
  assumes "console a B out" and "out h = []"
  shows "(\<exists>h'. write_dec_u32 a B v h = Some h' \<and> fst (next_token (lexer_new (out h'))) = Literal v)
    \<and> (\<exists>h'. write_hex_u32 a B v h = Some h' \<and> fst (next_token (lexer_new (out h'))) = Literal v)"
  using write_str_console [OF assms(1), of "dec_digits (unat v)" h]
    write_str_console [OF assms(1), of "byte_str ''0x'' @ hex_digits v" h] assms(2)
  by (auto simp: write_dec_str write_hex_str lex_dec lex_hex)

theorem printed_numbers_lex_back_witness:
  "\<exists>h'. write_hex_u32 Riscv32 (sim_bus Riscv32) 0xBEEF \<lparr>sim_mem = (\<lambda>_. 0), sim_tx = [], sim_rx = []\<rparr> = Some h'
    \<and> fst (next_token (lexer_new (sim_tx h'))) = Literal 0xBEEF"
  using printed_numbers_lex_back [OF sim_console, of "\<lparr>sim_mem = (\<lambda>_. 0), sim_tx = [], sim_rx = []\<rparr>" Riscv32 "0xBEEF"]
  by simp

text \<open>C25: the receive ring is a first-in-first-out queue of 255 bytes. For every interleaving of
  arriving bytes and reads, the reads get the answers of a list that drops arrivals when it
  holds 255 bytes; the indices stay inside the buffer.\<close>

theorem rx_ring_is_fifo:
  "fst (serve ring_push ring_pop es RX_RING) = fst (serve (fifo_push 255) fifo_pop es [])
   \<and> wf_ring (snd (serve ring_push ring_pop es RX_RING))"
proof -
  have "wf_ring RX_RING" "ring_held RX_RING = []"
    by (simp_all add: wf_ring_def RX_RING_def RING_SIZE_def ring_held_def)
  then show ?thesis using ring.serve_fifo [of RX_RING es] by (simp add: RING_SIZE_def)
qed

end
