(* ===== verification/Interrupt.thy ===== *)
theory Interrupt
  imports Uart
begin

text \<open>
  Vector table relocation and interrupt dispatch (src/kernel/interrupt.rs). The table is the
  memory of the static \<open>RAM_VECTOR_TABLE\<close>, written word by word through a raw pointer at boot and
  through the typed struct afterwards, so it is modelled as words on the bus, with the struct's
  layout. Where the linker puts things, the RISC-V CSR write and the transfer of control to a
  handler are parameters.
\<close>

section \<open>The table\<close>

definition VECTOR_SLOTS :: nat where "VECTOR_SLOTS = 256"

text \<open>The fields of the typed struct, in order, with the number of their words.\<close>

definition VectorTable :: "(string \<times> nat) list" where
  "VectorTable = [(''initial_sp'', 1), (''reset_handler'', 1), (''nmi_handler'', 1), (''hard_fault'', 1),
     (''mem_manage'', 1), (''bus_fault'', 1), (''usage_fault'', 1), (''reserved'', 4), (''sv_call'', 1),
     (''debug_mon'', 1), (''reserved2'', 1), (''pend_sv'', 1), (''sys_tick'', 1), (''irq_handlers'', 32)]"

text \<open>\<open>repr(C, align(1024))\<close>: fields in order, the size rounded up to the alignment.\<close>

definition field_offset :: "string \<Rightarrow> nat" where
  "field_offset f = 4 * sum_list (map snd (takeWhile (\<lambda>(g, _). g \<noteq> f) VectorTable))"

definition table_size :: nat where
  "table_size = (let n = 4 * sum_list (map snd VectorTable) in (n + 1023) div 1024 * 1024)"

definition irq_slot :: "u32 \<Rightarrow> nat \<Rightarrow> u32" where
  "irq_slot table i = table + of_nat (field_offset ''irq_handlers'') + 4 * of_nat i"

text \<open>The initial words of the static, \<open>default_reset\<close> and \<open>default_handler\<close> being link addresses;
  a handler \<open>None\<close> is the null word.\<close>

definition RAM_VECTOR_TABLE :: "u32 \<Rightarrow> u32 \<Rightarrow> u32 list" where
  "RAM_VECTOR_TABLE default_reset default_handler =
     [0, default_reset] @ replicate 5 default_handler @ replicate 4 0 @ replicate 2 default_handler @ [0]
       @ replicate 2 default_handler @ replicate 32 0"

record irq_layout =
  vector_start :: u32
  vector_end :: u32
  table_addr :: u32
  trap_hang :: u32

section \<open>Boot\<close>

definition VTOR :: u32 where "VTOR = 0xE000ED08"

fun relocate_vector_table :: "arch \<Rightarrow> 'h bus \<Rightarrow> irq_layout \<Rightarrow> 'h \<Rightarrow> 'h" where
  "relocate_vector_table Arm B l h = wr B VTOR (table_addr l) h"
| "relocate_vector_table Riscv32 B l h = h"

fun copy_words :: "'h bus \<Rightarrow> u32 \<Rightarrow> u32 \<Rightarrow> nat list \<Rightarrow> 'h \<Rightarrow> 'h" where
  "copy_words B src dst [] h = h"
| "copy_words B src dst (i # is) h =
     (let (v, h') = rd B (src + 4 * of_nat i) h
      in copy_words B src dst is (wr B (dst + 4 * of_nat i) v h'))"

text \<open>\<open>csrw\<close> is the CSR write of the RISC-V branch.\<close>

fun boot_relocate_vectors :: "arch \<Rightarrow> 'h bus \<Rightarrow> (u32 \<Rightarrow> 'h \<Rightarrow> 'h) \<Rightarrow> irq_layout \<Rightarrow> 'h \<Rightarrow> 'h" where
  "boot_relocate_vectors Arm B csrw l h =
     (let words = min (unat ((vector_end l - vector_start l) div 4)) VECTOR_SLOTS
      in wr B VTOR (table_addr l) (copy_words B (vector_start l) (table_addr l) [0..<words] h))"
| "boot_relocate_vectors Riscv32 B csrw l h = csrw (trap_hang l AND NOT 3) h"

definition configure_riscv_interrupts :: "(u32 \<Rightarrow> 'h \<Rightarrow> 'h) \<Rightarrow> u32 \<Rightarrow> 'h \<Rightarrow> 'h" where
  "configure_riscv_interrupts csrw table_base_address h = csrw ((table_base_address AND NOT 3) OR 1) h"

section \<open>Handlers\<close>

definition attach_jit_irq :: "'h bus \<Rightarrow> irq_layout \<Rightarrow> nat \<Rightarrow> u32 \<Rightarrow> 'h \<Rightarrow> 'h" where
  "attach_jit_irq B l irq_index jit_fn h =
     (if irq_index < 32 then wr B (irq_slot (table_addr l) irq_index) jit_fn h else h)"

text \<open>\<open>call f\<close> transfers control to the handler at \<open>f\<close>; \<open>None\<close> if it does not come back.\<close>

definition generic_irq_trampoline_ch16 :: "'h bus \<Rightarrow> (u32 \<Rightarrow> 'h \<Rightarrow> 'h option) \<Rightarrow> irq_layout \<Rightarrow> 'h \<Rightarrow> 'h option" where
  "generic_irq_trampoline_ch16 B call l h =
     (let (pending, h1) = rd B 0x40010004 h;
          h2 = wr B 0x40010004 (pending AND NOT (push_bit 16 1)) h1;
          (handler, h3) = rd B (irq_slot (table_addr l) 16) h2
      in if handler \<noteq> 0 then call handler h3 else Some h3)"

text \<open>The state in which the core parks after the announcement.\<close>

definition fault_hang :: "'h bus \<Rightarrow> 'h \<Rightarrow> 'h option" where
  "fault_hang B h = write_str Arm B (crlf @ byte_str ''**FAULT: core exception, halted**'' @ crlf) h"

text \<open>The default handlers and the RISC-V trap stub sleep or jump forever; \<open>wfi\<close> is what waiting for an
  interrupt does to the hardware.\<close>

partial_function (option) default_reset :: "('h \<Rightarrow> 'h) \<Rightarrow> 'h \<Rightarrow> 'h option" where
  "default_reset wfi h = default_reset wfi (wfi h)"

partial_function (option) default_handler :: "('h \<Rightarrow> 'h) \<Rightarrow> 'h \<Rightarrow> 'h option" where
  "default_handler wfi h = default_handler wfi (wfi h)"

partial_function (option) trap_stub :: "'h \<Rightarrow> 'h option" where
  "trap_stub h = trap_stub h"

lemma handlers_park: "default_reset wfi h = None" "default_handler wfi h = None" "trap_stub h = None"
proof -
  have "\<not> default_reset wfi h = Some h'" for h'
    by (rule notI) (erule default_reset.raw_induct [of "\<lambda>_ _ _. False", rotated], blast)
  then show "default_reset wfi h = None" by (meson not_Some_eq)
  have "\<not> default_handler wfi h = Some h'" for h'
    by (rule notI) (erule default_handler.raw_induct [of "\<lambda>_ _ _. False", rotated], blast)
  then show "default_handler wfi h = None" by (meson not_Some_eq)
  have "\<not> trap_stub h = Some h'" for h'
    by (rule notI) (erule trap_stub.raw_induct [of "\<lambda>_ _. False", rotated], blast)
  then show "trap_stub h = None" by (meson not_Some_eq)
qed

section \<open>Layout facts\<close>

lemma table_layout:
  "field_offset ''irq_handlers'' = 64" "table_size = 1024" "4 * VECTOR_SLOTS = table_size"
  "irq_slot table i = table + 64 + 4 * of_nat i"
  by (simp_all add: field_offset_def VectorTable_def table_size_def VECTOR_SLOTS_def irq_slot_def)

lemma ram_table_fits: "length (RAM_VECTOR_TABLE d e) = sum_list (map snd VectorTable)"
  by (simp add: RAM_VECTOR_TABLE_def VectorTable_def)

text \<open>Copying between disjoint word ranges of plain memory.\<close>

lemma copy_words_snoc:
  "copy_words B s d (xs @ [y]) h = (let (v, h') = rd B (s + 4 * of_nat y) (copy_words B s d xs h)
    in wr B (d + 4 * of_nat y) v h')"
  by (induction xs arbitrary: h) (simp_all add: Let_def split_beta)

lemma copy_words_ram:
  assumes "words_at s n \<inter> words_at d n = {}" and "k \<le> n"
  shows "copy_words ram_bus s d [0..<k] m = (\<lambda>x. if x \<in> words_at d k then m (s + (x - d)) else m x)"
  using assms(2)
proof (induction k)
  case (Suc k)
  have src: "s + 4 * of_nat k \<notin> words_at d k"
  proof
    assume "s + 4 * of_nat k \<in> words_at d k"
    then have "s + 4 * of_nat k \<in> words_at d n" using Suc.prems by (auto simp: words_at_def)
    moreover have "s + 4 * of_nat k \<in> words_at s n" using Suc.prems by (auto simp: words_at_def)
    ultimately show False using assms(1) by blast
  qed
  have set: "words_at d (Suc k) = insert (d + 4 * of_nat k) (words_at d k)"
    by (auto simp: words_at_def lessThan_Suc)
  have "copy_words ram_bus s d [0..<Suc k] m = (copy_words ram_bus s d [0..<k] m)
      (d + 4 * of_nat k := copy_words ram_bus s d [0..<k] m (s + 4 * of_nat k))"
    by (simp add: copy_words_snoc Let_def)
  with Suc src show ?case by (auto simp: set fun_eq_iff)
qed simp

section \<open>Properties\<close>

text \<open>C29: vector relocation on ARM. Boot mirrors the flash vectors, at most 256 words and so never
  more than the table's 1024 bytes, to the start of the SRAM table and points VTOR at it; every
  other word, the rest of the table included, keeps what it held, so interrupt slots beyond the
  linked vectors are whatever the SRAM powered up with.\<close>

theorem relocation_mirrors_vectors:
  assumes "n = min (unat ((vector_end l - vector_start l) div 4)) VECTOR_SLOTS"
    and "words_at (vector_start l) n \<inter> words_at (table_addr l) n = {}" and "VTOR \<notin> words_at (table_addr l) n"
  shows "4 * n \<le> table_size \<and> boot_relocate_vectors Arm ram_bus csrw l m = (\<lambda>x.
      if x = VTOR then table_addr l
      else if x \<in> words_at (table_addr l) n then m (vector_start l + (x - table_addr l))
      else m x)"
  using copy_words_ram [OF assms(2) order_refl] assms(1) table_layout(2,3)
  by (auto simp: Let_def fun_eq_iff)

theorem relocation_mirrors_vectors_witness:
  "boot_relocate_vectors Arm ram_bus (\<lambda>_ m. m)
     \<lparr>vector_start = 0x08000000, vector_end = 0x08000008, table_addr = 0x20000400, trap_hang = 0\<rparr> (\<lambda>x. x) 0x20000404
   = 0x08000004
   \<and> boot_relocate_vectors Arm ram_bus (\<lambda>_ m. m)
     \<lparr>vector_start = 0x08000000, vector_end = 0x08000008, table_addr = 0x20000400, trap_hang = 0\<rparr> (\<lambda>x. x) (irq_slot 0x20000400 0)
   = 0x20000440"
proof -
  let ?l = "\<lparr>vector_start = 0x08000000, vector_end = 0x08000008, table_addr = 0x20000400, trap_hang = 0\<rparr>"
  have n: "2 = min (unat ((vector_end ?l - vector_start ?l) div 4)) VECTOR_SLOTS" by (simp add: VECTOR_SLOTS_def)
  have w: "words_at (0x08000000 :: u32) 2 = {0x08000000, 0x08000004}" "words_at (0x20000400 :: u32) 2 = {0x20000400, 0x20000404}"
    by (simp_all add: words_at_Suc numeral_2_eq_2)
  show ?thesis
    using relocation_mirrors_vectors [OF n, of "\<lambda>_ m. m" "\<lambda>x. x"] by (simp add: w VTOR_def table_layout(4))
qed

text \<open>A handler that is attached to slot 16 is what the trampoline runs. The trampoline
  acknowledges by clearing exactly bit 16 of the pending register and then calls the attached
  function, whatever slot 16 held before; attaching out of range changes nothing.\<close>

lemma attached_handler_runs:
  assumes "f \<noteq> 0" and "irq_slot (table_addr l) 16 \<noteq> 0x40010004"
  shows "generic_irq_trampoline_ch16 ram_bus call l (attach_jit_irq ram_bus l 16 f m)
      = call f (m(irq_slot (table_addr l) 16 := f, 0x40010004 := m 0x40010004 AND NOT (push_bit 16 1)))
    \<and> (bit (m 0x40010004 AND NOT (push_bit 16 1)) k \<longleftrightarrow> bit (m 0x40010004) k \<and> k \<noteq> 16)
    \<and> (32 \<le> i \<longrightarrow> attach_jit_irq ram_bus l i f m = m)"
  using assms bit_u32_bound [of "m 0x40010004" k]
  by (auto simp: generic_irq_trampoline_ch16_def attach_jit_irq_def Let_def bit_and_iff bit_not_iff bit_single_u32
      simp del: push_bit_of_1 push_bit_numeral)

end
