(* ===== verification/Repl.thy ===== *)
theory Repl
  imports Parser Uart Tokens Memory
begin

text \<open>
  The interactive control loop (src/drivers/repl.rs): the line editor, the four-state cycle,
  and the execution of every outcome of the compiler with what it prints. The statics of the
  kernel that the loop reaches are one record; an action on it either finishes or stops, by a
  panic or by a call that never returns.
\<close>

section \<open>State\<close>

definition LINE_MAX :: nat where "LINE_MAX = 128"

datatype State = Idle | Reading | Evaluating | Printing

text \<open>A panic with its message, if the message is a plain string; \<open>Hang\<close> is a call that never
  returns, in the state in which it was made.\<close>

datatype stop = Panic "u8 list option" | Hang

record ('e, 'h) kern =
  rstate :: State
  pending :: "(parse_fail + Outcome) option"
  line_buf :: "u8 list"
  line_len :: nat
  compiler :: Compiler
  reg :: registry
  audit :: AuditLog
  vmach :: vm
  ebuf :: 'e
  io :: 'h

type_synonym ('e, 'h, 'a) act = "('e, 'h) kern \<Rightarrow> (stop + 'a) \<times> ('e, 'h) kern"

section \<open>Output\<close>

definition transmit :: "('h \<Rightarrow> 'h option) \<Rightarrow> ('e, 'h, unit) act" where
  "transmit f k = (case f (io k) of Some h \<Rightarrow> (Inr (), k\<lparr>io := h\<rparr>) | None \<Rightarrow> (Inl Hang, k))"

definition put_str :: "('e, 'h) platform \<Rightarrow> u8 list \<Rightarrow> ('e, 'h, unit) act" where
  "put_str P s = transmit (write_str (target P) (hw P) s)"

definition put_line :: "('e, 'h) platform \<Rightarrow> u8 list \<Rightarrow> ('e, 'h, unit) act" where
  "put_line P s = transmit (write_line (target P) (hw P) s)"

definition put_hex :: "('e, 'h) platform \<Rightarrow> u32 \<Rightarrow> ('e, 'h, unit) act" where
  "put_hex P v = transmit (write_hex_u32 (target P) (hw P) v)"

definition put_dec :: "('e, 'h) platform \<Rightarrow> u32 \<Rightarrow> ('e, 'h, unit) act" where
  "put_dec P v = transmit (write_dec_u32 (target P) (hw P) v)"

definition prompt :: "('e, 'h) platform \<Rightarrow> ('e, 'h, unit) act" where
  "prompt P = put_str P (byte_str ''holy> '')"

definition write_value :: "('e, 'h) platform \<Rightarrow> u32 \<Rightarrow> ('e, 'h, unit) act" where
  "write_value P value =
     try_then (put_hex P value) (try_then (put_str P (byte_str '' (''))
       (try_then (put_dec P value) (put_line P (byte_str '')''))))"

section \<open>The line editor\<close>

definition set_line_len :: "nat \<Rightarrow> ('e, 'h, unit) act" where
  "set_line_len len k = (Inr (), k\<lparr>line_len := len\<rparr>)"

definition store_byte :: "nat \<Rightarrow> u8 \<Rightarrow> ('e, 'h, unit) act" where
  "store_byte len byte k = (Inr (), k\<lparr>line_buf := (line_buf k)[len := byte]\<rparr>)"

fun erase_line :: "('e, 'h) platform \<Rightarrow> nat \<Rightarrow> ('e, 'h, unit) act" where
  "erase_line P 0 = ok_with ()"
| "erase_line P (Suc n) = try_then (put_str P [8, 32, 8]) (erase_line P n)"

definition feed :: "('e, 'h) platform \<Rightarrow> u8 \<Rightarrow> ('e, 'h, State) act" where
  "feed P byte0 k =
     (let byte = (if byte0 = 9 then 0x20 else byte0); len = line_len k in
      if byte = 13 \<or> byte = 10 then try_then (put_str P crlf) (ok_with Evaluating) k
      else if byte = 8 \<or> byte = 0x7F then
        (if 0 < len then try_then (set_line_len (len - 1)) (try_then (put_str P [8, 32, 8]) (ok_with Reading)) k
         else (Inr Reading, k))
      else if byte = 0x15 then
        try_then (erase_line P len) (try_then (set_line_len 0) (ok_with Reading)) k
      else if byte = 3 then
        try_then (set_line_len 0) (try_then (put_str P (byte_str ''^C'' @ crlf)) (try_then (prompt P) (ok_with Idle))) k
      else if 0x20 \<le> byte \<and> byte \<le> 0x7E then
        (if len < LINE_MAX then
           try_then (store_byte len byte) (try_then (set_line_len (len + 1))
             (try_then (transmit (put_byte (target P) (hw P) byte)) (ok_with Reading))) k
         else (Inr Reading, k))
      else (Inr Reading, k))"

definition take_line :: "('e, 'h) kern \<Rightarrow> u8 list \<times> ('e, 'h) kern" where
  "take_line k = (take (line_len k) (line_buf k), k\<lparr>line_len := 0\<rparr>)"

definition compile :: "('e, 'h) platform \<Rightarrow> u8 list \<Rightarrow> ('e, 'h) kern \<Rightarrow> (parse_fail + Outcome) option \<times> ('e, 'h) kern" where
  "compile P input k =
     (if input = [] then (None, k)
      else (let (res, c, h) = parse P (reg k) input (compiler k) (io k)
            in (Some res, k\<lparr>compiler := c, io := h\<rparr>)))"

section \<open>Outcomes\<close>

fun error_text :: "ParseError \<Rightarrow> u8 list" where
  "error_text (LexError m) = byte_str ''LEX'' @ [10]"
| "error_text UnexpectedToken = byte_str ''UNEXPECTED TOKEN'' @ [10]"
| "error_text (UnsupportedOperator b) = byte_str ''UNSUPPORTED OPERATOR'' @ [10]"
| "error_text UnknownSymbol = byte_str ''UNKNOWN SYMBOL'' @ [10]"
| "error_text DuplicateFn = byte_str ''FN REDEFINED'' @ [10]"
| "error_text SymbolTableFull = byte_str ''SYMBOL TABLE FULL'' @ [10]"
| "error_text FnTableFull = byte_str ''FN TABLE FULL'' @ [10]"
| "error_text StreamFull = byte_str ''STREAM FULL'' @ [10]"
| "error_text NameTooLong = byte_str ''NAME TOO LONG'' @ [10]"
| "error_text DivByZero = byte_str ''DIV BY ZERO'' @ [10]"
| "error_text MissingSemicolon = byte_str ''MISSING SEMICOLON'' @ [10]"
| "error_text EmptyLine = [10]"
| "error_text CapabilityViolation = byte_str ''E001: CAPABILITY_VIOLATION - Peripheral token not claimed'' @ [10]"

definition BANNER :: "u8 list" where "BANNER = byte_str ''Holy Rust REPL v0.1'' @ crlf"

definition print_help :: "('e, 'h) platform \<Rightarrow> ('e, 'h, unit) act" where
  "print_help P = put_line P
     (byte_str ''commands:'' @ crlf
      @ byte_str ''peek ADDR;              read u32 from address (requires capability)'' @ crlf
      @ byte_str ''poke ADDR VAL;          write u32 to address (requires capability)'' @ crlf
      @ byte_str ''reg_set_bit ADDR BIT;   set register bit (requires capability)'' @ crlf
      @ byte_str ''reg_clr_bit ADDR BIT;   clear register bit (requires capability)'' @ crlf
      @ byte_str ''cap_claim NAME;         claim peripheral (GPIOA GPIOB UART0 SPI0 I2C0 TIMER0 DMA0 SUPERUSER)'' @ crlf
      @ byte_str ''cap_drop NAME;          release peripheral'' @ crlf
      @ byte_str ''let NAME = EXPR;        bind constant'' @ crlf
      @ byte_str ''fn NAME() { ... }       define callable body'' @ crlf
      @ byte_str ''EXPR;                   evaluate (+ - * / % left-to-right)'' @ crlf
      @ byte_str ''sys_audit               dump SuperUser audit log'' @ crlf
      @ byte_str ''banner                  reprint banner'')"

definition do_claim :: "('e, 'h) platform \<Rightarrow> NameBuf \<Rightarrow> ('e, 'h, unit) act" where
  "do_claim P name k =
     (case resolve_name (as_slice name) of
       Some i \<Rightarrow>
         (let (got, r) = acquire (reg k) i; k = k\<lparr>reg := r\<rparr> in
          if got then
            try_then (put_str P (byte_str ''CAP CLAIMED '')) (try_then (put_str P (as_slice name))
              (try_then (put_str P (byte_str '' id='')) (try_then (put_dec P (of_nat i)) (put_str P [10])))) k
          else try_then (put_str P (byte_str ''CAP BUSY '')) (put_line P (as_slice name)) k)
     | None \<Rightarrow> try_then (put_str P (byte_str ''ERR UNKNOWN RESOURCE '')) (put_line P (as_slice name)) k)"

definition do_drop :: "('e, 'h) platform \<Rightarrow> NameBuf \<Rightarrow> ('e, 'h, unit) act" where
  "do_drop P name k =
     (case resolve_name (as_slice name) of
       Some i \<Rightarrow>
         if available (reg k) i then
           try_then (put_str P (byte_str ''CAP NOT HELD '')) (put_line P (as_slice name)) k
         else
           try_then (put_str P (byte_str ''CAP RELEASED '')) (put_line P (as_slice name)) (k\<lparr>reg := release (reg k) i\<rparr>)
     | None \<Rightarrow> try_then (put_str P (byte_str ''ERR UNKNOWN RESOURCE '')) (put_line P (as_slice name)) k)"

fun print_entries :: "('e, 'h) platform \<Rightarrow> AuditEntry list \<Rightarrow> ('e, 'h, unit) act" where
  "print_entries P [] = ok_with ()"
| "print_entries P (entry # es) =
     (if ae_addr entry \<noteq> 0 then
        try_then (put_str P (byte_str ''ADDR: '')) (try_then (put_hex P (ae_addr entry))
        (try_then (put_str P (byte_str '' | VAL: '')) (try_then (put_hex P (ae_val entry))
        (try_then (put_str P (byte_str '' | CYCLES: '')) (try_then (put_dec P (ae_cycles entry))
        (try_then (put_str P crlf) (print_entries P es)))))))
      else print_entries P es)"

definition handle_audit :: "('e, 'h) platform \<Rightarrow> ('e, 'h, unit) act" where
  "handle_audit P k =
     (let log0 = audit k in
      try_then (put_str P (byte_str ''--- SUPERUSER AUDIT LOG ---'' @ crlf))
      (try_then (put_str P (byte_str ''Total Unsafe Operations: ''))
      (try_then (put_dec P (of_nat (total_audits log0)))
      (try_then (put_str P (crlf @ byte_str ''Recent Events:'' @ crlf)) (print_entries P (entries log0))))) k)"

definition report :: "('e, 'h) platform \<Rightarrow> MemError + unit \<Rightarrow> ('e, 'h, unit) act" where
  "report P r = (case r of
     Inr _ \<Rightarrow> put_line P (byte_str ''OK'')
   | Inl e \<Rightarrow> try_then (put_str P (mem_error_bytes e)) (put_str P [10]))"

definition poke_and_report :: "('e, 'h) platform \<Rightarrow> u32 \<Rightarrow> u32 \<Rightarrow> ('e, 'h, unit) act" where
  "poke_and_report P addr val k =
     (let (r, l, h) = enforced_poke_u32 (target P) (reg k) (hw P) (audit k) addr val (io k)
      in report P r (k\<lparr>audit := l, io := h\<rparr>))"

text \<open>\<open>reg_set_bit\<close> and \<open>reg_clr_bit\<close>: the register is read first, unchecked, then the shift may
  panic, then the checked write.\<close>

definition change_bit :: "('e, 'h) platform \<Rightarrow> bool \<Rightarrow> (u32 \<Rightarrow> u32 \<Rightarrow> u32) \<Rightarrow> u32 \<Rightarrow> u32 \<Rightarrow> ('e, 'h, unit) act" where
  "change_bit P ovf f addr b k =
     (let (v, h) = peek_u32 (hw P) addr (io k); k = k\<lparr>io := h\<rparr> in
      case shl_one ovf b of
        None \<Rightarrow> (Inl (Panic (Some (byte_str ''attempt to shift left with overflow''))), k)
      | Some m \<Rightarrow> poke_and_report P addr (f v m) k)"

definition run_program :: "('e, 'h) platform \<Rightarrow> StreamProgram \<Rightarrow> ('e, 'h, unit) act" where
  "run_program P program k =
     (case program_run P program (vmach k) (ebuf k) (io k) of
       None \<Rightarrow> (Inl Hang, k)
     | Some (r, s, b, h) \<Rightarrow>
         (let k = k\<lparr>vmach := s, ebuf := b, io := h\<rparr> in
          case r of
            Inl _ \<Rightarrow> (Inl (Panic None), k)
          | Inr (Some value) \<Rightarrow> try_then (put_str P (byte_str ''= '')) (write_value P value) k
          | Inr None \<Rightarrow> put_line P (byte_str ''OK'') k))"

fun execute :: "('e, 'h) platform \<Rightarrow> bool \<Rightarrow> Outcome \<Rightarrow> ('e, 'h, unit) act" where
  "execute P ovf Empty k = (Inr (), k)"
| "execute P ovf Help k = print_help P k"
| "execute P ovf Banner k = put_str P BANNER k"
| "execute P ovf (Bound name value) k =
     try_then (put_str P (as_slice name)) (try_then (put_str P (byte_str '' = '')) (write_value P value)) k"
| "execute P ovf (FnDefined name) k =
     try_then (put_str P (byte_str ''FN '')) (try_then (put_str P (as_slice name)) (put_line P (byte_str '' DEFINED''))) k"
| "execute P ovf (Run program) k = run_program P program k"
| "execute P ovf (Claim name) k = do_claim P name k"
| "execute P ovf (Drop name) k = do_drop P name k"
| "execute P ovf (EnforcedPoke addr val) k = poke_and_report P addr val k"
| "execute P ovf (EnforcedPeek addr) k =
     (let (r, h) = enforced_peek_u32 (target P) (reg k) (hw P) addr (io k); k = k\<lparr>io := h\<rparr> in
      case r of
        Inr value \<Rightarrow> try_then (put_str P (byte_str ''= '')) (write_value P value) k
      | Inl e \<Rightarrow> try_then (put_str P (mem_error_bytes e)) (put_str P [10]) k)"
| "execute P ovf (SetBit addr b) k = change_bit P ovf (OR) addr b k"
| "execute P ovf (ClrBit addr b) k = change_bit P ovf (\<lambda>v m. v AND NOT m) addr b k"
| "execute P ovf SysAudit k = handle_audit P k"

section \<open>The loop\<close>

definition take_pending :: "('e, 'h) kern \<Rightarrow> (parse_fail + Outcome) option \<times> ('e, 'h) kern" where
  "take_pending k = (pending k, k\<lparr>pending := None\<rparr>)"

text \<open>The parser never runs out of fuel, so that case prints nothing.\<close>

definition print_pending :: "('e, 'h) platform \<Rightarrow> bool \<Rightarrow> (parse_fail + Outcome) option \<Rightarrow> ('e, 'h, unit) act" where
  "print_pending P ovf p = (case p of
     Some (Inr outcome) \<Rightarrow> execute P ovf outcome
   | Some (Inl (PE err)) \<Rightarrow> try_then (put_str P (byte_str ''ERR '')) (put_str P (error_text err))
   | Some (Inl OutOfFuel) \<Rightarrow> ok_with ()
   | None \<Rightarrow> ok_with ())"

definition enter :: "State \<Rightarrow> ('e, 'h, unit) act" where
  "enter s k = (Inr (), k\<lparr>rstate := s\<rparr>)"

definition poll_step :: "('e, 'h) platform \<Rightarrow> ('e, 'h, unit) act" where
  "poll_step P k =
     (let (b, h) = poll_get_byte (target P) (hw P) (io k); k = k\<lparr>io := h\<rparr> in
      case b of Some byte \<Rightarrow> try_bind (feed P byte) enter k | None \<Rightarrow> enter Reading k)"

text \<open>One turn of the loop of \<open>run\<close>.\<close>

definition repl_step :: "('e, 'h) platform \<Rightarrow> bool \<Rightarrow> ('e, 'h, unit) act" where
  "repl_step P ovf k = (case rstate k of
     Evaluating \<Rightarrow>
       (let (input, k) = take_line k; (p, k) = compile P input k in enter Printing (k\<lparr>pending := p\<rparr>))
   | Printing \<Rightarrow>
       (let (p, k) = take_pending k in
        try_then (print_pending P ovf p) (try_then (prompt P) (enter Idle)) k)
   | _ \<Rightarrow> poll_step P k)"

text \<open>The drain before the loop, which ends only if the receiver runs empty.\<close>

partial_function (option) drain :: "arch \<Rightarrow> 'h bus \<Rightarrow> 'h \<Rightarrow> 'h option" where
  "drain a B h =
     (if fst (poll_get_byte a B h) \<noteq> None then drain a B (snd (poll_get_byte a B h))
      else Some (snd (poll_get_byte a B h)))"

definition run_start :: "('e, 'h) platform \<Rightarrow> ('e, 'h, unit) act" where
  "run_start P =
     try_then (transmit (drain (target P) (hw P)))
       (\<lambda>k. prompt P (k\<lparr>rstate := Idle, pending := None\<rparr>))"

text \<open>\<open>n\<close> turns of the loop.\<close>

fun run_steps :: "('e, 'h) platform \<Rightarrow> bool \<Rightarrow> nat \<Rightarrow> ('e, 'h, unit) act" where
  "run_steps P ovf 0 = ok_with ()"
| "run_steps P ovf (Suc n) = try_then (repl_step P ovf) (run_steps P ovf n)"

end
