(* ===== verification/ReplLaws.thy ===== *)
theory ReplLaws
  imports Repl Session
begin

text \<open>
  Laws of the control loop: the invariant of the kernel state, which every turn preserves, and
  the only ways in which a turn can stop. What the loop needs of the back end is the locale
  \<open>machine\<close>, interpreted on both targets.
\<close>

section \<open>The invariant\<close>

definition kcore :: "('e, 'h) platform \<Rightarrow> ('e \<Rightarrow> bool) \<Rightarrow> ('e, 'h) kern \<Rightarrow> bool" where
  "kcore P bufok k \<longleftrightarrow>
     bufok (ebuf k)
     \<and> length (line_buf k) = LINE_MAX \<and> line_len k \<le> LINE_MAX
     \<and> list_all (\<lambda>b. 0x20 \<le> b \<and> b \<le> 0x7E) (take (line_len k) (line_buf k))
     \<and> wf_comp (layout P) (\<lambda>_. True) (compiler k)
     \<and> wf_registry (reg k)
     \<and> (\<exists>es. audit_rep es (audit k))"

definition kidle :: "('e, 'h) platform \<Rightarrow> ('e \<Rightarrow> bool) \<Rightarrow> ('e, 'h) kern \<Rightarrow> bool" where
  "kidle P bufok k \<longleftrightarrow> kcore P bufok k \<and> pending k = None"

definition pending_ok :: "('e, 'h) platform \<Rightarrow> (parse_fail + Outcome) option \<Rightarrow> bool" where
  "pending_ok P p \<longleftrightarrow> (case p of
     None \<Rightarrow> True
   | Some (Inl e) \<Rightarrow> e \<noteq> OutOfFuel
   | Some (Inr out) \<Rightarrow> outcome_ok (layout P) (\<lambda>_. True) (\<lambda>_. True) out)"

definition kinv :: "('e, 'h) platform \<Rightarrow> ('e \<Rightarrow> bool) \<Rightarrow> ('e, 'h) kern \<Rightarrow> bool" where
  "kinv P bufok k \<longleftrightarrow> kcore P bufok k \<and> (if rstate k = Printing then pending_ok P (pending k) else pending k = None)"

text \<open>How a turn may stop: the transmitter never becomes free, or, with overflow checks, a shift
  amount of 32 or more.\<close>

definition responsive :: "('e, 'h) platform \<Rightarrow> bool" where
  "responsive P \<longleftrightarrow> (\<exists>out. console (target P) (hw P) out)"

definition shift_panic :: stop where
  "shift_panic = Panic (Some (byte_str ''attempt to shift left with overflow''))"

definition stops_ok :: "('e, 'h) platform \<Rightarrow> bool \<Rightarrow> stop \<Rightarrow> bool" where
  "stops_ok P ovf e \<longleftrightarrow> e = Hang \<and> \<not> responsive P \<or> e = shift_panic \<and> ovf"

definition kerr :: "('e, 'h) platform \<Rightarrow> ('e \<Rightarrow> bool) \<Rightarrow> bool \<Rightarrow> stop \<Rightarrow> ('e, 'h) kern \<Rightarrow> bool" where
  "kerr P bufok ovf e k \<longleftrightarrow> kidle P bufok k \<and> stops_ok P ovf e"

definition ktriple :: "('e, 'h) platform \<Rightarrow> ('e \<Rightarrow> bool) \<Rightarrow> bool \<Rightarrow> ('e, 'h, 'a) act \<Rightarrow> ('a \<Rightarrow> bool) \<Rightarrow> bool" where
  "ktriple P bufok ovf m R \<longleftrightarrow> triple (kidle P bufok) m (\<lambda>x k. kidle P bufok k \<and> R x) (kerr P bufok ovf)"

text \<open>The rules that take an action apart.\<close>

named_theorems kvc

lemma kidle_update [simp]:
  "kidle P bufok (k\<lparr>io := h\<rparr>) = kidle P bufok k"
  "kidle P bufok (k\<lparr>rstate := st\<rparr>) = kidle P bufok k"
  "kidle P bufok k \<Longrightarrow> kidle P bufok (k\<lparr>line_len := 0\<rparr>)"
  "kidle P bufok k \<Longrightarrow> wf_registry r \<Longrightarrow> kidle P bufok (k\<lparr>reg := r\<rparr>)"
  "kidle P bufok k \<Longrightarrow> \<exists>es. audit_rep es l \<Longrightarrow> kidle P bufok (k\<lparr>audit := l\<rparr>)"
  "kidle P bufok k \<Longrightarrow> bufok b \<Longrightarrow> kidle P bufok (k\<lparr>vmach := s, ebuf := b\<rparr>)"
  by (auto simp: kidle_def kcore_def)

lemma ktriple_then [kvc]:
  "ktriple P bufok ovf m (\<lambda>_. True) \<Longrightarrow> ktriple P bufok ovf f R \<Longrightarrow> ktriple P bufok ovf (try_then m f) R"
  unfolding ktriple_def by (rule triple_then [where R = "kidle P bufok"]) simp_all

lemma ktriple_ok [kvc]: "R x \<Longrightarrow> ktriple P bufok ovf (ok_with x) R"
  unfolding ktriple_def by (rule triple_ok) simp

text \<open>An action that is a function of the state: updates, then the rest.\<close>

lemma ktripleI:
  assumes "\<And>k. kidle P bufok k \<Longrightarrow> \<exists>m k'. act k = m k' \<and> kidle P bufok k' \<and> ktriple P bufok ovf m R"
  shows "ktriple P bufok ovf act R"
  unfolding ktriple_def triple_def
proof (intro allI impI)
  fix k assume "kidle P bufok k"
  then obtain m k' where m: "act k = m k'" "kidle P bufok k'" "ktriple P bufok ovf m R" using assms by blast
  show "case act k of (Inr x, s') \<Rightarrow> kidle P bufok s' \<and> R x | (Inl e, s') \<Rightarrow> kerr P bufok ovf e s'"
    unfolding m(1) using m(2,3) by (simp only: ktriple_def triple_def)
qed

lemma ktriple_result:
  "(\<And>k. kidle P bufok k \<Longrightarrow> case act k of (Inr x, k') \<Rightarrow> kidle P bufok k' \<and> R x | (Inl e, k') \<Rightarrow> kerr P bufok ovf e k')
    \<Longrightarrow> ktriple P bufok ovf act R"
  by (auto simp: ktriple_def triple_def split: prod.splits sum.splits)

lemma ktripleD:
  assumes "ktriple P bufok ovf m R" and "kidle P bufok k" and "m k = (r, k')"
  shows "case r of Inr x \<Rightarrow> kidle P bufok k' \<and> R x | Inl e \<Rightarrow> kerr P bufok ovf e k'"
proof -
  have "case m k of (Inr x, k') \<Rightarrow> kidle P bufok k' \<and> R x | (Inl e, k') \<Rightarrow> kerr P bufok ovf e k'"
    using assms(1,2) by (simp only: ktriple_def triple_def)
  with assms(3) show ?thesis by (cases r) simp_all
qed

text \<open>Output.\<close>

lemma ktriple_transmit:
  assumes "responsive P \<Longrightarrow> \<forall>h. \<exists>h'. f h = Some h'"
  shows "ktriple P bufok ovf (transmit f) (\<lambda>_. True)"
proof (rule ktriple_result)
  fix k assume "kidle P bufok k"
  then show "case transmit f k of (Inr x, k') \<Rightarrow> kidle P bufok k' \<and> True | (Inl e, k') \<Rightarrow> kerr P bufok ovf e k'"
  proof (cases "f (io k)")
    case None
    with assms have "\<not> responsive P" by (metis option.distinct(1))
    with None \<open>kidle P bufok k\<close> show ?thesis by (simp add: transmit_def kerr_def stops_ok_def)
  qed (simp add: transmit_def)
qed

lemma ktriple_put [kvc]:
  "ktriple P bufok ovf (put_str P s) (\<lambda>_. True)" "ktriple P bufok ovf (put_line P s) (\<lambda>_. True)"
  "ktriple P bufok ovf (put_hex P v) (\<lambda>_. True)" "ktriple P bufok ovf (put_dec P v) (\<lambda>_. True)"
  "ktriple P bufok ovf (transmit (put_byte (target P) (hw P) b)) (\<lambda>_. True)"
proof -
  have w: "\<forall>h. \<exists>h'. write_str (target P) (hw P) s h = Some h'" if "responsive P" for s
    using that write_str_console by (fastforce simp: responsive_def)
  have b: "\<forall>h. \<exists>h'. put_byte (target P) (hw P) b h = Some h'" if "responsive P"
    using that put_byte_console by (fastforce simp: responsive_def)
  have l: "write_line (target P) (hw P) s = write_str (target P) (hw P) (s @ crlf)"
    by (rule ext) (simp add: write_line_def write_str_append)
  have x: "write_hex_u32 (target P) (hw P) v = write_str (target P) (hw P) (byte_str ''0x'' @ hex_digits v)"
    "write_dec_u32 (target P) (hw P) v = write_str (target P) (hw P) (dec_digits (unat v))"
    by (rule ext, simp add: write_hex_str write_dec_str)+
  show "ktriple P bufok ovf (put_str P s) (\<lambda>_. True)" "ktriple P bufok ovf (put_line P s) (\<lambda>_. True)"
    "ktriple P bufok ovf (put_hex P v) (\<lambda>_. True)" "ktriple P bufok ovf (put_dec P v) (\<lambda>_. True)"
    "ktriple P bufok ovf (transmit (put_byte (target P) (hw P) b)) (\<lambda>_. True)"
    unfolding put_str_def put_line_def put_hex_def put_dec_def l x
    by (rule ktriple_transmit; rule w b; assumption)+
qed

lemma ktriple_text [kvc]:
  "ktriple P bufok ovf (prompt P) (\<lambda>_. True)" "ktriple P bufok ovf (write_value P v) (\<lambda>_. True)"
  "ktriple P bufok ovf (erase_line P n) (\<lambda>_. True)" "ktriple P bufok ovf (print_help P) (\<lambda>_. True)"
  "ktriple P bufok ovf (print_entries P es) (\<lambda>_. True)" "ktriple P bufok ovf (report P r) (\<lambda>_. True)"
proof -
  show "ktriple P bufok ovf (erase_line P n) (\<lambda>_. True)" by (induction n) (simp_all add: kvc)
  show "ktriple P bufok ovf (print_entries P es) (\<lambda>_. True)" by (induction es) (simp_all add: kvc)
  show "ktriple P bufok ovf (report P r) (\<lambda>_. True)" by (cases r) (simp_all add: report_def kvc)
qed (simp_all add: prompt_def write_value_def print_help_def kvc)

section \<open>The line editor and the commands\<close>

lemma take_prefix: "list_all p (take n xs) \<Longrightarrow> m \<le> n \<Longrightarrow> list_all p (take m xs)"
  using set_take_subset_set_take [of m n xs] by (auto simp: list_all_iff)

lemma kidle_line:
  "kidle P bufok k \<Longrightarrow> len \<le> line_len k \<Longrightarrow> kidle P bufok (k\<lparr>line_len := len\<rparr>)"
  "kidle P bufok k \<Longrightarrow> line_len k < LINE_MAX \<Longrightarrow> 0x20 \<le> b \<Longrightarrow> b \<le> 0x7E \<Longrightarrow>
    kidle P bufok (k\<lparr>line_buf := (line_buf k)[line_len k := b], line_len := Suc (line_len k)\<rparr>)"
  by (auto simp: kidle_def kcore_def take_update_snoc intro: take_prefix)

lemma try_then_pure: "m k = (Inr x, k') \<Longrightarrow> try_then m f k = f k'"
  by (rule try_then_ok)

lemma ktriple_set_zero [kvc]: "ktriple P bufok ovf (set_line_len 0) (\<lambda>_. True)"
  by (rule ktriple_result) (simp add: set_line_len_def)

lemma ktriple_feed [kvc]: "ktriple P bufok ovf (feed P byte0) (\<lambda>st. st \<noteq> Printing)"
proof (rule ktripleI)
  fix k :: "('a, 'b) kern"
  assume k: "kidle P bufok k"
  define b where "b = (if byte0 = 9 then 0x20 else byte0)"
  define Q where "Q r \<longleftrightarrow> (\<exists>m k'. r = m k' \<and> kidle P bufok k' \<and> ktriple P bufok ovf m (\<lambda>st. st \<noteq> Printing))"
    for r :: "(stop + State) \<times> ('a, 'b) kern"
  have QI: "m k' = r \<Longrightarrow> kidle P bufok k' \<Longrightarrow> ktriple P bufok ovf m (\<lambda>st. st \<noteq> Printing) \<Longrightarrow> Q r" for m k' r
    by (auto simp: Q_def)
  have if_Q: "(c \<Longrightarrow> Q x) \<Longrightarrow> (\<not> c \<Longrightarrow> Q y) \<Longrightarrow> Q (if c then x else y)" for c x y by simp
  have ok: "ktriple P bufok ovf (ok_with st) (\<lambda>st. st \<noteq> Printing)" if "st \<noteq> Printing" for st
    by (rule ktriple_ok) (rule that)
  have stay: "Q (Inr Reading, k)"
    by (rule QI [of "ok_with Reading" k]) (simp_all add: k ok ok_with_def [of Reading k])
  have enter: "Q (try_then (put_str P crlf) (ok_with Evaluating) k)"
    by (rule QI [OF refl k]) (simp add: kvc ok)
  have erase: "Q (try_then (set_line_len (line_len k - 1)) (try_then (put_str P [8, 32, 8]) (ok_with Reading)) k)"
    by (rule QI [of "try_then (put_str P [8, 32, 8]) (ok_with Reading)" "k\<lparr>line_len := line_len k - 1\<rparr>"])
      (simp_all add: kvc ok set_line_len_def try_then_pure kidle_line(1) [OF k])
  have kill: "Q (try_then (erase_line P (line_len k)) (try_then (set_line_len 0) (ok_with Reading)) k)"
    by (rule QI [OF refl k]) (simp add: kvc ok)
  have cancel: "Q (try_then (set_line_len 0) (try_then (put_str P (byte_str ''^C'' @ crlf)) (try_then (prompt P) (ok_with Idle))) k)"
    by (rule QI [OF refl k]) (simp add: kvc ok)
  have char: "Q (try_then (store_byte (line_len k) b) (try_then (set_line_len (line_len k + 1))
      (try_then (transmit (put_byte (target P) (hw P) b)) (ok_with Reading))) k)"
    if "line_len k < LINE_MAX" "0x20 \<le> b" "b \<le> 0x7E"
    by (rule QI [of "try_then (transmit (put_byte (target P) (hw P) b)) (ok_with Reading)"
        "k\<lparr>line_buf := (line_buf k)[line_len k := b], line_len := Suc (line_len k)\<rparr>"])
      (simp_all add: kvc ok set_line_len_def store_byte_def try_then_pure kidle_line(2) [OF k that])
  have "Q (feed P byte0 k)"
    unfolding feed_def Let_def b_def [symmetric]
    by (intro if_Q stay enter erase kill cancel char) simp_all
  then show "\<exists>m k'. feed P byte0 k = m k' \<and> kidle P bufok k' \<and> ktriple P bufok ovf m (\<lambda>st. st \<noteq> Printing)"
    by (simp add: Q_def)
qed

lemma ktriple_state:
  assumes "\<And>k. kidle P bufok k \<Longrightarrow> ktriple P bufok ovf (m k) R \<and> kidle P bufok (g k)"
  shows "ktriple P bufok ovf (\<lambda>k. m k (g k)) R"
  by (rule ktripleI) (use assms in blast)

lemma wf_acquire: "wf_registry r \<Longrightarrow> acquire r i = (got, r') \<Longrightarrow> wf_registry r'"
  using wf_registry_ops(1) [of r i] by simp

lemma kidle_reg: "kidle P bufok k \<Longrightarrow> wf_registry (reg k)"
  by (simp add: kidle_def kcore_def)

lemma ktriple_claim [kvc]: "ktriple P bufok ovf (do_claim P name) (\<lambda>_. True)"
proof (cases "resolve_name (as_slice name)")
  case None
  then have "do_claim P name = try_then (put_str P (byte_str ''ERR UNKNOWN RESOURCE '')) (put_line P (as_slice name))"
    by (intro ext) (simp add: do_claim_def)
  then show ?thesis by (simp add: kvc)
next
  case (Some i)
  let ?m = "\<lambda>got. if got then try_then (put_str P (byte_str ''CAP CLAIMED '')) (try_then (put_str P (as_slice name))
      (try_then (put_str P (byte_str '' id='')) (try_then (put_dec P (of_nat i)) (put_str P [10]))))
    else try_then (put_str P (byte_str ''CAP BUSY '')) (put_line P (as_slice name))"
  have "do_claim P name = (\<lambda>k. ?m (fst (acquire (reg k) i)) (k\<lparr>reg := snd (acquire (reg k) i)\<rparr>))"
    by (rule ext) (simp add: do_claim_def Some split_beta Let_def)
  then show ?thesis
    by (simp only:, intro ktriple_state) (simp add: kvc kidle_reg)
qed

lemma ktriple_drop [kvc]: "ktriple P bufok ovf (do_drop P name) (\<lambda>_. True)"
proof (cases "resolve_name (as_slice name)")
  case None
  then have "do_drop P name = try_then (put_str P (byte_str ''ERR UNKNOWN RESOURCE '')) (put_line P (as_slice name))"
    by (intro ext) (simp add: do_drop_def)
  then show ?thesis by (simp add: kvc)
next
  case (Some i)
  let ?m = "\<lambda>free. if free then try_then (put_str P (byte_str ''CAP NOT HELD '')) (put_line P (as_slice name))
    else try_then (put_str P (byte_str ''CAP RELEASED '')) (put_line P (as_slice name))"
  have "do_drop P name = (\<lambda>k. ?m (available (reg k) i) (if available (reg k) i then k else k\<lparr>reg := release (reg k) i\<rparr>))"
    by (rule ext) (simp add: do_drop_def Some)
  then show ?thesis
    by (simp only:, intro ktriple_state) (simp add: kvc kidle_reg)
qed

lemma ktriple_audit [kvc]: "ktriple P bufok ovf (handle_audit P) (\<lambda>_. True)"
  unfolding handle_audit_def [abs_def] Let_def by (rule ktriple_state) (simp add: kvc)

text \<open>Checked writes keep the audit log a log.\<close>

lemma ktriple_poke [kvc]: "ktriple P bufok ovf (poke_and_report P addr val) (\<lambda>_. True)"
proof -
  let ?e = "\<lambda>k. enforced_poke_u32 (target P) (reg k) (hw P) (audit k) addr val (io k)"
  have "poke_and_report P addr val = (\<lambda>k. report P (fst (?e k)) (k\<lparr>audit := fst (snd (?e k)), io := snd (snd (?e k))\<rparr>))"
    by (rule ext) (simp add: poke_and_report_def split_beta)
  moreover have "\<exists>es. audit_rep es (fst (snd (?e k)))" if "kidle P bufok k" for k :: "('a, 'b) kern"
    using that by (auto simp: enforced_poke_cases kidle_def kcore_def record_event_def split_beta intro: audit_rep_push)
  ultimately show ?thesis
    by (simp only:, intro ktriple_state) (simp add: kvc)
qed

lemma ktriple_bit [kvc]: "ktriple P bufok ovf (change_bit P ovf f addr b) (\<lambda>_. True)"
proof (cases "shl_one ovf b")
  case None
  then have "ovf" by (auto simp: shl_one_def split: if_splits)
  with None show ?thesis
    by (intro ktriple_result) (simp add: change_bit_def split_beta Let_def kerr_def stops_ok_def shift_panic_def)
next
  case (Some m)
  then have "change_bit P ovf f addr b = (\<lambda>k. poke_and_report P addr (f (fst (peek_u32 (hw P) addr (io k))) m)
      (k\<lparr>io := snd (peek_u32 (hw P) addr (io k))\<rparr>))"
    by (intro ext) (simp add: change_bit_def split_beta Let_def)
  then show ?thesis by (simp only:, intro ktriple_state) (simp add: kvc)
qed

lemma ktriple_peek:
  "ktriple P bufok ovf (execute P ovf (EnforcedPeek addr)) (\<lambda>_. True)"
proof -
  let ?e = "\<lambda>k. enforced_peek_u32 (target P) (reg k) (hw P) addr (io k)"
  let ?m = "\<lambda>r. case r of Inr value \<Rightarrow> try_then (put_str P (byte_str ''= '')) (write_value P value)
    | Inl e \<Rightarrow> try_then (put_str P (mem_error_bytes e)) (put_str P [10])"
  have "execute P ovf (EnforcedPeek addr) = (\<lambda>k. ?m (fst (?e k)) (k\<lparr>io := snd (?e k)\<rparr>))"
    by (rule ext) (simp add: split_beta Let_def split: sum.split)
  moreover have "ktriple P bufok ovf (?m r) (\<lambda>_. True)" for r by (cases r) (simp_all add: kvc)
  ultimately show ?thesis by (simp only:, intro ktriple_state) simp
qed

section \<open>The back end, and a turn\<close>

text \<open>What the loop needs of the compiler's back end: the programs that the parser can return
  run to completion and leave the executable buffer usable.\<close>

locale machine =
  fixes P :: "('e, 'h) platform" and bufok :: "'e \<Rightarrow> bool"
  assumes run_law: "valid_layout (layout P) \<Longrightarrow> runnable (layout P) (\<lambda>_. True) p \<Longrightarrow> bufok b \<Longrightarrow>
    \<exists>r b' h'. program_run P p s b h = Some (Inr r, vm_reset s, b', h') \<and> bufok b'"
begin

lemma ktriple_run:
  assumes "valid_layout (layout P)" and "runnable (layout P) (\<lambda>_. True) p"
  shows "ktriple P bufok ovf (run_program P p) (\<lambda>_. True)"
proof (rule ktripleI)
  fix k assume k: "kidle P bufok k"
  then obtain r b' h' where r: "program_run P p (vmach k) (ebuf k) (io k) = Some (Inr r, vm_reset (vmach k), b', h')" "bufok b'"
    using run_law [OF assms, of "ebuf k" "vmach k" "io k"] by (auto simp: kidle_def kcore_def)
  let ?k = "k\<lparr>vmach := vm_reset (vmach k), ebuf := b', io := h'\<rparr>"
  have k': "kidle P bufok ?k" using k r(2) by (simp add: kidle_def kcore_def)
  show "\<exists>m k'. run_program P p k = m k' \<and> kidle P bufok k' \<and> ktriple P bufok ovf m (\<lambda>_. True)"
  proof (cases r)
    case None
    then show ?thesis using k' r(1)
      by (intro exI [of _ "put_line P (byte_str ''OK'')"] exI [of _ ?k]) (simp add: run_program_def kvc)
  next
    case (Some v)
    then show ?thesis using k' r(1)
      by (intro exI [of _ "try_then (put_str P (byte_str ''= '')) (write_value P v)"] exI [of _ ?k])
        (simp add: run_program_def kvc)
  qed
qed

lemma ktriple_execute:
  assumes "valid_layout (layout P)" and "outcome_ok (layout P) (\<lambda>_. True) G out"
  shows "ktriple P bufok ovf (execute P ovf out) (\<lambda>_. True)"
proof (cases out)
  case (EnforcedPeek a)
  then show ?thesis by (simp only: ktriple_peek)
qed (use assms in \<open>auto simp: execute.simps [abs_def] kvc ktriple_run\<close>)

lemma ktriple_pending: "valid_layout (layout P) \<Longrightarrow> pending_ok P p \<Longrightarrow> ktriple P bufok ovf (print_pending P ovf p) (\<lambda>_. True)"
  by (auto simp: pending_ok_def print_pending_def kvc ktriple_execute split: option.splits sum.splits parse_fail.splits)

text \<open>One turn, from any state of the invariant.\<close>

lemma kidle_kinv: "kidle P bufok k \<Longrightarrow> kinv P bufok k"
  by (simp add: kidle_def kinv_def pending_ok_def)

lemma poll_inv:
  assumes "kidle P bufok k" and "poll_step P k = (r, k')"
  shows "kinv P bufok k' \<and> (case r of Inr _ \<Rightarrow> True | Inl e \<Rightarrow> stops_ok P ovf e)"
proof -
  let ?k = "k\<lparr>io := snd (poll_get_byte (target P) (hw P) (io k))\<rparr>"
  have k: "kidle P bufok ?k" using assms(1) by simp
  have ent: "kidle P bufok k \<Longrightarrow> kinv P bufok (k\<lparr>rstate := st\<rparr>)" for k st by (rule kidle_kinv) simp
  show ?thesis
  proof (cases "fst (poll_get_byte (target P) (hw P) (io k))")
    case None
    then show ?thesis using assms(2) k ent by (auto simp: poll_step_def split_beta Let_def enter_def)
  next
    case (Some byte)
    then have "try_bind (feed P byte) enter ?k = (r, k')"
      using assms(2) by (simp add: poll_step_def split_beta Let_def)
    moreover obtain r1 k1 where f: "feed P byte ?k = (r1, k1)" by (cases "feed P byte ?k")
    ultimately show ?thesis
      using ktripleD [OF ktriple_feed k f, of ovf] ent kidle_kinv
      by (cases r1) (auto simp: try_bind_def enter_def kerr_def)
  qed
qed

lemma compile_inv:
  assumes "kidle P bufok k"
  shows "\<exists>p k1. compile P (fst (take_line k)) (snd (take_line k)) = (p, k1) \<and> kidle P bufok k1 \<and> pending_ok P p"
proof (cases "fst (take_line k) = []")
  case True
  then show ?thesis using assms by (simp add: compile_def take_line_def kidle_def kcore_def pending_ok_def)
next
  case False
  obtain res c h where p: "parse P (reg k) (fst (take_line k)) (compiler k) (io k) = (res, c, h)"
    by (cases "parse P (reg k) (fst (take_line k)) (compiler k) (io k)")
  have "wf_comp (layout P) (\<lambda>_. True) (compiler k)" using assms by (simp add: kidle_def kcore_def)
  note ps = parse_sound [OF this _ p]
  have "pending_ok P (Some res)"
  proof (cases res)
    case (Inr out)
    then have "outcome_ok (layout P) (\<lambda>_. True) (granted P (reg k)) out" using ps(4) by simp
    then show ?thesis using Inr by (cases out) (simp_all add: pending_ok_def)
  qed (use ps(3) in \<open>auto simp: pending_ok_def\<close>)
  then show ?thesis using assms False p ps(1)
    by (auto simp: compile_def take_line_def kidle_def kcore_def split_beta Let_def)
qed

lemma step_inv:
  assumes "kinv P bufok k" and "repl_step P ovf k = (r, k')" and "valid_layout (layout P)"
  shows "kinv P bufok k' \<and> (case r of Inr _ \<Rightarrow> True | Inl e \<Rightarrow> stops_ok P ovf e)"
proof (cases "rstate k")
  case Evaluating
  then have "kidle P bufok k" using assms(1) by (simp add: kinv_def kidle_def)
  from compile_inv [OF this] show ?thesis using assms(2) Evaluating
    by (auto simp: repl_step_def split_beta Let_def enter_def kinv_def kidle_def kcore_def)
next
  case Printing
  let ?k = "k\<lparr>pending := None\<rparr>" and ?m = "try_then (print_pending P ovf (pending k)) (try_then (prompt P) (enter Idle))"
  have k: "kidle P bufok ?k" "pending_ok P (pending k)"
    using assms(1) Printing by (simp_all add: kinv_def kidle_def kcore_def)
  moreover have "ktriple P bufok ovf (enter Idle) (\<lambda>_. True)"
    by (rule ktriple_result) (simp add: enter_def)
  ultimately have "ktriple P bufok ovf ?m (\<lambda>_. True)" by (simp add: kvc ktriple_pending assms(3))
  moreover have "?m ?k = (r, k')" using assms(2) Printing by (simp add: repl_step_def take_pending_def)
  ultimately show ?thesis using ktripleD [of P bufok ovf _ "\<lambda>_. True" ?k r k'] k(1) kidle_kinv
    by (cases r) (auto simp: kerr_def)
qed (rule poll_inv [where k = k]; use assms(1,2) in \<open>simp add: kinv_def kidle_def repl_step_def\<close>)+

lemma steps_inv:
  "kinv P bufok k \<Longrightarrow> run_steps P ovf n k = (r, k') \<Longrightarrow> valid_layout (layout P) \<Longrightarrow>
    kinv P bufok k' \<and> (case r of Inr _ \<Rightarrow> True | Inl e \<Rightarrow> stops_ok P ovf e)"
proof (induction n arbitrary: k)
  case (Suc n)
  obtain r1 k1 where k1: "repl_step P ovf k = (r1, k1)" by (cases "repl_step P ovf k")
  note step = step_inv [OF Suc.prems(1) k1 Suc.prems(3)]
  show ?case
  proof (cases r1)
    case (Inl e)
    then show ?thesis using step k1 Suc.prems(2) by (auto simp: try_then_err)
  next
    case (Inr u)
    then show ?thesis using step k1 Suc.prems(2,3) Suc.IH [of k1] by (auto simp: try_then_ok)
  qed
qed (auto simp: ok_with_def)

end

lemma runnable_ops:
  assumes "runnable lay A p"
  shows "\<exists>ops junk y. p = stream_of lay ops junk y \<and> list_all no_div ops \<and> length ops \<le> FN_BODY_WORDS"
proof -
  have stmts: "list_all no_div (body_ops ss) \<and> length (body_ops ss) \<le> length (enc lay (body_ops ss))" for ss
  proof (induction ss)
    case (Cons x ss)
    then show ?case by (cases x) (auto simp: poke_ops_def)
  qed simp
  from assms consider (v) v where "p = value_program lay v"
    | (ss) ss where "p = call_program lay ss" "length (enc lay (body_ops ss)) \<le> FN_BODY_WORDS"
    by (auto simp: runnable_def)
  then show ?thesis
  proof cases
    case v
    then show ?thesis unfolding value_program_def
      by (intro exI [of _ "[Push v]"]) (auto simp: FN_BODY_WORDS_def)
  next
    case ss
    then show ?thesis using stmts [of ss] unfolding call_program_def by (intro exI [of _ "body_ops ss"]) auto
  qed
qed

interpretation arm_machine: machine "arm_platform lay B r0" "\<lambda>b. 2048 \<le> length (em_buf b)" for lay B r0
proof
  fix p s h and b :: Thumb2Emitter
  assume "valid_layout (layout (arm_platform lay B r0))" "runnable (layout (arm_platform lay B r0)) (\<lambda>_. True) p"
    and b: "2048 \<le> length (em_buf b)"
  then have lay: "valid_layout lay" and "runnable lay (\<lambda>_. True) p" by (simp_all add: arm_platform_def)
  from runnable_ops [OF this(2)] obtain ops junk y
    where p: "p = stream_of lay ops junk y" "list_all no_div ops" "length ops \<le> FN_BODY_WORDS" by blast
  then have "length ops < 512" by (simp add: FN_BODY_WORDS_def)
  from arm_program_run [OF lay p(2) b this, of B r0 junk y s h]
  show "\<exists>r b' h'. program_run (arm_platform lay B r0) p s b h = Some (Inr r, vm_reset s, b', h') \<and> 2048 \<le> length (em_buf b')"
    unfolding p(1) by blast
qed

interpretation riscv_machine: machine "riscv_platform lay B r0" "\<lambda>b. 256 \<le> length (em_buf b)" for lay B r0
proof
  fix p s h and b :: Riscv32Emitter
  assume "valid_layout (layout (riscv_platform lay B r0))" "runnable (layout (riscv_platform lay B r0)) (\<lambda>_. True) p"
    and b: "256 \<le> length (em_buf b)"
  then have lay: "valid_layout lay" and "runnable lay (\<lambda>_. True) p" by (simp_all add: riscv_platform_def)
  from runnable_ops [OF this(2)] obtain ops junk y
    where p: "p = stream_of lay ops junk y" "list_all no_div ops" "length ops \<le> FN_BODY_WORDS" by blast
  then have "length ops < 64" by (simp add: FN_BODY_WORDS_def)
  from riscv_program_run [OF lay p(2) b this, of B r0 junk y s h]
  show "\<exists>r b' h'. program_run (riscv_platform lay B r0) p s b h = Some (Inr r, vm_reset s, b', h') \<and> 256 \<le> length (em_buf b')"
    unfolding p(1) by blast
qed

end
