(* ===== verification/Boot.thy ===== *)
theory Boot
  imports ReplLaws Interrupt
begin

text \<open>
  Reset, boot and panic (src/main.rs). Boot initialises memory, brings the console up, prints
  the banner, relocates the vectors and enters the control loop. The registry and the
  executable buffer lie in sections that the startup code does not initialise, so their first
  contents are arguments.
\<close>

definition kern_init :: "registry \<Rightarrow> 'e \<Rightarrow> 'h \<Rightarrow> ('e, 'h) kern" where
  "kern_init r0 e0 h =
     \<lparr>rstate = Idle, pending = None, line_buf = replicate LINE_MAX 0, line_len = 0, compiler = compiler_new,
      reg = r0, audit = audit_new, vmach = vm_init, ebuf = e0, io = h\<rparr>"

definition on_io :: "('h \<Rightarrow> 'h) \<Rightarrow> ('e, 'h, unit) act" where
  "on_io f k = (Inr (), k\<lparr>io := f (io k)\<rparr>)"

text \<open>\<open>boot\<close> up to the first prompt; the loop follows.\<close>

definition boot :: "('e, 'h) platform \<Rightarrow> (u32 \<Rightarrow> 'h \<Rightarrow> 'h) \<Rightarrow> irq_layout \<Rightarrow> ('e, 'h, unit) act" where
  "boot P csrw l =
     try_then (on_io (uart_init (target P) (hw P)))
     (try_then (put_str P BANNER)
     (try_then (on_io (boot_relocate_vectors (target P) (hw P) csrw l)) (run_start P)))"

text \<open>\<open>Reset\<close> on ARM, where the core has loaded the stack pointer.\<close>

definition Reset :: "('e, 'h) platform \<Rightarrow> linker \<Rightarrow> (u32 \<Rightarrow> 'h \<Rightarrow> 'h) \<Rightarrow> irq_layout \<Rightarrow> registry \<Rightarrow> 'e \<Rightarrow> 'h
    \<Rightarrow> (stop + unit) \<times> ('e, 'h) kern" where
  "Reset P sections csrw l r0 e0 h =
     (case init_data_bss (hw P) sections h of
       None \<Rightarrow> (Inl Hang, kern_init r0 e0 h)
     | Some h' \<Rightarrow> boot P csrw l (kern_init r0 e0 h'))"

text \<open>\<open>rust_boot_riscv\<close>, which the RISC-V \<open>Reset\<close> jumps to once the two pointers are set.\<close>

definition rust_boot_riscv :: "('e, 'h) platform \<Rightarrow> linker \<Rightarrow> (u32 \<Rightarrow> 'h \<Rightarrow> 'h) \<Rightarrow> irq_layout \<Rightarrow> registry \<Rightarrow> 'e \<Rightarrow> 'h
    \<Rightarrow> (stop + unit) \<times> ('e, 'h) kern" where
  "rust_boot_riscv P sections csrw l r0 e0 h =
     (case init_data_bss (hw P) sections h of
       None \<Rightarrow> (Inl Hang, kern_init r0 e0 h)
     | Some h' \<Rightarrow> boot P csrw l (kern_init r0 e0 h'))"

text \<open>The panic handler prints and parks: \<open>Inr\<close> is the parked core.\<close>

definition panic :: "('e, 'h) platform \<Rightarrow> u8 list option \<Rightarrow> ('e, 'h, unit) act" where
  "panic P message =
     try_then (put_str P (10 # byte_str ''PANIC: ''))
     (try_then (case message of Some msg \<Rightarrow> put_str P msg | None \<Rightarrow> put_str P (byte_str ''(no message)''))
       (put_str P [10]))"

text \<open>A turn of the loop as the machine sees it: a panic goes to the handler.\<close>

definition turn :: "('e, 'h) platform \<Rightarrow> bool \<Rightarrow> ('e, 'h, unit) act" where
  "turn P ovf k = (case repl_step P ovf k of
     (Inl (Panic m), k') \<Rightarrow> (case panic P m k' of (Inr _, k2) \<Rightarrow> (Inl (Panic m), k2) | (Inl e, k2) \<Rightarrow> (Inl e, k2))
   | r \<Rightarrow> r)"

end
