(* ===== verification/Traffic.thy ===== *)
theory Traffic
  imports Repl
begin

text \<open>
  Which registers an action of the control loop reads and writes. \<open>touches\<close> relates two hardware
  states by bus accesses that stay within a set of reads and a set of writes, \<open>held\<close> says so of
  an action; \<open>via\<close> and \<open>stays\<close> leave the reads free. Everything that only talks to the terminal
  reads and writes nothing but the registers of the UART.
\<close>

section \<open>Bus accesses\<close>

inductive touches :: "'h bus \<Rightarrow> (u32 \<Rightarrow> bool) \<Rightarrow> (u32 \<Rightarrow> bool) \<Rightarrow> 'h \<Rightarrow> 'h \<Rightarrow> bool"
  for B :: "'h bus" and R W :: "u32 \<Rightarrow> bool" and h0 :: 'h where
  here [simp, intro]: "touches B R W h0 h0"
| reading [intro]: "touches B R W h0 h \<Longrightarrow> R a \<Longrightarrow> touches B R W h0 (snd (rd B a h))"
| counting [intro]: "touches B R W h0 h \<Longrightarrow> touches B R W h0 (snd (mcycle B h))"
| writing [intro]: "touches B R W h0 h \<Longrightarrow> W a \<Longrightarrow> touches B R W h0 (wr B a v h)"

abbreviation via :: "'h bus \<Rightarrow> (u32 \<Rightarrow> bool) \<Rightarrow> 'h \<Rightarrow> 'h \<Rightarrow> bool" where
  "via B \<equiv> touches B (\<lambda>_. True)"

lemma via_trans: "touches B R W h1 h2 \<Longrightarrow> touches B R W h0 h1 \<Longrightarrow> touches B R W h0 h2"
  by (induction rule: touches.induct) auto

text \<open>On a traced bus the accesses are what the trace grew by.\<close>

fun allowed :: "(u32 \<Rightarrow> bool) \<Rightarrow> (u32 \<Rightarrow> bool) \<Rightarrow> access \<Rightarrow> bool" where
  "allowed R W (Rd a v) = R a"
| "allowed R W (Wr a v) = W a"

lemma touches_traced:
  "touches (traced B) R W h0 h \<Longrightarrow> \<exists>s. snd h = snd h0 @ s \<and> list_all (allowed R W) s"
proof (induction rule: touches.induct)
  case here
  show ?case by (rule exI [of _ "[]"]) simp
next
  case (reading h a)
  then obtain s where "snd h = snd h0 @ s" "list_all (allowed R W) s" by blast
  with reading.hyps show ?case by (intro exI [of _ "s @ [Rd a (fst (rd B a (fst h)))]"]) (cases h, auto simp: traced_simps)
next
  case (counting h)
  then show ?case by (cases h) (auto simp: traced_simps)
next
  case (writing h a v)
  then obtain s where "snd h = snd h0 @ s" "list_all (allowed R W) s" by blast
  with writing.hyps show ?case by (intro exI [of _ "s @ [Wr a v]"]) (cases h, auto simp: traced_simps)
qed

lemma via_traced:
  assumes "via (traced B) W h0 h"
  shows "\<exists>s. snd h = snd h0 @ s \<and> (\<forall>a v. Wr a v \<in> set s \<longrightarrow> W a)"
proof -
  obtain s where s: "snd h = snd h0 @ s" "list_all (allowed (\<lambda>_. True) W) s" using touches_traced [OF assms] by blast
  have "W a" if "Wr a v \<in> set s" for a v using s(2) that by (auto simp: list_all_iff)
  with s(1) show ?thesis by blast
qed

section \<open>Output\<close>

text \<open>The registers that receiving and waiting read.\<close>

fun polled :: "arch \<Rightarrow> (u32 \<Rightarrow> bool) \<Rightarrow> bool" where
  "polled Arm R \<longleftrightarrow> R mmio_SR \<and> R mmio_DR"
| "polled Riscv32 R \<longleftrightarrow> R mmio_RXDATA"

lemma polled_all: "polled a (\<lambda>_. True)" by (cases a) simp_all

fun console_reads :: "arch \<Rightarrow> u32 \<Rightarrow> bool" where
  "console_reads Arm a \<longleftrightarrow> a = mmio_SR \<or> a = mmio_DR"
| "console_reads Riscv32 a \<longleftrightarrow> a = mmio_RXDATA"

lemma polled_console: "polled a (console_reads a)" by (cases a) simp_all

lemma wait_tx_touches:
  assumes "R mmio_SR"
  shows "wait_tx B h = Some h' \<Longrightarrow> touches B R W h h'"
proof (rule wait_tx.raw_induct [of "\<lambda>B h h'. touches B R W h h'"])
  fix w B h h'
  assume IH: "\<And>B h y. w B h = Some y \<Longrightarrow> touches B R W h y"
    and "(if fst (peek_u32 B mmio_SR h) AND SR_TXE = 0 then w B (snd (peek_u32 B mmio_SR h))
      else Some (snd (peek_u32 B mmio_SR h))) = Some h'"
  moreover have "touches B R W h (snd (rd B mmio_SR h))" using assms by (intro reading) simp_all
  ultimately show "touches B R W h h'" by (auto simp: peek_u32_def split: if_splits intro: via_trans)
qed

lemma put_byte_touches: "put_byte a B b h = Some h' \<Longrightarrow> polled a R \<Longrightarrow> W (tx_reg a) \<Longrightarrow> touches B R W h h'"
  by (cases a) (auto simp: poke_u32_def intro: wait_tx_touches)

lemma write_str_touches: "write_str a B s h = Some h' \<Longrightarrow> polled a R \<Longrightarrow> W (tx_reg a) \<Longrightarrow> touches B R W h h'"
  by (induction s arbitrary: h) (auto simp: bind_eq_Some_conv intro: via_trans put_byte_touches)

lemma poll_touches: "polled a R \<Longrightarrow> touches B R W h (snd (poll_get_byte a B h))"
  by (cases a) (auto simp: split_beta Let_def peek_u32_def)

section \<open>Actions\<close>

definition held :: "('e, 'h) platform \<Rightarrow> (u32 \<Rightarrow> bool) \<Rightarrow> (u32 \<Rightarrow> bool) \<Rightarrow> ('e, 'h, 'a) act \<Rightarrow> bool" where
  "held P R W m \<longleftrightarrow> (\<forall>k. touches (hw P) R W (io k) (io (snd (m k))))"

abbreviation stays :: "('e, 'h) platform \<Rightarrow> (u32 \<Rightarrow> bool) \<Rightarrow> ('e, 'h, 'a) act \<Rightarrow> bool" where
  "stays P \<equiv> held P (\<lambda>_. True)"

lemmas stays_def = held_def

lemma staysD: "held P R W m \<Longrightarrow> io k' = h \<Longrightarrow> touches (hw P) R W h (io (snd (m k')))"
  by (auto simp: held_def)

named_theorems stay \<open>which registers actions read and write\<close>

lemma stays_bind [stay]:
  assumes "held P R W m" and "\<And>x. held P R W (f x)"
  shows "held P R W (try_bind m f)"
  unfolding held_def
proof
  fix k
  have "touches (hw P) R W (io k) (io (snd (m k)))" using assms(1) by (simp add: held_def)
  moreover have "touches (hw P) R W (io k1) (io (snd (f x k1)))" for x k1 using assms(2) by (simp add: held_def)
  ultimately show "touches (hw P) R W (io k) (io (snd (try_bind m f k)))"
    by (cases "m k"; cases "fst (m k)") (auto simp: try_bind_def intro: via_trans)
qed

lemma stays_then [stay]: "held P R W m \<Longrightarrow> held P R W f \<Longrightarrow> held P R W (try_then m f)"
  unfolding try_then_def by (rule stays_bind)

lemma stays_ok [stay]: "held P R W (ok_with x)" "held P R W (enter st)" "held P R W (set_line_len n)" "held P R W (store_byte n b)"
  by (simp_all add: held_def ok_with_def enter_def set_line_len_def store_byte_def)

lemma held_transmit: "(\<And>h h'. f h = Some h' \<Longrightarrow> touches (hw P) R W h h') \<Longrightarrow> held P R W (transmit f)"
  by (auto simp: held_def transmit_def split: option.split)

lemma held_put:
  assumes "polled (target P) R" and "W (tx_reg (target P))"
  shows "held P R W (put_str P s)" "held P R W (put_line P s)" "held P R W (put_hex P v)" "held P R W (put_dec P v)"
    "held P R W (transmit (put_byte (target P) (hw P) b))" "held P R W (prompt P)" "held P R W (write_value P v)"
    "held P R W (erase_line P n)" "held P R W (print_help P)" "held P R W (print_entries P es)" "held P R W (report P r)"
proof -
  show str: "held P R W (put_str P s)" for s
    unfolding put_str_def by (intro held_transmit write_str_touches) (use assms in simp_all)
  show line: "held P R W (put_line P s)" for s
    unfolding put_line_def write_line_def [abs_def] write_str_append [symmetric]
    by (intro held_transmit write_str_touches) (use assms in simp_all)
  show hex: "held P R W (put_hex P v)" for v
    unfolding put_hex_def by (rule held_transmit, simp only: write_hex_str, rule write_str_touches) (use assms in simp_all)
  show dec: "held P R W (put_dec P v)" for v
    unfolding put_dec_def by (rule held_transmit, simp only: write_dec_str, rule write_str_touches) (use assms in simp_all)
  show "held P R W (transmit (put_byte (target P) (hw P) b))"
    by (intro held_transmit put_byte_touches) (use assms in simp_all)
  show "held P R W (prompt P)" "held P R W (write_value P v)" "held P R W (print_help P)"
    by (simp_all add: prompt_def write_value_def print_help_def stay str line hex dec)
  show "held P R W (erase_line P n)" by (induction n) (simp_all add: stay str)
  show "held P R W (print_entries P es)" by (induction es) (simp_all add: stay str hex dec)
  show "held P R W (report P r)" by (cases r) (simp_all add: report_def stay str line)
qed

lemmas stays_put [stay] = held_put [OF polled_all]

text \<open>An action that reads the state and updates it before the rest.\<close>

lemma stays_state:
  assumes "\<And>k. touches (hw P) R W (io k) (io (g k))" and "\<And>x. held P R W (m x)"
  shows "held P R W (\<lambda>k. m (f k) (g k))"
  using assms unfolding held_def by (metis via_trans)

lemma stays_if: "(b \<Longrightarrow> held P R W m) \<Longrightarrow> (\<not> b \<Longrightarrow> held P R W m') \<Longrightarrow> held P R W (if b then m else m')"
  by simp

lemma held_feed:
  assumes "polled (target P) R" and "W (tx_reg (target P))"
  shows "held P R W (feed P b)"
proof -
  define c where "c = (if b = 9 then 0x20 else b)"
  let ?m = "\<lambda>len. if c = 13 \<or> c = 10 then try_then (put_str P crlf) (ok_with Evaluating)
      else if c = 8 \<or> c = 0x7F then
        (if 0 < len then try_then (set_line_len (len - 1)) (try_then (put_str P [8, 32, 8]) (ok_with Reading)) else ok_with Reading)
      else if c = 0x15 then try_then (erase_line P len) (try_then (set_line_len 0) (ok_with Reading))
      else if c = 3 then try_then (set_line_len 0) (try_then (put_str P (byte_str ''^C'' @ crlf)) (try_then (prompt P) (ok_with Idle)))
      else if 0x20 \<le> c \<and> c \<le> 0x7E then
        (if len < LINE_MAX then try_then (store_byte len c) (try_then (set_line_len (len + 1))
             (try_then (transmit (put_byte (target P) (hw P) c)) (ok_with Reading)))
         else ok_with Reading)
      else ok_with Reading"
  have "feed P b = (\<lambda>k. ?m (line_len k) k)"
    by (rule ext) (simp add: feed_def Let_def c_def [symmetric] ok_with_def)
  moreover have "held P R W (?m len)" for len
    by (intro stays_if stays_then stays_ok held_put assms)
  ultimately show ?thesis by (simp only:) (rule stays_state, rule here)
qed

lemmas stays_feed [stay] = held_feed [OF polled_all]

lemma held_claim:
  assumes "polled (target P) R" and "W (tx_reg (target P))"
  shows "held P R W (do_claim P name)" "held P R W (do_drop P name)" "held P R W (handle_audit P)"
proof -
  let ?unknown = "try_then (put_str P (byte_str ''ERR UNKNOWN RESOURCE '')) (put_line P (as_slice name))"
  let ?claim = "\<lambda>c. case c of None \<Rightarrow> ?unknown | Some (i, got) \<Rightarrow>
    if got then try_then (put_str P (byte_str ''CAP CLAIMED '')) (try_then (put_str P (as_slice name))
      (try_then (put_str P (byte_str '' id='')) (try_then (put_dec P (of_nat i)) (put_str P [10]))))
    else try_then (put_str P (byte_str ''CAP BUSY '')) (put_line P (as_slice name))"
  let ?drop = "\<lambda>c. case c of None \<Rightarrow> ?unknown | Some free \<Rightarrow>
    if free then try_then (put_str P (byte_str ''CAP NOT HELD '')) (put_line P (as_slice name))
    else try_then (put_str P (byte_str ''CAP RELEASED '')) (put_line P (as_slice name))"
  let ?id = "resolve_name (as_slice name)"
  have 1: "do_claim P name = (\<lambda>k. ?claim (map_option (\<lambda>i. (i, fst (acquire (reg k) i))) ?id)
      (case ?id of None \<Rightarrow> k | Some i \<Rightarrow> k\<lparr>reg := snd (acquire (reg k) i)\<rparr>))"
    by (rule ext) (simp add: do_claim_def split_beta Let_def split: option.split)
  have 2: "do_drop P name = (\<lambda>k. ?drop (map_option (\<lambda>i. available (reg k) i) ?id)
      (case ?id of None \<Rightarrow> k | Some i \<Rightarrow> if available (reg k) i then k else k\<lparr>reg := release (reg k) i\<rparr>))"
    by (rule ext) (simp add: do_drop_def split: option.split)
  have "held P R W (?claim c)" for c by (simp add: stay held_put assms split: option.split prod.split)
  then show "held P R W (do_claim P name)"
    unfolding 1 by (rule stays_state [rotated]) (simp split: option.split)
  have "held P R W (?drop c)" for c by (simp add: stay held_put assms split: option.split)
  then show "held P R W (do_drop P name)"
    unfolding 2 by (rule stays_state [rotated]) (simp split: option.split)
  show "held P R W (handle_audit P)"
    unfolding handle_audit_def [abs_def] Let_def by (rule stays_state) (simp_all add: stay held_put assms)
qed

lemmas stays_claim [stay] = held_claim [OF polled_all]

text \<open>Taking a byte from the terminal.\<close>

lemma held_poll:
  fixes P :: "('e, 'h) platform"
  assumes "polled (target P) R" and "W (tx_reg (target P))"
  shows "held P R W (poll_step P)"
  unfolding held_def
proof
  fix k :: "('e, 'h) kern"
  let ?p = "poll_get_byte (target P) (hw P) (io k)"
  have "held P R W (case fst ?p of Some byte \<Rightarrow> try_bind (feed P byte) enter | None \<Rightarrow> enter Reading)"
    using held_feed [of P R W, OF assms] by (simp add: stay split: option.split)
  from staysD [OF this, of "k\<lparr>io := snd ?p\<rparr>" "snd ?p"] show "touches (hw P) R W (io k) (io (snd (poll_step P k)))"
    using via_trans [OF _ poll_touches [OF assms(1)]] by (auto simp: poll_step_def split_beta Let_def split: option.splits)
qed

lemmas stays_poll [stay] = held_poll [OF polled_all]

section \<open>Memory cells\<close>

text \<open>An address whose last written value the hardware keeps, whatever happens elsewhere.\<close>

definition cell :: "'h bus \<Rightarrow> u32 \<Rightarrow> ('h \<Rightarrow> u32) \<Rightarrow> bool" where
  "cell B a mem \<longleftrightarrow> (\<forall>h v. mem (wr B a v h) = v) \<and> (\<forall>h b v. b \<noteq> a \<longrightarrow> mem (wr B b v h) = mem h)
     \<and> (\<forall>h b. mem (snd (rd B b h)) = mem h) \<and> (\<forall>h. mem (snd (mcycle B h)) = mem h)"

lemma cell_via: "touches B R W h0 h \<Longrightarrow> cell B a mem \<Longrightarrow> \<not> W a \<Longrightarrow> mem h = mem h0"
proof (induction rule: touches.induct)
  case (writing h b v)
  then have "b \<noteq> a" by blast
  with writing show ?case by (simp add: cell_def)
qed (simp_all add: cell_def)

section \<open>Platforms on a traced bus\<close>

lemma platform_parts:
  "hw (arm_platform lay B r0) = B" "target (arm_platform lay B r0) = Arm" "layout (arm_platform lay B r0) = lay"
  "hw (riscv_platform lay B r0) = B" "target (riscv_platform lay B r0) = Riscv32" "layout (riscv_platform lay B r0) = lay"
  by (simp_all add: arm_platform_def riscv_platform_def)

text \<open>Tracing a bus does not change what is behind it.\<close>

lemma traced_serial:
  assumes "console a B out" and "keyboard a B inp"
  shows "console a (traced B) (\<lambda>h. out (fst h))" "keyboard a (traced B) (\<lambda>h. inp (fst h))"
proof -
  have parts: "fst (rd (traced B) x h) = fst (rd B x (fst h))" "fst (snd (rd (traced B) x h)) = snd (rd B x (fst h))"
      "fst (wr (traced B) x v h) = wr B x v (fst h)" for x v and h :: "'a \<times> access list"
    by (cases h; simp add: traced_simps)+
  have waits: "fst (((\<lambda>h. snd (rd (traced B) x h)) ^^ n) h) = ((\<lambda>h. snd (rd B x h)) ^^ n) (fst h)" for x n and h :: "'a \<times> access list"
    by (induction n) (simp_all add: parts)
  show "console a (traced B) (\<lambda>h. out (fst h))" using assms(1) by (cases a) (simp_all add: console_def parts waits)
  show "keyboard a (traced B) (\<lambda>h. inp (fst h))" using assms(2) by (cases a) (simp_all add: keyboard_def parts)
qed

end
