(* ===== verification/Mediation.thy ===== *)
theory Mediation
  imports Boot Traffic
begin

text \<open>
  Which registers a turn of the control loop may write. The back end is the locale
  \<open>quiet_machine\<close>: a machine whose value programs leave the hardware alone; what the parser lets
  through decides the rest.
\<close>

section \<open>Outcomes\<close>

lemma via_reads: "reads B h h' \<Longrightarrow> via B W h h'"
proof -
  have "via B W h (read_all B as h')" if "via B W h h'" for as h'
    using that by (induction as arbitrary: h') auto
  then show "reads B h h' \<Longrightarrow> via B W h h'" by (auto simp: reads_def)
qed

lemma record_event_via: "via B W h (snd (record_event a B l addr v h))"
  by (cases a) (auto simp: record_event_def split_beta Let_def)

lemma poke_via: "W a \<Longrightarrow> via B W h (snd (snd (enforced_poke_u32 t r B l a v h)))"
  using record_event_via [of B W h t l a v]
  by (auto simp: enforced_poke_u32_def split_beta Let_def split: option.split)

lemma peek_via: "via B W h (snd (enforced_peek_u32 t r B a h))"
  by (auto simp: enforced_peek_u32_def split_beta Let_def split: option.split)

lemma stays_poke [stay]: "W (tx_reg (target P)) \<Longrightarrow> W a \<Longrightarrow> stays P W (poke_and_report P a v)"
  unfolding poke_and_report_def [abs_def] split_beta Let_def
  by (rule stays_state) (simp_all add: stay poke_via)

lemma stays_peek [stay]:
  assumes "W (tx_reg (target P))"
  shows "stays P W (execute P ovf (EnforcedPeek a))"
proof -
  let ?e = "\<lambda>k. enforced_peek_u32 (target P) (reg k) (hw P) a (io k)"
  let ?m = "\<lambda>r. case r of Inr value \<Rightarrow> try_then (put_str P (byte_str ''= '')) (write_value P value)
    | Inl e \<Rightarrow> try_then (put_str P (mem_error_bytes e)) (put_str P [10])"
  have "execute P ovf (EnforcedPeek a) = (\<lambda>k. ?m (fst (?e k)) (k\<lparr>io := snd (?e k)\<rparr>))"
    by (rule ext) (simp add: split_beta Let_def split: sum.split)
  moreover have "stays P W (?m r)" for r by (cases r) (simp_all add: stay assms)
  ultimately show ?thesis by (simp only:) (rule stays_state, simp_all add: peek_via)
qed

lemma stays_bit [stay]:
  assumes "W (tx_reg (target P))" and "W a"
  shows "stays P W (change_bit P ovf f a b)"
proof (cases "shl_one ovf b")
  case None
  then show ?thesis
    by (auto simp: stays_def change_bit_def split_beta Let_def peek_u32_def)
next
  case (Some m)
  then have "change_bit P ovf f a b = (\<lambda>k. poke_and_report P a (f (fst (rd (hw P) a (io k))) m) (k\<lparr>io := snd (rd (hw P) a (io k))\<rparr>))"
    by (intro ext) (simp add: change_bit_def split_beta Let_def peek_u32_def)
  then show ?thesis
    by (simp only:) (rule stays_state [where m = "\<lambda>x. poke_and_report P a x"], auto simp: stay assms)
qed

text \<open>Every outcome but a program; \<open>G\<close> are the addresses that the parser let through.\<close>

lemma stays_execute:
  assumes "W (tx_reg (target P))" and "outcome_ok lay A W out" and "\<And>p. out \<noteq> Run p"
  shows "stays P W (execute P ovf out)"
proof (cases out)
  case (EnforcedPeek a)
  with stays_peek [of W P ovf a, OF assms(1)] show ?thesis by (simp only:)
next
  case (Run p)
  then show ?thesis using assms(3) by simp
qed (use assms(1,2) in \<open>simp_all add: stay execute.simps [abs_def] del: execute.simps\<close>)

section \<open>A turn\<close>

text \<open>A pending outcome names only addresses that the check grants now.\<close>

definition gated :: "('e, 'h) platform \<Rightarrow> ('e, 'h) kern \<Rightarrow> bool" where
  "gated P k \<longleftrightarrow> (\<forall>out. pending k = Some (Inr out) \<longrightarrow> outcome_ok (layout P) (\<lambda>_. True) (granted P (reg k)) out)"

text \<open>A back end whose value programs leave the hardware alone.\<close>

locale quiet_machine = machine +
  assumes value_law: "valid_layout (layout P) \<Longrightarrow> bufok b \<Longrightarrow>
    \<exists>x b'. program_run P (value_program (layout P) v) s b h = Some (Inr (Some x), vm_reset s, b', h)"
begin

lemma value_held:
  assumes "valid_layout (layout P)" and "bufok (ebuf k)" and "polled (target P) R" and "W (tx_reg (target P))"
  shows "touches (hw P) R W (io k) (io (snd (run_program P (value_program (layout P) v) k)))"
proof -
  obtain x b' where "program_run P (value_program (layout P) v) (vmach k) (ebuf k) (io k) = Some (Inr (Some x), vm_reset (vmach k), b', io k)"
    using value_law [OF assms(1,2), of v "vmach k" "io k"] by blast
  then have "run_program P (value_program (layout P) v) k
      = try_then (put_str P (byte_str ''= '')) (write_value P x) (k\<lparr>vmach := vm_reset (vmach k), ebuf := b', io := io k\<rparr>)"
    by (simp add: run_program_def Let_def)
  moreover have "held P R W (try_then (put_str P (byte_str ''= '')) (write_value P x))"
    by (simp add: stay held_put [of P R W, OF assms(3,4)])
  ultimately show ?thesis by (simp only:) (rule staysD, simp_all)
qed

lemma pending_via:
  assumes "kinv P bufok k" and "gated P k" and "valid_layout (layout P)" and "rstate k = Printing"
    and "\<And>p. pending k = Some (Inr (Run p)) \<Longrightarrow> \<exists>v. p = value_program (layout P) v"
    and W: "W (tx_reg (target P))" "\<And>a. granted P (reg k) a \<Longrightarrow> W a"
  shows "via (hw P) W (io k) (io (snd (print_pending P ovf (pending k) (k\<lparr>pending := None\<rparr>))))"
proof (cases "pending k")
  case (Some p)
  show ?thesis
  proof (cases p)
    case (Inl e)
    have "stays P W (try_then (put_str P (byte_str ''ERR '')) (put_str P (error_text e)))" for e using W(1) by (simp add: stay)
    from staysD [OF this, of "k\<lparr>pending := None\<rparr>" "io k"] show ?thesis
      using Some Inl by (cases e) (simp_all add: print_pending_def ok_with_def)
  next
    case (Inr out)
    show ?thesis
    proof (cases "\<exists>p. out = Run p")
      case True
      with Some Inr assms(5) obtain v where "out = Run (value_program (layout P) v)" by blast
      then show ?thesis using value_held [of "k\<lparr>pending := None\<rparr>" "\<lambda>_. True" W v, OF _ _ polled_all] assms(1,3) W(1) Some Inr
        by (simp add: print_pending_def kinv_def kcore_def)
    next
      case False
      have "outcome_ok (layout P) (\<lambda>_. True) (granted P (reg k)) out" using assms(2) Some Inr by (simp add: gated_def)
      then have "outcome_ok (layout P) (\<lambda>_. True) W out" using W(2) by (cases out) simp_all
      from stays_execute [of W P "layout P" "\<lambda>_. True" out ovf, OF W(1) this] False
      have "stays P W (execute P ovf out)" by blast
      from staysD [OF this, of "k\<lparr>pending := None\<rparr>" "io k"] show ?thesis
        using Some Inr by (simp add: print_pending_def)
    qed
  qed
qed (simp add: print_pending_def ok_with_def)

text \<open>Only a line that was just compiled is pending.\<close>

lemma step_printing:
  assumes "kinv P bufok k" and "repl_step P ovf k = (Inr u, k')" and "rstate k' = Printing"
  shows "rstate k = Evaluating"
proof (cases "rstate k = Evaluating \<or> rstate k = Printing")
  case True
  then show ?thesis using assms(2,3)
    by (auto simp: repl_step_def take_pending_def enter_def try_then_Inr_iff)
next
  case False
  let ?k = "k\<lparr>io := snd (poll_get_byte (target P) (hw P) (io k))\<rparr>"
  have idle: "kidle P bufok ?k" using assms(1) False by (simp add: kinv_def kidle_def kcore_def)
  have poll: "poll_step P k = (Inr u, k')" using False assms(2) by (cases "rstate k") (simp_all add: repl_step_def)
  show ?thesis
  proof (cases "fst (poll_get_byte (target P) (hw P) (io k))")
    case None
    then show ?thesis using poll assms(3) by (auto simp: poll_step_def split_beta Let_def enter_def)
  next
    case (Some b)
    obtain r1 k1 where f: "feed P b ?k = (r1, k1)" by (cases "feed P b ?k")
    have "try_bind (feed P b) enter ?k = (Inr u, k')"
      using poll Some by (simp add: poll_step_def split_beta Let_def)
    then show ?thesis using ktripleD [OF ktriple_feed idle f, of False] assms(3) f
      by (cases r1) (auto simp: try_bind_def enter_def)
  qed
qed

text \<open>The turn that compiles a line reads, at most, and leaves an outcome that passed the check.\<close>

lemma eval_via:
  assumes "kinv P bufok k" and "rstate k = Evaluating" and "repl_step P ovf k = (res, k')"
  shows "via (hw P) W (io k) (io k')" "gated P k'"
proof -
  have "via (hw P) W (io k) (io k') \<and> gated P k'"
  proof (cases "fst (take_line k) = []")
    case True
    then show ?thesis using assms(2,3)
      by (auto simp: repl_step_def compile_def take_line_def enter_def gated_def)
  next
    case False
    obtain r c h where p: "parse P (reg k) (fst (take_line k)) (compiler k) (io k) = (r, c, h)"
      by (cases "parse P (reg k) (fst (take_line k)) (compiler k) (io k)")
    have "wf_comp (layout P) (\<lambda>_. True) (compiler k)" using assms(1) by (simp add: kinv_def kcore_def)
    note ps = parse_sound [OF this _ p]
    have "io k' = h" "reg k' = reg k" "pending k' = Some r"
      using assms(2,3) False p by (auto simp: repl_step_def compile_def take_line_def enter_def Let_def split_beta)
    then show ?thesis using ps(2) ps(4) by (auto simp: via_reads gated_def)
  qed
  then show "via (hw P) W (io k) (io k')" "gated P k'" by simp_all
qed

lemma step_gated:
  assumes "kinv P bufok k" and "valid_layout (layout P)" and "repl_step P ovf k = (Inr (), k')"
  shows "gated P k'"
proof (cases "rstate k' = Printing")
  case True
  from eval_via(2) [OF assms(1) step_printing [OF assms(1,3) this] assms(3)] show ?thesis .
next
  case False
  then show ?thesis using step_inv [OF assms(1,3,2)] by (auto simp: kinv_def gated_def)
qed

lemma steps_gated:
  assumes "kinv P bufok k" and "gated P k" and "valid_layout (layout P)" and "run_steps P ovf n k = (Inr (), k')"
  shows "gated P k'"
  using assms(1,2,4)
proof (induction n arbitrary: k)
  case (Suc n)
  then obtain k1 where k1: "repl_step P ovf k = (Inr (), k1)" "run_steps P ovf n k1 = (Inr (), k')" by (auto simp: try_then_Inr_iff)
  have "kinv P bufok k1" using step_inv [OF Suc.prems(1) k1(1) assms(3)] by simp
  from Suc.IH [OF this step_gated [OF Suc.prems(1) assms(3) k1(1)] k1(2)] show ?case .
qed (simp add: ok_with_def)

lemma turn_via:
  assumes "kinv P bufok k" and "gated P k" and "valid_layout (layout P)" and "repl_step P ovf k = (res, k')"
    and "\<And>p. rstate k = Printing \<Longrightarrow> pending k = Some (Inr (Run p)) \<Longrightarrow> \<exists>v. p = value_program (layout P) v"
    and W: "W (tx_reg (target P))" "\<And>a. granted P (reg k) a \<Longrightarrow> W a"
  shows "via (hw P) W (io k) (io k')"
proof -
  have poll: "via (hw P) W (io k) (io (snd (poll_step P k)))" using stays_poll [of W P, OF W(1)] by (rule staysD) simp
  have print: "via (hw P) W (io k) (io k')" if pr: "rstate k = Printing"
  proof -
    let ?k = "k\<lparr>pending := None\<rparr>"
    have "via (hw P) W (io k) (io (snd (print_pending P ovf (pending k) ?k)))"
      by (rule pending_via) (use assms(1-3,5) pr W in \<open>simp_all\<close>)
    moreover have "stays P W (try_then (prompt P) (enter Idle))" using W(1) by (simp add: stay)
    ultimately have "via (hw P) W (io k) (io (snd (try_then (print_pending P ovf (pending k)) (try_then (prompt P) (enter Idle)) ?k)))"
      by (cases "print_pending P ovf (pending k) ?k"; cases "fst (print_pending P ovf (pending k) ?k)")
        (auto simp: try_then_ok try_then_err dest: staysD [where P = P and W = W] intro: via_trans)
    then show ?thesis using pr assms(4) by (simp add: repl_step_def take_pending_def)
  qed
  show ?thesis
    using poll eval_via(1) [OF assms(1) _ assms(4)] print assms(4) by (cases "rstate k") (simp_all add: repl_step_def)
qed

end

interpretation arm_quiet: quiet_machine "arm_platform lay B r0" "\<lambda>b. 2048 \<le> length (em_buf b)" for lay B r0
proof
  fix v s h and b :: Thumb2Emitter
  assume "valid_layout (layout (arm_platform lay B r0))" and "2048 \<le> length (em_buf b)"
  then show "\<exists>x b'. program_run (arm_platform lay B r0) (value_program (layout (arm_platform lay B r0)) v) s b h
      = Some (Inr (Some x), vm_reset s, b', h)"
    using arm_program_run [of lay "[Push v]" b B r0 "replicate 125 0" True s h]
    by (auto simp: value_program_def arm_platform_def)
qed

interpretation riscv_quiet: quiet_machine "riscv_platform lay B r0" "\<lambda>b. 256 \<le> length (em_buf b)" for lay B r0
proof
  fix v s h and b :: Riscv32Emitter
  assume "valid_layout (layout (riscv_platform lay B r0))" and "256 \<le> length (em_buf b)"
  then show "\<exists>x b'. program_run (riscv_platform lay B r0) (value_program (layout (riscv_platform lay B r0)) v) s b h
      = Some (Inr (Some x), vm_reset s, b', h)"
    using riscv_program_run [of lay "[Push v]" b B r0 "replicate 125 0" True s h]
    by (auto simp: value_program_def riscv_platform_def)
qed

text \<open>A turn that does not run the body of a function.\<close>

definition quiet_turn :: "('e, 'h) platform \<Rightarrow> ('e, 'h) kern \<Rightarrow> bool" where
  "quiet_turn P k \<longleftrightarrow> (\<forall>p. rstate k = Printing \<longrightarrow> pending k = Some (Inr (Run p)) \<longrightarrow> (\<exists>v. p = value_program (layout P) v))"

end
