(* ===== verification/Faults.thy ===== *)
theory Faults
  imports Mediation
begin

text \<open>
  The control loop on a core that faults, and with memory that is not the kernel's alone. A turn
  on a traced bus ends at its first access to an address that does not answer; what runs
  after that is the fault handler (src/kernel/interrupt.rs), which parks the core. Between
  turns, a write that the user made to RAM may have changed the kernel's own statics: the
  registry, the tables of the compiler, the audit log, the line buffer, the executable buffer.
\<close>

section \<open>Turns that may fault\<close>

text \<open>\<open>F\<close> is the set of addresses that do not answer. A turn either faults, at the access given, or
  ends as the loop does.\<close>

definition fturn :: "(u32 \<Rightarrow> bool) \<Rightarrow> ('e, 'h \<times> access list) platform \<Rightarrow> bool \<Rightarrow> ('e, 'h \<times> access list) kern
    \<Rightarrow> access + (stop + unit) \<times> ('e, 'h \<times> access list) kern" where
  "fturn F P ovf k =
     (let (res, k') = repl_step P ovf k in
      case first_fault F (drop (length (snd (io k))) (snd (io k'))) of
        Some x \<Rightarrow> Inl x
      | None \<Rightarrow> Inr (res, k'))"

text \<open>
  The states between turns. \<open>tamper\<close> is what a write to the RAM of the kernel can have done by the
  time the turn that made it is over: any other state that is well formed, with the loop in the
  same state and the same hardware. (A value between turns is being printed only after its line
  was compiled, and compiling writes nothing.)
\<close>

inductive reach :: "(u32 \<Rightarrow> bool) \<Rightarrow> ('e, 'h \<times> access list) platform \<Rightarrow> ('e \<Rightarrow> bool) \<Rightarrow> bool
    \<Rightarrow> ('e, 'h \<times> access list) kern \<Rightarrow> ('e, 'h \<times> access list) kern \<Rightarrow> bool"
  for F P bufok ovf k0 where
  start: "reach F P bufok ovf k0 k0"
| turn: "reach F P bufok ovf k0 k \<Longrightarrow> fturn F P ovf k = Inr (Inr (), k') \<Longrightarrow> reach F P bufok ovf k0 k'"
| tamper: "reach F P bufok ovf k0 k \<Longrightarrow> rstate k \<noteq> Printing \<Longrightarrow> kinv P bufok k' \<Longrightarrow> rstate k' = rstate k
     \<Longrightarrow> io k' = io k \<Longrightarrow> reach F P bufok ovf k0 k'"

text \<open>Turns in a row on a bus without faults are such a run.\<close>

lemma run_steps_reach:
  assumes "reach (\<lambda>_. False) P bufok ovf k0 k" and "run_steps P ovf n k = (Inr (), k')"
  shows "reach (\<lambda>_. False) P bufok ovf k0 k'"
  using assms
proof (induction n arbitrary: k)
  case (Suc n)
  then obtain k1 where k1: "repl_step P ovf k = (Inr (), k1)" "run_steps P ovf n k1 = (Inr (), k')"
    by (auto simp: try_then_Inr_iff)
  have "fturn (\<lambda>_. False) P ovf k = Inr (Inr (), k1)"
    using k1(1) first_fault_None [of "\<lambda>_. False"] by (simp add: fturn_def)
  from Suc.IH [OF reach.turn [OF Suc.prems(1) this] k1(2)] show ?case .
qed (simp add: ok_with_def)

text \<open>The turns that may fault: while a line is compiled, and when its command or its function
  goes to the bus.\<close>

definition bus_command :: "('e, 'h) platform \<Rightarrow> (parse_fail + Outcome) option \<Rightarrow> bool" where
  "bus_command P p \<longleftrightarrow> (\<exists>out. p = Some (Inr out) \<and>
     (case out of EnforcedPeek a \<Rightarrow> True | EnforcedPoke a v \<Rightarrow> True | SetBit a b \<Rightarrow> True | ClrBit a b \<Rightarrow> True
      | Run prog \<Rightarrow> \<forall>v. prog \<noteq> value_program (layout P) v | _ \<Rightarrow> False))"

text \<open>The registers of the UART that the console uses answer.\<close>

definition console_answers :: "arch \<Rightarrow> (u32 \<Rightarrow> bool) \<Rightarrow> bool" where
  "console_answers a F \<longleftrightarrow> polled a (\<lambda>x. \<not> F x) \<and> \<not> F (tx_reg a)"

text \<open>What a run of turns from \<open>k0\<close> keeps, and how it may end.\<close>

definition survives :: "(u32 \<Rightarrow> bool) \<Rightarrow> ('e, 'h \<times> access list) platform \<Rightarrow> ('e \<Rightarrow> bool) \<Rightarrow> bool
    \<Rightarrow> ('e, 'h \<times> access list) kern \<Rightarrow> bool" where
  "survives F P bufok ovf k0 \<longleftrightarrow> (\<forall>k. reach F P bufok ovf k0 k \<longrightarrow> kinv P bufok k \<and>
     (case fturn F P ovf k of
        Inl x \<Rightarrow> F (acc_addr x) \<and> (rstate k = Evaluating \<and> \<not> is_write x \<or> rstate k = Printing \<and> bus_command P (pending k))
      | Inr (res, k') \<Rightarrow> kinv P bufok k' \<and>
          (res = Inr () \<or> res = Inl Hang \<and> \<not> responsive P \<or> res = Inl shift_panic \<and> ovf)))"

lemma survives_idle:
  assumes "survives F P bufok ovf k" and "rstate k = Idle"
  shows "\<exists>y. fturn F P ovf k = Inr y"
proof (cases "fturn F P ovf k")
  case (Inl x)
  from assms(1) [unfolded survives_def] have "reach F P bufok ovf k k \<longrightarrow> (case fturn F P ovf k of
      Inl x \<Rightarrow> F (acc_addr x) \<and> (rstate k = Evaluating \<and> \<not> is_write x \<or> rstate k = Printing \<and> bus_command P (pending k))
    | Inr (res, k') \<Rightarrow> kinv P bufok k' \<and> (res = Inr () \<or> res = Inl Hang \<and> \<not> responsive P \<or> res = Inl shift_panic \<and> ovf))" by blast
  with reach.start [of F P bufok ovf k] Inl assms(2) show ?thesis by simp
qed simp

text \<open>What the turns of such a run write.\<close>

definition mediated :: "(u32 \<Rightarrow> bool) \<Rightarrow> ('e, 'h \<times> access list) platform \<Rightarrow> ('e \<Rightarrow> bool) \<Rightarrow> bool
    \<Rightarrow> ('e, 'h \<times> access list) kern \<Rightarrow> bool" where
  "mediated F P bufok ovf k0 \<longleftrightarrow> (\<forall>k. reach F P bufok ovf k0 k \<longrightarrow> quiet_turn P k \<longrightarrow>
     (\<exists>s. snd (io (snd (repl_step P ovf k))) = snd (io k) @ s
        \<and> (\<forall>a v. Wr a v \<in> set s \<longrightarrow> a = tx_reg (target P) \<or> check_access (target P) (reg k) a = Inr ())))"

section \<open>Which turns can fault\<close>

text \<open>A turn that stays with the registers of the console does not fault.\<close>

lemma fturn_console:
  assumes "hw P = traced B" and "console_answers (target P) F" and "repl_step P ovf k = (res, k')"
    and "touches (hw P) (\<lambda>a. \<not> F a) (\<lambda>a. \<not> F a) (io k) (io k')"
  shows "fturn F P ovf k = Inr (res, k')"
proof -
  obtain s where s: "snd (io k') = snd (io k) @ s" "list_all (allowed (\<lambda>a. \<not> F a) (\<lambda>a. \<not> F a)) s"
    using touches_traced [OF assms(4) [unfolded assms(1)]] by blast
  have "\<not> F (acc_addr x)" if "x \<in> set s" for x
    using s(2) that by (cases x) (auto simp: list_all_iff)
  then have "first_fault F s = None" by (simp add: first_fault_None)
  then show ?thesis using assms(3) s(1) by (simp add: fturn_def)
qed

lemma fturn_fault:
  assumes "fturn F P ovf k = Inl x" and "repl_step P ovf k = (res, k')" and "snd (io k') = snd (io k) @ s"
  shows "x \<in> set s \<and> F (acc_addr x)"
  using assms first_fault_SomeD [of F s x] by (auto simp: fturn_def split: option.splits)

text \<open>Every outcome that is not a command of the bus only prints.\<close>

lemma held_execute:
  assumes "polled (target P) R" and "W (tx_reg (target P))" and "\<not> bus_command P (Some (Inr out))" and "\<And>p. out \<noteq> Run p"
  shows "held P R W (execute P ovf out)"
  using assms(3,4) stays_ok(1) [of P R W "()", unfolded ok_with_def [abs_def]]
  by (cases out) (simp_all add: bus_command_def stay held_put [of P R W, OF assms(1,2)] held_claim [of P R W, OF assms(1,2)] execute.simps [abs_def] del: execute.simps)

context quiet_machine
begin

lemma print_held:
  assumes "kinv P bufok k" and "valid_layout (layout P)" and "rstate k = Printing" and "\<not> bus_command P (pending k)"
    and W: "polled (target P) R" "W (tx_reg (target P))"
  shows "touches (hw P) R W (io k) (io (snd (print_pending P ovf (pending k) (k\<lparr>pending := None\<rparr>))))"
proof (cases "pending k")
  case (Some p)
  show ?thesis
  proof (cases p)
    case (Inl e)
    have "held P R W (try_then (put_str P (byte_str ''ERR '')) (put_str P (error_text e)))" for e
      by (simp add: stay held_put [of P R W, OF W])
    from staysD [OF this, of "k\<lparr>pending := None\<rparr>" "io k"] show ?thesis
      using Some Inl by (cases e) (simp_all add: print_pending_def ok_with_def)
  next
    case (Inr out)
    show ?thesis
    proof (cases "\<exists>p. out = Run p")
      case True
      then obtain v where "out = Run (value_program (layout P) v)"
        using assms(4) Some Inr by (auto simp: bus_command_def)
      then show ?thesis using value_held [of "k\<lparr>pending := None\<rparr>" R W v] assms(1,2) W Some Inr
        by (simp add: print_pending_def kinv_def kcore_def)
    next
      case False
      have "\<not> bus_command P (Some (Inr out))" using assms(4) Some Inr by simp
      with False have "held P R W (execute P ovf out)" using held_execute [of P R W out ovf, OF W] by blast
      from staysD [OF this, of "k\<lparr>pending := None\<rparr>" "io k"] show ?thesis
        using Some Inr by (simp add: print_pending_def)
    qed
  qed
qed (simp add: print_pending_def ok_with_def)

lemma turn_held:
  assumes "kinv P bufok k" and "valid_layout (layout P)" and "repl_step P ovf k = (res, k')"
    and "rstate k \<noteq> Evaluating" and "rstate k = Printing \<Longrightarrow> \<not> bus_command P (pending k)"
    and W: "polled (target P) R" "W (tx_reg (target P))"
  shows "touches (hw P) R W (io k) (io k')"
proof -
  have poll: "touches (hw P) R W (io k) (io (snd (poll_step P k)))" using held_poll [of P R W, OF W] by (rule staysD) simp
  have print: "touches (hw P) R W (io k) (io k')" if pr: "rstate k = Printing"
  proof -
    let ?k = "k\<lparr>pending := None\<rparr>"
    have "touches (hw P) R W (io k) (io (snd (print_pending P ovf (pending k) ?k)))"
      by (rule print_held) (use assms(1,2) assms(5) [OF pr] pr W in \<open>simp_all\<close>)
    moreover have "held P R W (try_then (prompt P) (enter Idle))" by (simp add: stay held_put [of P R W, OF W])
    ultimately have "touches (hw P) R W (io k) (io (snd (try_then (print_pending P ovf (pending k)) (try_then (prompt P) (enter Idle)) ?k)))"
      by (cases "print_pending P ovf (pending k) ?k"; cases "fst (print_pending P ovf (pending k) ?k)")
        (auto simp: try_then_ok try_then_err dest: staysD [where P = P and R = R and W = W] intro: via_trans)
    then show ?thesis using pr assms(3) by (simp add: repl_step_def take_pending_def)
  qed
  show ?thesis using poll print assms(3,4) by (cases "rstate k") (simp_all add: repl_step_def)
qed

end

section \<open>Runs\<close>

text \<open>What holds of the states between turns, for any back end.\<close>

lemma reach_inv:
  assumes "quiet_machine P bufok" and "valid_layout (layout P)" and "kinv P bufok k0" and "gated P k0" and "reach F P bufok ovf k0 k"
  shows "kinv P bufok k \<and> gated P k"
  using assms(5)
proof (induction rule: reach.induct)
  case start
  show ?case using assms(3,4) by simp
next
  case (turn k k')
  then have "repl_step P ovf k = (Inr (), k')" by (auto simp: fturn_def split_beta Let_def split: option.splits)
  then show ?case
    using turn.IH machine.step_inv [OF quiet_machine.axioms(1) [OF assms(1)]] quiet_machine.step_gated [OF assms(1)] assms(2) by blast
next
  case (tamper k k')
  then show ?case by (auto simp: kinv_def gated_def)
qed

lemma survives_quiet:
  assumes "quiet_machine P bufok" and "valid_layout (layout P)" and "kinv P bufok k0" and "gated P k0"
    and "hw P = traced B" and "console_answers (target P) F"
  shows "survives F P bufok ovf k0"
  unfolding survives_def
proof (intro allI impI conjI)
  fix k assume k: "reach F P bufok ovf k0 k"
  from reach_inv [OF assms(1-4) k] show inv: "kinv P bufok k" by simp
  obtain res k' where r: "repl_step P ovf k = (res, k')" by (cases "repl_step P ovf k")
  show "case fturn F P ovf k of
      Inl x \<Rightarrow> F (acc_addr x) \<and> (rstate k = Evaluating \<and> \<not> is_write x \<or> rstate k = Printing \<and> bus_command P (pending k))
    | Inr (res, k') \<Rightarrow> kinv P bufok k' \<and> (res = Inr () \<or> res = Inl Hang \<and> \<not> responsive P \<or> res = Inl shift_panic \<and> ovf)"
  proof (cases "fturn F P ovf k")
    case (Inl x)
    then have x: "F (acc_addr x)" using first_fault_SomeD by (auto simp: fturn_def split_beta Let_def split: option.splits)
    consider (eval) "rstate k = Evaluating" | (bus) "rstate k = Printing" "bus_command P (pending k)"
      | (console) "rstate k \<noteq> Evaluating" "rstate k = Printing \<Longrightarrow> \<not> bus_command P (pending k)" by blast
    then show ?thesis
    proof cases
      case eval
      have "via (traced B) (\<lambda>_. False) (io k) (io k')"
        using quiet_machine.eval_via(1) [OF assms(1) inv eval r] by (simp add: assms(5))
      from touches_traced [OF this] obtain s where s: "snd (io k') = snd (io k) @ s" "list_all (allowed (\<lambda>_. True) (\<lambda>_. False)) s" by blast
      from fturn_fault [OF Inl r s(1)] s(2) have "allowed (\<lambda>_. True) (\<lambda>_. False) x" by (auto simp: list_all_iff)
      then show ?thesis using Inl x eval by (cases x) simp_all
    next
      case bus
      then show ?thesis using Inl x by simp
    next
      case console
      have "touches (hw P) (\<lambda>a. \<not> F a) (\<lambda>a. \<not> F a) (io k) (io k')"
        by (rule quiet_machine.turn_held [OF assms(1) inv assms(2) r console])
          (use assms(6) in \<open>simp_all add: console_answers_def\<close>)
      from fturn_console [OF assms(5,6) r this] Inl show ?thesis by simp
    qed
  next
    case (Inr y)
    then have "y = (res, k')" using r by (auto simp: fturn_def split: option.splits)
    then show ?thesis
      using Inr machine.step_inv [OF quiet_machine.axioms(1) [OF assms(1)] inv r assms(2)]
      by (cases res) (auto simp: stops_ok_def)
  qed
qed

lemma mediated_quiet:
  assumes "quiet_machine P bufok" and "valid_layout (layout P)" and "kinv P bufok k0" and "gated P k0" and "hw P = traced B"
  shows "mediated F P bufok ovf k0"
  unfolding mediated_def
proof (intro allI impI)
  fix k assume k: "reach F P bufok ovf k0 k" and q: "quiet_turn P k"
  let ?W = "\<lambda>a. a = tx_reg (target P) \<or> check_access (target P) (reg k) a = Inr ()"
  have inv: "kinv P bufok k" "gated P k" using reach_inv [OF assms(1-4) k] by simp_all
  obtain res k' where r: "repl_step P ovf k = (res, k')" by (cases "repl_step P ovf k")
  have "\<exists>v. p = value_program (layout P) v" if "rstate k = Printing" "pending k = Some (Inr (Run p))" for p
    using q that by (simp add: quiet_turn_def)
  from quiet_machine.turn_via [OF assms(1) inv assms(2) r this, of ?W]
  have "via (traced B) ?W (io k) (io k')" by (simp add: granted_def assms(5))
  from via_traced [OF this] r
  show "\<exists>s. snd (io (snd (repl_step P ovf k))) = snd (io k) @ s
      \<and> (\<forall>a v. Wr a v \<in> set s \<longrightarrow> a = tx_reg (target P) \<or> check_access (target P) (reg k) a = Inr ())" by auto
qed

end
