(* ===== verification/Atomic.thy ===== *)
theory Atomic
  imports Session
begin

text \<open>
  What a line may change of the compiler's tables (symbols, function names, bodies and lengths).
  A rejected line changes nothing of them, wherever it is rejected, and an accepted line changes
  what its outcome says. The scratch stream is not a table: every user of it starts by resetting it.
\<close>

section \<open>The tables\<close>

definition tables :: "Compiler \<Rightarrow> Symbol list \<times> NameBuf list \<times> usize list list \<times> nat list" where
  "tables c = (symbols c, fn_names c, fn_bodies c, fn_body_lens c)"

text \<open>What an outcome says of the tables before and after.\<close>

definition changes :: "Compiler \<Rightarrow> Outcome \<Rightarrow> Compiler \<Rightarrow> bool" where
  "changes c out c' \<longleftrightarrow> (case out of
     Bound name v \<Rightarrow> insert_symbol (symbols c) name v = (Inr (), symbols c')
       \<and> fn_names c' = fn_names c \<and> fn_bodies c' = fn_bodies c \<and> fn_body_lens c' = fn_body_lens c
   | FnDefined name \<Rightarrow> symbols c' = symbols c \<and> find_fn c (as_slice name) = None
       \<and> (\<exists>i<MAX_FNS. \<exists>n ws. nb_len (fn_names c ! i) = 0
            \<and> fn_names c' = (fn_names c)[i := name] \<and> fn_body_lens c' = (fn_body_lens c)[i := n]
            \<and> fn_bodies c' = (fn_bodies c)[i := ws])
   | _ \<Rightarrow> tables c' = tables c)"

section \<open>Parsers that leave the tables alone\<close>

definition keeps :: "('h, 'a) parser \<Rightarrow> bool" where
  "keeps m \<longleftrightarrow> (\<forall>s. tables (comp (snd (m s))) = tables (comp s))"

named_theorems keep \<open>parsers that leave the tables alone\<close>

lemma keeps_bind [keep]: "keeps m \<Longrightarrow> (\<And>x. keeps (f x)) \<Longrightarrow> keeps (try_bind m f)"
  unfolding keeps_def try_bind_def by (auto split: prod.split sum.split) (metis snd_conv)+

lemma keeps_then [keep]: "keeps m \<Longrightarrow> keeps f \<Longrightarrow> keeps (try_then m f)"
  unfolding try_then_def by (rule keeps_bind)

lemma keeps_simple [keep]:
  "keeps (ok_with x)" "keeps (fail_with e)" "keeps (reject pe)" "keeps next_tok" "keeps peek_tok" "keeps (of_result res)"
  "keeps (read_word P a)" "keeps (symbol_value i)" "keeps stream_reset" "keeps (stream_push w)" "keeps (take_program y)"
  "keeps (lookup_fn name)" "keeps check_body_len" "keeps (alloc_fn_slot n)" "keeps (require_access P r a)"
  by (simp_all add: keeps_def reject_def next_tok_def peek_tok_def of_result_def read_word_def symbol_value_def
      stream_reset_def stream_push_def take_program_def lookup_fn_def check_body_len_def alloc_fn_slot_def
      require_access_def tables_def Let_def split_beta split: sum.split option.split)

lemma keeps_if [keep]: "keeps m \<Longrightarrow> keeps m' \<Longrightarrow> keeps (if b then m else m')"
  by simp

lemma keeps_token [keep]: "keeps (expect t)" "keeps expect_name" "keeps expect_semicolon" "keeps allow_optional_semicolon"
  "keeps parse_call_parens"
  unfolding expect_def expect_name_def expect_semicolon_def allow_optional_semicolon_def parse_call_parens_def
  by (intro keep | simp add: keep split: Token.split)+

lemma keeps_emit [keep]: "keeps (push_words ws)" "keeps (stream_push_lit P v)" "keeps (stream_halt P)"
    "keeps (build_value_program P v)" "keeps (push_body i)" "keeps (splice_call name)" "keeps (build_call_program P name)"
proof -
  show words: "keeps (push_words ws)" for ws by (induction ws) (simp_all add: keep)
  show body: "keeps (push_body i)" for i using words by (simp only: keeps_def push_body_def Let_def) blast
  show "keeps (stream_push_lit P v)" "keeps (stream_halt P)" "keeps (build_value_program P v)"
      "keeps (splice_call name)" "keeps (build_call_program P name)"
    by (simp_all add: stream_push_lit_def stream_halt_def build_value_program_def splice_call_def build_call_program_def keep body)
qed

lemma keeps_expr [keep]:
  "keeps (eval_expr P n first)" "keeps (eval_rest P n acc)" "keeps (resolve_term P n tok)" "keeps (parse_atomic_term P n)"
  by (induction P n first and P n acc and P n tok and P n rule: eval_expr_eval_rest_resolve_term_parse_atomic_term.induct)
    (auto simp: keep intro!: keeps_bind keeps_then split: Token.split option.split)

lemma keeps_stmt [keep]: "keeps (parse_body_stmt P r n)" "keeps (body_loop P r n k)"
proof -
  show stmt: "keeps (parse_body_stmt P r n)" for n
    unfolding parse_body_stmt_def by (auto simp: keep intro!: keeps_bind keeps_then split: Token.split)
  show "keeps (body_loop P r n k)" by (induction k) (simp_all add: keep stmt)
qed

section \<open>Lines\<close>

text \<open>A parser of a line changes what its result says, from any tables that agree.\<close>

definition frames :: "('h, Outcome) parser \<Rightarrow> bool" where
  "frames m \<longleftrightarrow> (\<forall>s. case m s of
     (Inl e, s') \<Rightarrow> tables (comp s') = tables (comp s)
   | (Inr out, s') \<Rightarrow> changes (comp s) out (comp s'))"

text \<open>The function index that was free for a name.\<close>

lemma changes_tables: "tables c0 = tables c \<Longrightarrow> changes c0 out c' = changes c out c'"
  by (cases out) (auto simp: changes_def tables_def find_fn_def fn_allocated_def)

named_theorems frame \<open>parsers that change what their result says\<close>

lemma frames_bind [frame]:
  assumes "keeps m" and "\<And>x. frames (f x)"
  shows "frames (try_bind m f)"
  unfolding frames_def
proof
  fix s
  obtain r s1 where m: "m s = (r, s1)" by (cases "m s")
  have t: "tables (comp s1) = tables (comp s)" using assms(1) m by (metis keeps_def snd_conv)
  show "case try_bind m f s of (Inl e, s') \<Rightarrow> tables (comp s') = tables (comp s)
    | (Inr out, s') \<Rightarrow> changes (comp s) out (comp s')"
  proof (cases r)
    case (Inl e)
    then show ?thesis using t m by (simp add: try_bind_def)
  next
    case (Inr x)
    have "case f x s1 of (Inl e, s') \<Rightarrow> tables (comp s') = tables (comp s1)
      | (Inr out, s') \<Rightarrow> changes (comp s1) out (comp s')" using assms(2) by (simp add: frames_def)
    then show ?thesis using t m Inr changes_tables [OF t] by (auto simp: try_bind_def split: prod.splits sum.splits)
  qed
qed

lemma frames_then [frame]: "keeps m \<Longrightarrow> frames f \<Longrightarrow> frames (try_then m f)"
  unfolding try_then_def by (rule frames_bind)

lemma frames_simple [frame]:
  "frames (reject e)"
  "(\<And>n v. out \<noteq> Bound n v) \<Longrightarrow> (\<And>n. out \<noteq> FnDefined n) \<Longrightarrow> frames (ok_with out)"
  by (simp add: frames_def reject_def fail_with_def) (cases out; auto simp: frames_def ok_with_def changes_def)

lemma frames_if [frame]: "frames m \<Longrightarrow> frames m' \<Longrightarrow> frames (if b then m else m')"
  by simp

text \<open>The two steps that do change a table, each the last one that can be rejected.\<close>

lemma insert_loop_err: "insert_loop syms bytes v start steps = (Inl e, t) \<Longrightarrow> t = syms"
  by (induction syms bytes v start steps rule: insert_loop.induct) (auto simp: Let_def split: if_splits)

lemma frames_bound [frame]: "frames (try_then (bind_symbol name v) (ok_with (Bound name v)))"
proof -
  have "t = syms" if "insert_symbol syms name v = (Inl e, t)" for syms e t
    using that insert_loop_err by (auto simp: insert_symbol_def Let_def)
  then show ?thesis
    by (auto simp: frames_def bind_symbol_def try_then_def try_bind_def ok_with_def changes_def tables_def
        split: prod.split sum.split)
qed

lemma alloc_free:
  "alloc_fn_slot name s = (Inr i, s') \<Longrightarrow>
    s' = s \<and> i < MAX_FNS \<and> find_fn (comp s) (as_slice name) = None \<and> nb_len (fn_names (comp s) ! i) = 0"
  by (auto simp: alloc_fn_slot_def find_Some_iff split: if_splits option.splits)

lemma frames_defined [frame]:
  "frames (try_bind (alloc_fn_slot name) (\<lambda>i. try_then (store_fn i name) (ok_with (FnDefined name))))"
  unfolding frames_def
proof
  fix s
  show "case try_bind (alloc_fn_slot name) (\<lambda>i. try_then (store_fn i name) (ok_with (FnDefined name))) s of
      (Inl e, s') \<Rightarrow> tables (comp s') = tables (comp s) | (Inr out, s') \<Rightarrow> changes (comp s) out (comp s')"
  proof (cases "fst (alloc_fn_slot name s)")
    case (Inl e)
    then show ?thesis
      by (auto simp: alloc_fn_slot_def try_bind_def split: if_splits option.splits)
  next
    case (Inr i)
    then obtain s' where a: "alloc_fn_slot name s = (Inr i, s')" by (metis prod.collapse)
    show ?thesis
      unfolding try_bind_ok [where m = "alloc_fn_slot name" and s = s, OF a] using alloc_free [OF a]
      by (auto simp: store_fn_def Let_def try_then_def try_bind_def ok_with_def changes_def)
  qed
qed

lemma frames_line: "frames (parse_line P r n k)"
proof -
  have bound: "frames (parse_let P n)" unfolding parse_let_def by (intro frame keep)
  have fn: "frames (parse_fn P r n k)" unfolding parse_fn_def by (intro frame keep)
  have bare: "frames (parse_bare P n t)" for t unfolding parse_bare_def by (intro frame keep) simp_all
  have cmd: "frames (parse_command P r n i)" for i
    unfolding parse_command_def by (intro frame keep) simp_all
  show ?thesis
    unfolding parse_line_def by (rule frames_bind) (auto simp: bound fn bare cmd keep frame split: Token.split)
qed

section \<open>Property\<close>

text \<open>C11: lines are atomic. A rejected line, whatever is wrong with it and wherever, leaves every
  binding and every function as it was, however far its compilation had come; an accepted \<open>let\<close>
  changes the symbol table by that one insertion and nothing else; an accepted \<open>fn\<close> fills one
  free function slot under a name that was not defined; every other line changes no table.\<close>

theorem lines_are_atomic:
  assumes "parse P r input c h = (res, c', h')"
  shows "case res of Inl e \<Rightarrow> tables c' = tables c | Inr out \<Rightarrow> changes c out c'"
  using assms frames_line [of P r "expr_fuel (length input)" "length input + 1"]
  by (auto simp: parse_def frames_def split_beta Let_def dest!: spec [of _ "\<lparr>comp = c, cur = cur_new input, phw = h\<rparr>"]
      split: prod.splits sum.splits)

theorem lines_are_atomic_witness:
  "\<exists>c'. parse (arm_platform example_layout ram_bus (\<lambda>_. 7)) REGISTRY_BITS
      (render_all [KwLet, Identifier [0x62], Operator 0x3D, Literal 9, Operator 0x2D, Literal 10, Semicolon]) compiler_new (\<lambda>_. 0)
      = (Inr (Bound (name_of [0x62]) (- 1)), c', \<lambda>_. 0)
    \<and> insert_symbol (symbols compiler_new) (name_of [0x62]) (- 1) = (Inr (), symbols c') \<and> fn_bodies c' = fn_bodies compiler_new"
proof -
  have "wf_symbols (symbols compiler_new)" using wf_comp_new by (auto simp: wf_comp_def)
  then obtain t where "insert_symbol (symbols compiler_new) (name_of [0x62]) (- 1) = (Inr (), t)"
    using insert_free [OF _ new_slots(1), of "[0x62]" "- 1"] by (auto simp: NAME_MAX_def)
  then have "parse (arm_platform example_layout ram_bus (\<lambda>_. 7)) REGISTRY_BITS
      (render_all [KwLet, Identifier [0x62], Operator 0x3D, Literal 9, Operator 0x2D, Literal 10, Semicolon]) compiler_new (\<lambda>_. 0)
      = (Inr (Bound (name_of [0x62]) (- 1)), compiler_new\<lparr>symbols := t\<rparr>, \<lambda>_. 0)"
    using let_line [of "[0x62]" "Ex (TLit 9) (Op 0x2D (TLit 10) Done)" "arm_platform example_layout ram_bus (\<lambda>_. 7)"
        compiler_new "\<lambda>_. 0" "- 1" "\<lambda>_. 0" t REGISTRY_BITS]
    by (auto simp: is_arith_def is_operator_def byte_str_def try_bind_def ok_with_def apply_op_def NAME_MAX_def
        is_alpha_def is_ident_char_def)
  with lines_are_atomic [OF this] show ?thesis by (auto simp: changes_def)
qed

end
