(* ===== verification/Console.thy ===== *)
theory Console
  imports Boot Traffic
begin

text \<open>
  The console session, byte by byte: what every action prints, the line editor as a function on
  lists, and whole lines from the keyboard to the answer on the terminal.
\<close>

section \<open>The console, exactly\<close>

text \<open>Transmitter and receiver together, and actions that only print.\<close>

definition serial :: "('e, 'h) platform \<Rightarrow> ('h \<Rightarrow> u8 list) \<Rightarrow> ('h \<Rightarrow> u8 list) \<Rightarrow> bool" where
  "serial P out inp \<longleftrightarrow> console (target P) (hw P) out \<and> keyboard (target P) (hw P) inp"

definition says :: "('h \<Rightarrow> u8 list) \<Rightarrow> ('h \<Rightarrow> u8 list) \<Rightarrow> ('e, 'h, unit) act \<Rightarrow> u8 list \<Rightarrow> bool" where
  "says out inp m s \<longleftrightarrow> (\<forall>k. \<exists>h'. m k = (Inr (), k\<lparr>io := h'\<rparr>) \<and> out h' = out (io k) @ s \<and> inp h' = inp (io k))"

named_theorems say \<open>what actions print\<close>

lemma says_then [say]:
  assumes "says out inp m s" and "says out inp f t"
  shows "says out inp (try_then m f) (s @ t)"
  unfolding says_def
proof
  fix k
  obtain h1 where 1: "m k = (Inr (), k\<lparr>io := h1\<rparr>)" "out h1 = out (io k) @ s" "inp h1 = inp (io k)"
    using assms(1) unfolding says_def by blast
  obtain h2 where "f (k\<lparr>io := h1\<rparr>) = (Inr (), k\<lparr>io := h2\<rparr>)" "out h2 = out h1 @ t" "inp h2 = inp h1"
    using assms(2) [unfolded says_def, rule_format, of "k\<lparr>io := h1\<rparr>"] by auto
  with 1 show "\<exists>h'. try_then m f k = (Inr (), k\<lparr>io := h'\<rparr>) \<and> out h' = out (io k) @ s @ t \<and> inp h' = inp (io k)"
    by (auto simp: try_then_ok)
qed

lemma put_byte_serial:
  assumes "console a B out" and "keyboard a B inp"
  shows "\<exists>h'. put_byte a B b h = Some h' \<and> out h' = out h @ [b] \<and> inp h' = inp h"
proof -
  obtain h' where h': "put_byte a B b h = Some h'" "out h' = out h @ [b]" using put_byte_console [OF assms(1)] by blast
  have "inp h' = inp h"
  proof (cases a)
    case Arm
    let ?next = "\<lambda>h. snd (rd B mmio_SR h)"
    obtain n where "bit (fst (rd B mmio_SR ((?next ^^ n) h))) 7" using assms(1) Arm unfolding console_def by blast
    from wait_tx_returns [OF this] obtain m where "wait_tx B h = Some ((?next ^^ m) h)" by blast
    moreover have "inp ((?next ^^ m) h) = inp h"
      using assms(2) Arm by (induction m) (simp_all add: keyboard_def mmio_SR_def mmio_DR_def)
    ultimately show ?thesis using h'(1) assms(2) Arm by (auto simp: keyboard_def poke_u32_def)
  next
    case Riscv32
    then show ?thesis using h'(1) assms(2) by (auto simp: keyboard_def poke_u32_def)
  qed
  with h' show ?thesis by blast
qed

lemma write_str_serial:
  assumes "console a B out" and "keyboard a B inp"
  shows "\<exists>h'. write_str a B s h = Some h' \<and> out h' = out h @ s \<and> inp h' = inp h"
proof (induction s arbitrary: h)
  case (Cons b s)
  obtain h1 where "put_byte a B b h = Some h1" "out h1 = out h @ [b]" "inp h1 = inp h"
    using put_byte_serial [OF assms] by blast
  with Cons.IH [of h1] show ?case by auto
qed simp

lemma says_transmit:
  fixes f :: "'h \<Rightarrow> 'h option"
  assumes "\<And>h. f h = write_str (target P) (hw P) s h" and "serial P out inp"
  shows "says out inp (transmit f :: ('e, 'h, unit) act) s"
  unfolding says_def
proof
  fix k :: "('e, 'h) kern"
  obtain h' where "write_str (target P) (hw P) s (io k) = Some h'" "out h' = out (io k) @ s" "inp h' = inp (io k)"
    using write_str_serial [of "target P" "hw P" out inp s "io k"] assms(2) by (auto simp: serial_def)
  then show "\<exists>h'. transmit f k = (Inr (), k\<lparr>io := h'\<rparr>) \<and> out h' = out (io k) @ s \<and> inp h' = inp (io k)"
    by (intro exI [of _ h']) (simp add: transmit_def assms(1))
qed

definition value_text :: "u32 \<Rightarrow> u8 list" where
  "value_text v = byte_str ''0x'' @ hex_digits v @ byte_str '' ('' @ dec_digits (unat v) @ byte_str '')'' @ crlf"

lemma says_put [say]:
  assumes "serial P out inp"
  shows "says out inp (put_str P s) s" "says out inp (put_line P s) (s @ crlf)"
    "says out inp (put_hex P v) (byte_str ''0x'' @ hex_digits v)" "says out inp (put_dec P v) (dec_digits (unat v))"
    "says out inp (transmit (put_byte (target P) (hw P) b)) [b]" "says out inp (prompt P) (byte_str ''holy> '')"
proof -
  show str: "says out inp (put_str P s) s" for s
    unfolding put_str_def by (rule says_transmit [OF refl assms])
  then show "says out inp (prompt P) (byte_str ''holy> '')" by (simp add: prompt_def)
  have "put_byte (target P) (hw P) b h = write_str (target P) (hw P) [b] h" for h
    by (cases "put_byte (target P) (hw P) b h") simp_all
  then show "says out inp (transmit (put_byte (target P) (hw P) b)) [b]" by (rule says_transmit [OF _ assms])
qed (unfold put_line_def put_hex_def put_dec_def, (rule says_transmit [OF _ assms],
      simp add: write_line_def write_str_append write_hex_str write_dec_str)+)

lemma says_value [say]: "serial P out inp \<Longrightarrow> says out inp (write_value P v) (value_text v)"
  unfolding write_value_def value_text_def
  using says_then [OF says_put(3) says_then [OF says_put(1) says_then [OF says_put(4) says_put(2)]]]
  by simp

lemma saysD:
  "says out inp m s \<Longrightarrow> \<exists>h'. m k = (Inr (), k\<lparr>io := h'\<rparr>) \<and> out h' = out (io k) @ s \<and> inp h' = inp (io k)"
  by (simp add: says_def)

lemma says_nothing [say]: "says out inp (ok_with ()) []"
  unfolding says_def ok_with_def by (intro allI, rule_tac x = "io k" in exI) simp

lemma says_erase [say]:
  assumes "serial P out inp"
  shows "says out inp (erase_line P n) (concat (replicate n [8, 32, 8]))"
proof (induction n)
  case (Suc n)
  from says_then [OF says_put(1) [OF assms, of "[8, 32, 8]"] Suc] show ?case by simp
qed (simp add: says_nothing)

section \<open>The line editor as a function on lists\<close>

definition line_text :: "('e, 'h) kern \<Rightarrow> u8 list" where
  "line_text k = take (line_len k) (line_buf k)"

text \<open>The line after a byte, and what is sent back; a line end is not an edit.\<close>

definition edit :: "u8 list \<Rightarrow> u8 \<Rightarrow> u8 list" where
  "edit l byte0 = (let b = (if byte0 = 9 then 0x20 else byte0) in
     if b = 8 \<or> b = 0x7F then butlast l
     else if b = 0x15 \<or> b = 3 then []
     else if 0x20 \<le> b \<and> b \<le> 0x7E \<and> length l < LINE_MAX then l @ [b]
     else l)"

definition echo :: "u8 list \<Rightarrow> u8 \<Rightarrow> u8 list" where
  "echo l byte0 = (let b = (if byte0 = 9 then 0x20 else byte0) in
     if b = 8 \<or> b = 0x7F then (if l = [] then [] else [8, 32, 8])
     else if b = 0x15 then concat (replicate (length l) [8, 32, 8])
     else if b = 3 then byte_str ''^C'' @ crlf @ byte_str ''holy> ''
     else if 0x20 \<le> b \<and> b \<le> 0x7E \<and> length l < LINE_MAX then [b]
     else [])"

fun echoes :: "u8 list \<Rightarrow> u8 list \<Rightarrow> u8 list" where
  "echoes l [] = []"
| "echoes l (b # bs) = echo l b @ echoes (edit l b) bs"

definition is_eol :: "u8 \<Rightarrow> bool" where "is_eol b \<longleftrightarrow> b = 13 \<or> b = 10"

text \<open>Only the line, the state and the hardware change.\<close>

definition same_rest :: "('e, 'h) kern \<Rightarrow> ('e, 'h) kern \<Rightarrow> bool" where
  "same_rest k k' \<longleftrightarrow> pending k' = pending k \<and> compiler k' = compiler k \<and> reg k' = reg k \<and> audit k' = audit k
     \<and> vmach k' = vmach k \<and> ebuf k' = ebuf k \<and> length (line_buf k') = length (line_buf k)"

definition editable :: "('e, 'h) kern \<Rightarrow> bool" where
  "editable k \<longleftrightarrow> length (line_buf k) = LINE_MAX \<and> line_len k \<le> LINE_MAX"

text \<open>The byte as \<open>feed\<close> dispatches on it, tabs being blanks.\<close>

definition blanked :: "u8 \<Rightarrow> u8" where "blanked b = (if b = 9 then 0x20 else b)"

text \<open>One byte is one edit and one echo.\<close>

definition edits :: "('e, 'h) platform \<Rightarrow> ('h \<Rightarrow> u8 list) \<Rightarrow> ('h \<Rightarrow> u8 list) \<Rightarrow> u8 \<Rightarrow> ('e, 'h) kern \<Rightarrow> bool" where
  "edits P out inp b k \<longleftrightarrow> (\<exists>st k'. feed P b k = (Inr st, k') \<and> st \<in> {Idle, Reading} \<and> editable k' \<and> same_rest k k'
    \<and> line_text k' = edit (line_text k) b \<and> out (io k') = out (io k) @ echo (line_text k) b \<and> inp (io k') = inp (io k))"

lemma editsI:
  "feed P b k = (Inr st, k') \<Longrightarrow> st \<in> {Idle, Reading} \<Longrightarrow> editable k' \<Longrightarrow> same_rest k k' \<Longrightarrow> line_text k' = edit (line_text k) b
    \<Longrightarrow> out (io k') = out (io k) @ echo (line_text k) b \<Longrightarrow> inp (io k') = inp (io k) \<Longrightarrow> edits P out inp b k"
  unfolding edits_def by blast

lemma text_length: "editable k \<Longrightarrow> length (line_text k) = line_len k"
  by (simp add: line_text_def editable_def)

lemma text_empty: "editable k \<Longrightarrow> line_text k = [] \<longleftrightarrow> line_len k = 0"
  using text_length [of k] by auto

lemmas feed_defs = feed_def Let_def blanked_def [symmetric] set_line_len_def store_byte_def try_then_def try_bind_def ok_with_def
lemmas edit_defs = edit_def echo_def Let_def blanked_def [symmetric] editable_def same_rest_def line_text_def

lemma backspace_edits:
  assumes "serial P out inp" and "editable k" and "blanked b = 8 \<or> blanked b = 0x7F"
  shows "edits P out inp b k"
proof (cases "line_len k = 0")
  case True
  then have "feed P b k = (Inr Reading, k)" using assms(3) by (auto simp: feed_defs)
  then show ?thesis
    by (rule editsI) (use assms text_empty [OF assms(2)] True in \<open>auto simp: edit_def echo_def Let_def blanked_def [symmetric] same_rest_def\<close>)
next
  case False
  let ?k = "k\<lparr>line_len := line_len k - 1\<rparr>"
  obtain h' where h': "put_str P [8, 32, 8] ?k = (Inr (), ?k\<lparr>io := h'\<rparr>)" "out h' = out (io k) @ [8, 32, 8]" "inp h' = inp (io k)"
    using says_put(1) [OF assms(1), THEN saysD, of "[8, 32, 8]" ?k] by auto
  then have "feed P b k = (Inr Reading, ?k\<lparr>io := h'\<rparr>)" using False assms(3) by (auto simp: feed_defs)
  then show ?thesis
    by (rule editsI) (use assms(2,3) False h' in \<open>auto simp: edit_defs butlast_take\<close>)
qed

lemma kill_edits:
  assumes "serial P out inp" and "editable k" and "blanked b = 0x15"
  shows "edits P out inp b k"
proof -
  obtain h' where h': "erase_line P (line_len k) k = (Inr (), k\<lparr>io := h'\<rparr>)"
      "out h' = out (io k) @ concat (replicate (line_len k) [8, 32, 8])" "inp h' = inp (io k)"
    using says_erase [OF assms(1), THEN saysD] by blast
  then have "feed P b k = (Inr Reading, k\<lparr>io := h', line_len := 0\<rparr>)" using assms(3) by (simp add: feed_defs)
  then show ?thesis
    by (rule editsI) (use assms(2,3) h' in \<open>simp_all add: edit_defs\<close>)
qed

lemma cancel_edits:
  assumes "serial P out inp" and "editable k" and "blanked b = 3"
  shows "edits P out inp b k"
proof -
  let ?k = "k\<lparr>line_len := 0\<rparr>" and ?m = "byte_str ''^C'' @ crlf"
  note put = says_put [OF assms(1), THEN saysD]
  obtain h1 where h1: "put_str P ?m ?k = (Inr (), ?k\<lparr>io := h1\<rparr>)" "out h1 = out (io k) @ ?m" "inp h1 = inp (io k)"
    using put(1) [of ?m ?k] by auto
  obtain h2 where h2: "prompt P (?k\<lparr>io := h1\<rparr>) = (Inr (), ?k\<lparr>io := h2\<rparr>)" "out h2 = out h1 @ byte_str ''holy> ''" "inp h2 = inp h1"
    using put(6) [of "?k\<lparr>io := h1\<rparr>"] by auto
  have "feed P b k = (Inr Idle, ?k\<lparr>io := h2\<rparr>)" using assms(3) h1(1) h2(1) by (simp add: feed_defs)
  then show ?thesis
    by (rule editsI) (use assms(2,3) h1 h2 in \<open>simp_all add: edit_defs\<close>)
qed

lemma character_edits:
  assumes "serial P out inp" and "editable k" and "0x20 \<le> blanked b" and "blanked b \<le> 0x7E" and "line_len k < LINE_MAX"
  shows "edits P out inp b k"
proof -
  let ?c = "blanked b"
  let ?k = "k\<lparr>line_buf := (line_buf k)[line_len k := ?c], line_len := Suc (line_len k)\<rparr>"
  obtain h' where h': "transmit (put_byte (target P) (hw P) ?c) ?k = (Inr (), ?k\<lparr>io := h'\<rparr>)"
      "out h' = out (io k) @ [?c]" "inp h' = inp (io k)"
    using says_put(5) [OF assms(1), THEN saysD, of ?c ?k] by auto
  have ctl: "?c \<noteq> 8" "?c \<noteq> 0x7F" "?c \<noteq> 0x15" "?c \<noteq> 3" "?c \<noteq> 13" "?c \<noteq> 10" using assms(3,4) by auto
  have "feed P b k = (Inr Reading, ?k\<lparr>io := h'\<rparr>)" using assms(3-5) ctl h'(1) by (simp add: feed_defs)
  then show ?thesis
  proof (rule editsI)
    show "line_text (?k\<lparr>io := h'\<rparr>) = edit (line_text k) b"
      using assms(2-5) ctl text_length [OF assms(2)]
      by (simp add: edit_def Let_def blanked_def [symmetric]) (simp add: line_text_def editable_def take_update_snoc)
    show "out (io (?k\<lparr>io := h'\<rparr>)) = out (io k) @ echo (line_text k) b"
      using assms(3-5) ctl text_length [OF assms(2)] h' by (simp add: echo_def Let_def blanked_def [symmetric])
  qed (use assms(2,5) h' in \<open>simp_all add: editable_def same_rest_def\<close>)
qed

lemma feed_edits:
  assumes "serial P out inp" and "editable k" and "\<not> is_eol b"
  shows "edits P out inp b k"
proof -
  have c: "blanked b \<noteq> 13" "blanked b \<noteq> 10" using assms(3) by (auto simp: is_eol_def blanked_def)
  have "edits P out inp b k"
    if no: "blanked b \<notin> {8, 0x7F, 0x15, 3}" "\<not> (0x20 \<le> blanked b \<and> blanked b \<le> 0x7E \<and> line_len k < LINE_MAX)"
  proof (rule editsI)
    show "feed P b k = (Inr Reading, k)" using no c by (simp add: feed_defs)
  qed (use no c assms(2) text_length [OF assms(2)] in \<open>auto simp: edit_def echo_def Let_def blanked_def [symmetric] same_rest_def\<close>)
  then show ?thesis
    using backspace_edits [OF assms(1,2), of b] kill_edits [OF assms(1,2), of b] cancel_edits [OF assms(1,2), of b]
      character_edits [OF assms(1,2), of b] by blast
qed

lemma poll_serial:
  assumes "serial P out inp" and "inp h = b # bs"
  shows "\<exists>h'. poll_get_byte (target P) (hw P) h = (Some b, h') \<and> out h' = out h \<and> inp h' = bs"
proof -
  let ?r = "poll_get_byte (target P) (hw P) h"
  have "fst ?r = Some b" "inp (snd ?r) = bs" "out (snd ?r) = out h"
    using poll_keyboard [of "target P" "hw P" inp h] poll_console [of "target P" "hw P" out h] assms
    by (simp_all add: serial_def)
  then show ?thesis by (cases ?r) auto
qed

lemma same_rest_trans: "same_rest k k1 \<Longrightarrow> same_rest k1 k2 \<Longrightarrow> same_rest k k2"
  by (simp add: same_rest_def)

lemma step_edits:
  assumes "serial P out inp" and "editable k" and "rstate k \<in> {Idle, Reading}" and "inp (io k) = b # bs" and "\<not> is_eol b"
  shows "\<exists>k'. repl_step P ovf k = (Inr (), k') \<and> rstate k' \<in> {Idle, Reading} \<and> editable k' \<and> same_rest k k'
    \<and> line_text k' = edit (line_text k) b \<and> out (io k') = out (io k) @ echo (line_text k) b \<and> inp (io k') = bs"
proof -
  obtain h where h: "poll_get_byte (target P) (hw P) (io k) = (Some b, h)" "out h = out (io k)" "inp h = bs"
    using poll_serial [OF assms(1,4)] by blast
  let ?k = "k\<lparr>io := h\<rparr>"
  have k: "editable ?k" "line_text ?k = line_text k" using assms(2) by (simp_all add: editable_def line_text_def)
  obtain st k1 where f: "feed P b ?k = (Inr st, k1)" "st \<in> {Idle, Reading}" "editable k1" "same_rest ?k k1"
      "line_text k1 = edit (line_text k) b" "out (io k1) = out h @ echo (line_text k) b" "inp (io k1) = inp h"
    using feed_edits [OF assms(1) k(1) assms(5)] k(2) by (auto simp: edits_def)
  have "repl_step P ovf k = (Inr (), k1\<lparr>rstate := st\<rparr>)"
    using assms(3) h(1) f(1) by (auto simp: repl_step_def poll_step_def Let_def try_bind_def enter_def)
  with f h show ?thesis
    by (intro exI [of _ "k1\<lparr>rstate := st\<rparr>"]) (simp add: editable_def same_rest_def line_text_def)
qed

text \<open>Meanwhile only registers of the UART are read, and only the transmitter is written.\<close>

abbreviation quiet :: "('e, 'h) platform \<Rightarrow> 'h \<Rightarrow> 'h \<Rightarrow> bool" where
  "quiet P \<equiv> touches (hw P) (console_reads (target P)) (\<lambda>a. a = tx_reg (target P))"

lemma poll_quiet:
  assumes "rstate k \<in> {Idle, Reading}" and "repl_step P ovf k = (res, k')"
  shows "quiet P (io k) (io k')"
proof -
  have "held P (console_reads (target P)) (\<lambda>a. a = tx_reg (target P)) (poll_step P)" by (rule held_poll [OF polled_console]) simp
  from staysD [OF this refl, of k] show ?thesis using assms by (auto simp: repl_step_def)
qed

lemma typed_bytes:
  assumes "serial P out inp" and "editable k" and "rstate k \<in> {Idle, Reading}" and "inp (io k) = bs @ later"
    and "list_all (\<lambda>b. \<not> is_eol b) bs"
  shows "\<exists>k'. run_steps P ovf (length bs) k = (Inr (), k') \<and> rstate k' \<in> {Idle, Reading} \<and> editable k' \<and> same_rest k k'
    \<and> line_text k' = foldl edit (line_text k) bs \<and> out (io k') = out (io k) @ echoes (line_text k) bs \<and> inp (io k') = later
    \<and> quiet P (io k) (io k')"
  using assms(2-5)
proof (induction bs arbitrary: k)
  case Nil
  then show ?case by (intro exI [of _ k]) (simp add: ok_with_def same_rest_def)
next
  case (Cons b bs)
  obtain k1 where 1: "repl_step P ovf k = (Inr (), k1)" "rstate k1 \<in> {Idle, Reading}" "editable k1" "same_rest k k1"
      "line_text k1 = edit (line_text k) b" "out (io k1) = out (io k) @ echo (line_text k) b" "inp (io k1) = bs @ later"
    using step_edits [OF assms(1) Cons.prems(1,2), of b "bs @ later" ovf] Cons.prems(3,4) by auto
  obtain k2 where 2: "run_steps P ovf (length bs) k1 = (Inr (), k2)" "rstate k2 \<in> {Idle, Reading}" "editable k2" "same_rest k1 k2"
      "line_text k2 = foldl edit (line_text k1) bs" "out (io k2) = out (io k1) @ echoes (line_text k1) bs" "inp (io k2) = later" "quiet P (io k1) (io k2)"
    using Cons.IH [OF 1(3,2,7)] Cons.prems(4) by auto
  have "quiet P (io k) (io k2)" by (rule via_trans [OF 2(8) poll_quiet [OF Cons.prems(2) 1(1)]])
  then show ?case using 1 2 same_rest_trans [OF 1(4) 2(4)] by (intro exI [of _ k2]) (simp add: try_then_ok)
qed

lemma step_eol:
  assumes "serial P out inp" and "rstate k \<in> {Idle, Reading}" and "inp (io k) = b # bs" and "is_eol b"
  shows "\<exists>h'. repl_step P ovf k = (Inr (), k\<lparr>io := h', rstate := Evaluating\<rparr>) \<and> out h' = out (io k) @ crlf \<and> inp h' = bs"
proof -
  obtain h where h: "poll_get_byte (target P) (hw P) (io k) = (Some b, h)" "out h = out (io k)" "inp h = bs"
    using poll_serial [OF assms(1,3)] by blast
  obtain h' where h': "put_str P crlf (k\<lparr>io := h\<rparr>) = (Inr (), k\<lparr>io := h'\<rparr>)" "out h' = out h @ crlf" "inp h' = inp h"
    using saysD [OF says_put(1) [OF assms(1)], of crlf "k\<lparr>io := h\<rparr>"] by auto
  have "feed P b (k\<lparr>io := h\<rparr>) = (Inr Evaluating, k\<lparr>io := h'\<rparr>)"
    using assms(4) h'(1) by (auto simp: feed_def is_eol_def Let_def try_then_def try_bind_def ok_with_def)
  then have "repl_step P ovf k = (Inr (), k\<lparr>io := h', rstate := Evaluating\<rparr>)"
    using assms(2) h(1) by (auto simp: repl_step_def poll_step_def Let_def try_bind_def enter_def)
  with h h' show ?thesis by (intro exI [of _ h']) simp
qed

lemma run_steps_add: "run_steps P ovf (m + n) k = try_then (run_steps P ovf m) (run_steps P ovf n) k"
proof (induction m arbitrary: k)
  case (Suc m)
  then show ?case by (cases "repl_step P ovf k"; cases "fst (repl_step P ovf k)") (auto simp: try_then_def try_bind_def)
qed (simp add: try_then_def try_bind_def ok_with_def)

section \<open>A whole line\<close>

text \<open>A line of printable bytes that fits is entered as it is.\<close>

definition textual :: "u8 list \<Rightarrow> bool" where
  "textual s \<longleftrightarrow> list_all (\<lambda>b. 0x20 \<le> b \<and> b \<le> 0x7E) s"

lemma edit_text:
  assumes "0x20 \<le> b" and "b \<le> 0x7E" and "length l < LINE_MAX"
  shows "edit l b = l @ [b]" "echo l b = [b]" "\<not> is_eol b"
proof -
  have "b \<notin> {9, 8, 0x7F, 0x15, 3, 13, 10}" using assms(1,2) by auto
  with assms show "edit l b = l @ [b]" "echo l b = [b]" "\<not> is_eol b"
    by (simp_all add: edit_def echo_def Let_def is_eol_def)
qed

lemma typed_text:
  "textual s \<Longrightarrow> length l + length s \<le> LINE_MAX \<Longrightarrow> foldl edit l s = l @ s \<and> echoes l s = s \<and> list_all (\<lambda>b. \<not> is_eol b) s"
proof (induction s arbitrary: l)
  case (Cons b s)
  then have b: "0x20 \<le> b" "b \<le> 0x7E" "length l < LINE_MAX" by (simp_all add: textual_def)
  show ?case using Cons.IH [of "l @ [b]"] Cons.prems edit_text [OF b] by (simp add: textual_def)
qed simp

lemma textual_dec: "textual (dec_digits n)"
  using dec_digits_are_digits [of n] unfolding textual_def is_digit_def
  by (rule list.pred_mono_strong) (auto simp: word_le_nat_alt)

lemma textual_token: "printable t \<Longrightarrow> textual (render t)"
proof (cases t)
  case (Identifier w)
  assume "printable t"
  then have "list_all is_ident_char w" using Identifier by simp
  then show ?thesis unfolding Identifier textual_def render.simps
    by (rule list.pred_mono_strong) (auto simp: is_ident_char_def is_alpha_def is_digit_def word_le_nat_alt)
next
  case (Operator b)
  assume "printable t"
  then show ?thesis using Operator by (auto simp: textual_def is_operator_def byte_str_def)
qed (auto simp: textual_def textual_dec [unfolded textual_def] byte_str_def)

lemma textual_line: "list_all printable ts \<Longrightarrow> textual (render_all ts)"
  using textual_token by (induction ts) (auto simp: render_all_def textual_def)

lemma step_evaluates:
  assumes "rstate k = Evaluating" and "line_text k \<noteq> []" and "parse P (reg k) (line_text k) (compiler k) (io k) = (res, c, h)"
  shows "repl_step P ovf k = (Inr (), k\<lparr>line_len := 0, compiler := c, io := h, pending := Some res, rstate := Printing\<rparr>)"
  using assms by (simp add: repl_step_def take_line_def line_text_def compile_def enter_def Let_def)

lemma step_prints:
  assumes "serial P out inp" and "rstate k = Printing"
    and "print_pending P ovf (pending k) (k\<lparr>pending := None\<rparr>) = (Inr (), k1)" and "out (io k1) = out (io k) @ s" and "inp (io k1) = inp (io k)"
  shows "\<exists>h'. repl_step P ovf k = (Inr (), k1\<lparr>io := h', rstate := Idle\<rparr>) \<and> out h' = out (io k) @ s @ byte_str ''holy> '' \<and> inp h' = inp (io k)
    \<and> quiet P (io k1) h'"
proof -
  obtain h' where h': "prompt P k1 = (Inr (), k1\<lparr>io := h'\<rparr>)" "out h' = out (io k1) @ byte_str ''holy> ''" "inp h' = inp (io k1)"
    using saysD [OF says_put(6) [OF assms(1)]] by blast
  have "held P (console_reads (target P)) (\<lambda>a. a = tx_reg (target P)) (prompt P)" by (rule held_put [OF polled_console]) simp
  from staysD [OF this, of k1 "io k1"] h'(1) have "quiet P (io k1) h'" by simp
  with h' show ?thesis using assms
    by (intro exI [of _ h']) (simp add: repl_step_def take_pending_def try_then_ok enter_def)
qed

text \<open>Typing a line and its end, up to the compilation.\<close>

lemma line_entered:
  assumes "serial P out inp" and "editable k" and "line_len k = 0" and "rstate k \<in> {Idle, Reading}"
    and "textual s" and "s \<noteq> []" and "length s \<le> LINE_MAX" and "inp (io k) = s @ 13 # later"
  shows "\<exists>k'. run_steps P ovf (length s + 1) k = (Inr (), k') \<and> rstate k' = Evaluating \<and> same_rest k k' \<and> editable k'
    \<and> line_text k' = s \<and> out (io k') = out (io k) @ s @ crlf \<and> inp (io k') = later \<and> quiet P (io k) (io k')"
proof -
  have l: "line_text k = []" using assms(3) by (simp add: line_text_def)
  have s: "foldl edit [] s = s" "echoes [] s = s" "list_all (\<lambda>b. \<not> is_eol b) s"
    using typed_text [OF assms(5), of "[]"] assms(7) by simp_all
  obtain k1 where 1: "run_steps P ovf (length s) k = (Inr (), k1)" "rstate k1 \<in> {Idle, Reading}" "editable k1" "same_rest k k1"
      "line_text k1 = s" "out (io k1) = out (io k) @ s" "inp (io k1) = 13 # later" "quiet P (io k) (io k1)"
    using typed_bytes [OF assms(1,2,4,8) s(3), of ovf] l s(1,2) by auto
  obtain h' where 2: "repl_step P ovf k1 = (Inr (), k1\<lparr>io := h', rstate := Evaluating\<rparr>)" "out h' = out (io k1) @ crlf" "inp h' = later"
    using step_eol [OF assms(1) 1(2,7)] by (auto simp: is_eol_def)
  have "run_steps P ovf (length s + 1) k = (Inr (), k1\<lparr>io := h', rstate := Evaluating\<rparr>)"
    using 1(1) 2(1) by (simp only: run_steps_add) (simp add: try_then_ok ok_with_def)
  moreover have "quiet P (io k) h'" using via_trans [OF poll_quiet [OF 1(2) 2(1)] 1(8)] by simp
  ultimately show ?thesis using 1 2
    by (intro exI [of _ "k1\<lparr>io := h', rstate := Evaluating\<rparr>"]) (simp add: same_rest_def line_text_def editable_def)
qed

end
