(* ===== verification/Dialogue.thy ===== *)
theory Dialogue
  imports Console
begin

text \<open>
  Dialogues at the terminal: a line that is typed, compiled and answered, the answer of each
  command, and sessions of several lines. The lines are those of the parser's language, the
  answers are what the loop prints, byte for byte.
\<close>

section \<open>Lines and their answers\<close>

text \<open>A line that is typed, compiled and answered, in \<open>length s + 3\<close> turns.\<close>

lemma line_answered:
  assumes "serial P out inp" and "editable k" and "line_len k = 0" and "rstate k \<in> {Idle, Reading}"
    and "textual s" and "s \<noteq> []" and "length s \<le> LINE_MAX" and "inp (io k) = s @ 13 # later"
    and parse: "\<And>h. inp h = later \<Longrightarrow> quiet P (io k) h \<Longrightarrow>
      \<exists>c h'. parse P (reg k) s (compiler k) h = (res, c, h') \<and> out h' = out h \<and> inp h' = inp h \<and> Q c h'"
    and answer: "\<And>k1. same_rest k (k1\<lparr>compiler := compiler k\<rparr>) \<Longrightarrow> editable k1 \<Longrightarrow> line_len k1 = 0 \<Longrightarrow> Q (compiler k1) (io k1) \<Longrightarrow> inp (io k1) = later \<Longrightarrow> \<exists>k2.
      print_pending P ovf (Some res) (k1\<lparr>pending := None\<rparr>) = (Inr (), k2) \<and> out (io k2) = out (io k1) @ reply \<and> inp (io k2) = inp (io k1)
      \<and> R k2"
    and R: "\<And>k h. R k \<Longrightarrow> quiet P (io k) h \<Longrightarrow> R (k\<lparr>io := h, rstate := Idle\<rparr>)"
    and "pending k = None"
  shows "\<exists>k'. run_steps P ovf (length s + 3) k = (Inr (), k') \<and> rstate k' = Idle \<and> R k'
    \<and> out (io k') = out (io k) @ s @ crlf @ reply @ byte_str ''holy> '' \<and> inp (io k') = later"
proof -
  obtain k1 where 1: "run_steps P ovf (length s + 1) k = (Inr (), k1)" "rstate k1 = Evaluating" "same_rest k k1" "editable k1"
      "line_text k1 = s" "out (io k1) = out (io k) @ s @ crlf" "inp (io k1) = later" "quiet P (io k) (io k1)"
    using line_entered [OF assms(1-8), of ovf] by blast
  obtain c h where p: "parse P (reg k) s (compiler k) (io k1) = (res, c, h)" "out h = out (io k1)" "inp h = inp (io k1)" "Q c h"
    using parse [OF 1(7,8)] by blast
  let ?k2 = "k1\<lparr>line_len := 0, compiler := c, io := h, pending := Some res, rstate := Printing\<rparr>"
  have 2: "repl_step P ovf k1 = (Inr (), ?k2)"
    using step_evaluates [of k1 P res c h ovf] 1 p(1) assms(6) by (simp add: same_rest_def)
  have "same_rest k (?k2\<lparr>pending := None, compiler := compiler k\<rparr>)" using 1(3) assms(12) by (simp add: same_rest_def)
  then obtain k3 where 3: "print_pending P ovf (Some res) (?k2\<lparr>pending := None\<rparr>) = (Inr (), k3)" "out (io k3) = out h @ reply" "inp (io k3) = inp h" "R k3"
    using answer [of "?k2\<lparr>pending := None\<rparr>"] 1(4,7) p(3,4) by (auto simp: editable_def)
  obtain h' where 4: "repl_step P ovf ?k2 = (Inr (), k3\<lparr>io := h', rstate := Idle\<rparr>)" "out h' = out h @ reply @ byte_str ''holy> ''" "inp h' = inp h"
      "quiet P (io k3) h'"
    using step_prints [OF assms(1), of ?k2 ovf k3 reply] 3 by auto
  have steps: "length s + 3 = (length s + 1) + 2" by simp
  have "run_steps P ovf (length s + 3) k = (Inr (), k3\<lparr>io := h', rstate := Idle\<rparr>)"
    unfolding steps run_steps_add try_then_ok [where m = "run_steps P ovf (length s + 1)" and s = k, OF 1(1)] using 2 4(1)
    by (simp add: try_then_ok ok_with_def numeral_2_eq_2)
  with 1 p 3 4 R show ?thesis by (intro exI [of _ "k3\<lparr>io := h', rstate := Idle\<rparr>"]) simp
qed

section \<open>Sessions\<close>

text \<open>What a line leaves for the next one, apart from what its command changed.\<close>

definition ready :: "('e \<Rightarrow> bool) \<Rightarrow> registry \<Rightarrow> AuditLog \<Rightarrow> Compiler \<Rightarrow> ('e, 'h) kern \<Rightarrow> bool" where
  "ready bufok r l c k \<longleftrightarrow> editable k \<and> line_len k = 0 \<and> pending k = None \<and> reg k = r \<and> audit k = l
     \<and> compiler k = c \<and> bufok (ebuf k)"

lemma ready_loop [simp]: "ready bufok r l c (k\<lparr>io := h, rstate := s\<rparr>) = ready bufok r l c k"
    "ready bufok r l c (k\<lparr>io := h\<rparr>) = ready bufok r l c k"
  by (simp_all add: ready_def editable_def)

lemma ready_start:
  assumes "kinv P bufok k" and "rstate k \<in> {Idle, Reading}" and "line_len k = 0"
  shows "ready bufok (reg k) (audit k) (compiler k) k"
  using assms by (auto simp: ready_def kinv_def kcore_def editable_def)

text \<open>A session: the lines typed, with their answers, take the state to the prompt again.\<close>

definition transcript :: "(u8 list \<times> u8 list) list \<Rightarrow> u8 list" where
  "transcript d = concat (map (\<lambda>(s, reply). s @ crlf @ reply @ byte_str ''holy> '') d)"

definition typed :: "(u8 list \<times> u8 list) list \<Rightarrow> u8 list" where
  "typed d = concat (map (\<lambda>(s, _). s @ [13]) d)"

definition turns :: "(u8 list \<times> u8 list) list \<Rightarrow> nat" where
  "turns d = sum_list (map (\<lambda>(s, _). length s + 3) d)"

lemma session_simps [simp]:
  "transcript [] = []" "typed [] = []" "turns [] = 0"
  "transcript (sr # d) = fst sr @ crlf @ snd sr @ byte_str ''holy> '' @ transcript d"
  "typed (sr # d) = fst sr @ 13 # typed d" "turns (sr # d) = length (fst sr) + 3 + turns d"
  by (simp_all add: transcript_def typed_def turns_def split_beta)

definition session ::
    "('e, 'h) platform \<Rightarrow> bool \<Rightarrow> ('h \<Rightarrow> u8 list) \<Rightarrow> ('h \<Rightarrow> u8 list) \<Rightarrow> ('e, 'h) kern
      \<Rightarrow> (u8 list \<times> u8 list) list \<Rightarrow> ('e, 'h) kern \<Rightarrow> bool" where
  "session P ovf out inp k d k' \<longleftrightarrow> run_steps P ovf (turns d) k = (Inr (), k') \<and> (d \<noteq> [] \<longrightarrow> rstate k' = Idle)
     \<and> out (io k') = out (io k) @ transcript d \<and> inp (io k) = typed d @ inp (io k')"

lemma session_state: "session P ovf out inp k [sr] k' \<Longrightarrow> rstate k' \<in> {Idle, Reading}"
  by (simp add: session_def)

lemma session_Cons:
  assumes "session P ovf out inp k [sr] k1" and "session P ovf out inp k1 d k'"
  shows "session P ovf out inp k (sr # d) k'"
proof -
  obtain s reply where sr: "sr = (s, reply)" by (cases sr)
  have "run_steps P ovf (length s + 3 + turns d) k = run_steps P ovf (turns d) k1"
    unfolding run_steps_add [of P ovf "length s + 3"] by (rule try_then_ok [where m = "run_steps P ovf (length s + 3)" and x = "()"])
      (use assms(1) in \<open>simp add: session_def sr\<close>)
  then show ?thesis using assms by (cases d) (auto simp: session_def sr ok_with_def)
qed

text \<open>One line, whose outcome may change the compiler, whose answer is known, and after which a
  property \<open>Q\<close> of the state holds that the prompt cannot disturb. The answer may rely on a
  property \<open>J\<close> of the hardware that the terminal cannot disturb.\<close>

lemma line_session_keeping:
  fixes k :: "('e, 'h) kern"
  assumes "serial P out inp" and "ready bufok r l c k" and "rstate k \<in> {Idle, Reading}"
    and "list_all printable ts" and "ts \<noteq> []" and "length (render_all ts) \<le> LINE_MAX" and "inp (io k) = render_all ts @ 13 # later"
    and parse: "\<And>h. \<exists>c0. parse P r (render_all ts) c h = (res, c0, h) \<and> C c0"
    and answer: "\<And>c0 k1. C c0 \<Longrightarrow> ready bufok r l c0 k1 \<Longrightarrow> J (io k1) \<Longrightarrow> \<exists>k2. print_pending P ovf (Some res) k1 = (Inr (), k2)
      \<and> out (io k2) = out (io k1) @ reply \<and> inp (io k2) = inp (io k1) \<and> Q k2"
    and Q: "\<And>k h. Q k \<Longrightarrow> quiet P (io k) h \<Longrightarrow> Q (k\<lparr>io := h, rstate := Idle\<rparr>)"
    and J: "J (io k)" "\<And>h h'. J h \<Longrightarrow> quiet P h h' \<Longrightarrow> J h'"
  shows "\<exists>k'. session P ovf out inp k [(render_all ts, reply)] k' \<and> Q k' \<and> inp (io k') = later"
proof -
  have k: "editable k" "line_len k = 0" "pending k = None" "render_all ts \<noteq> []"
    using assms(2,5) by (auto simp: ready_def render_all_def neq_Nil_conv)
  have p: "\<exists>c0 h'. parse P (reg k) (render_all ts) (compiler k) h = (res, c0, h') \<and> out h' = out h \<and> inp h' = inp h \<and> C c0 \<and> J h'"
    if "quiet P (io k) h" for h using parse [of h] assms(2) J(2) [OF J(1) that] by (auto simp: ready_def)
  have "\<exists>k2. print_pending P ovf (Some res) (k1\<lparr>pending := None\<rparr>) = (Inr (), k2)
      \<and> out (io k2) = out (io k1) @ reply \<and> inp (io k2) = inp (io k1) \<and> Q k2"
    if "same_rest k (k1\<lparr>compiler := compiler k\<rparr>)" "editable k1" "line_len k1 = 0" "C (compiler k1) \<and> J (io k1)"
    for k1 :: "('e, 'h) kern"
    using answer [of "compiler k1" "k1\<lparr>pending := None\<rparr>"] that assms(2) by (simp add: ready_def same_rest_def editable_def)
  from line_answered [where Q = "\<lambda>c h. C c \<and> J h" and R = Q, OF assms(1) k(1,2) assms(3) textual_line [OF assms(4)] k(4) assms(6,7) p this Q k(3)]
  obtain k' where "run_steps P ovf (length (render_all ts) + 3) k = (Inr (), k') \<and> rstate k' = Idle \<and> Q k'
    \<and> out (io k') = out (io k) @ render_all ts @ crlf @ reply @ byte_str ''holy> '' \<and> inp (io k') = later" by blast
  then show ?thesis using assms(7) by (intro exI [of _ k']) (simp add: session_def)
qed

lemmas line_session = line_session_keeping [where J = "\<lambda>_. True",
  simplified True_implies_equals implies_True_equals triv_forall_equality]

lemma says_ready:
  assumes "says out inp m s" and "ready bufok r l c k"
  shows "\<exists>k'. m k = (Inr (), k') \<and> out (io k') = out (io k) @ s \<and> inp (io k') = inp (io k) \<and> ready bufok r l c k'"
proof -
  obtain h' where "m k = (Inr (), k\<lparr>io := h'\<rparr>)" "out h' = out (io k) @ s" "inp h' = inp (io k)"
    using saysD [OF assms(1), of k] by blast
  then show ?thesis using assms(2) by (intro exI [of _ "k\<lparr>io := h'\<rparr>"]) simp
qed

text \<open>A line that is answered by a message and changes no table.\<close>

lemma ready_line:
  assumes "serial P out inp" and "ready bufok r l c k" and "rstate k \<in> {Idle, Reading}"
    and "list_all printable ts" and "ts \<noteq> []" and "length (render_all ts) \<le> LINE_MAX" and "inp (io k) = render_all ts @ 13 # later"
    and "\<And>h. parse P r (render_all ts) c h = (res, c', h)"
    and "\<And>k1. ready bufok r l c' k1 \<Longrightarrow> \<exists>k2. print_pending P ovf (Some res) k1 = (Inr (), k2)
      \<and> out (io k2) = out (io k1) @ reply \<and> inp (io k2) = inp (io k1) \<and> ready bufok r' l' c' k2"
  shows "\<exists>k'. session P ovf out inp k [(render_all ts, reply)] k' \<and> ready bufok r' l' c' k' \<and> inp (io k') = later"
  by (rule line_session [where C = "\<lambda>c0. c0 = c'", OF assms(1-7)]) (use assms(8,9) in auto)

section \<open>Commands\<close>

lemma claim_answer:
  assumes "serial P out inp" and "wf_registry r" and "T \<in> set all_resources" and "RESOURCE_ID T \<notin> claimed_set r" and "ready bufok r l c k"
  shows "\<exists>k'. print_pending P ovf (Some (Inr (Claim (name_of (byte_str (NAME T)))))) k = (Inr (), k')
    \<and> out (io k') = out (io k) @ byte_str ''CAP CLAIMED '' @ byte_str (NAME T) @ byte_str '' id='' @ dec_digits (RESOURCE_ID T) @ [10]
    \<and> inp (io k') = inp (io k) \<and> ready bufok (snd (acquire r (RESOURCE_ID T))) l c k'"
proof -
  let ?n = "byte_str (NAME T)" and ?i = "RESOURCE_ID T"
  have T: "length ?n \<le> NAME_MAX" "?i < 32"
    using assms(3) by (auto simp: all_resources_def resource_defs byte_str_def NAME_MAX_def)
  have slice: "as_slice (name_of ?n) = ?n" using name_of_facts [OF T(1)] by simp
  have id: "resolve_name ?n = Some ?i" using assms(3) resolve_name_resources by blast
  have got: "fst (acquire (reg k) ?i)" using assms(2,4,5) T(2) by (simp add: acquire_fst ready_def wf_registry_def)
  let ?k = "k\<lparr>reg := snd (acquire (reg k) ?i)\<rparr>"
  have ready: "ready bufok (snd (acquire r ?i)) l c ?k" using assms(5) by (simp add: ready_def editable_def)
  have num: "unat (of_nat ?i :: u32) = ?i" using T(2) by (simp add: unat_of_nat)
  have "says out inp (try_then (put_str P (byte_str ''CAP CLAIMED '')) (try_then (put_str P ?n)
      (try_then (put_str P (byte_str '' id='')) (try_then (put_dec P (of_nat ?i)) (put_str P [10])))))
    (byte_str ''CAP CLAIMED '' @ ?n @ byte_str '' id='' @ dec_digits (unat (of_nat ?i :: u32)) @ [10])"
    by (intro says_then says_put assms(1))
  from says_ready [OF this ready] show ?thesis
    using got by (simp add: print_pending_def do_claim_def slice id split_beta Let_def num)
qed

lemma poke_answer:
  assumes "serial P out inp" and "wf_registry r" and "permits (target P) r a" and "31 \<notin> claimed_set r" and "a \<noteq> tx_reg (target P)"
    and "ready bufok r l c k"
  shows "\<exists>k'. print_pending P ovf (Some (Inr (EnforcedPoke a v))) k = (Inr (), k')
    \<and> out (io k') = out (io k) @ byte_str ''OK'' @ crlf \<and> inp (io k') = inp (io k) \<and> ready bufok r l c k'
    \<and> quiet P (wr (hw P) a v (io k)) (io k')"
proof -
  let ?k = "k\<lparr>audit := l, io := wr (hw P) a v (io k)\<rparr>"
  have "ready bufok r l c ?k" using assms(6) by (simp add: ready_def editable_def)
  from says_ready [OF says_put(2) [OF assms(1), of "byte_str ''OK''"] this]
  obtain k' where k': "put_line P (byte_str ''OK'') ?k = (Inr (), k')" "out (io k') = out (io ?k) @ byte_str ''OK'' @ crlf"
      "inp (io k') = inp (io ?k)" "ready bufok r l c k'" by auto
  have "held P (console_reads (target P)) (\<lambda>b. b = tx_reg (target P)) (put_line P (byte_str ''OK''))" by (rule held_put [OF polled_console]) simp
  from staysD [OF this, of ?k "wr (hw P) a v (io k)"] k'(1) have "quiet P (wr (hw P) a v (io k)) (io k')" by simp
  with k' assms show ?thesis
    by (simp add: print_pending_def poke_and_report_def enforced_poke_cases report_def ready_def serial_def console_def keyboard_def)
qed

lemma window_claim:
  assumes "wf_registry r" and "addr_to_cap_id a addr = Some c" and "cap_num c \<notin> claimed_set r" and "31 \<notin> claimed_set r"
    and "r' = snd (acquire r (cap_num c))"
  shows "permits a r' addr" "check_access a r addr \<noteq> Inr ()" "check_access a r' addr = Inr ()" "31 \<notin> claimed_set r'" "wf_registry r'"
proof -
  have c: "c \<noteq> SuperUser" using assms(2) by (cases a) (auto dest: arm_windows riscv_windows simp del: is_ram_flash.simps)
  then have num: "cap_num c \<noteq> 31" "cap_num c < 256" by (cases c; simp)+
  have held: "claimed_set r' = insert (cap_num c) (claimed_set r)"
    using acquire_claimed [of "cap_num c" r] assms(1,5) num(2) by (simp add: wf_registry_def)
  show wf: "wf_registry r'" using assms(1,5) by (simp add: wf_registry_def)
  show "31 \<notin> claimed_set r'" using held num assms(4) by simp
  show "permits a r' addr" using assms(2) held by (simp add: permits_def)
  show "check_access a r addr \<noteq> Inr ()" "check_access a r' addr = Inr ()"
    using assms(1-4) wf held num by (simp_all add: check_access_def reg_simps del: cap_num.simps)
qed

lemma refused_answer:
  assumes "serial P out inp" and "ready bufok r l c k"
  shows "\<exists>k'. print_pending P ovf (Some (Inl (PE e))) k = (Inr (), k')
    \<and> out (io k') = out (io k) @ byte_str ''ERR '' @ error_text e \<and> inp (io k') = inp (io k) \<and> ready bufok r l c k'"
  using says_ready [OF says_then [OF says_put(1) [OF assms(1)] says_put(1) [OF assms(1)]] assms(2), of "byte_str ''ERR ''" "error_text e"]
  by (simp add: print_pending_def)

lemma word_line_length: "length (dec_digits (unat (v :: u32))) \<le> 10"
  by (rule dec_digits_length) (rule order_less_trans [OF unat_u32_less], simp_all)

lemma poke_text:
  fixes a v :: u32
  defines "ts \<equiv> [Identifier (byte_str ''poke''), Literal a, Literal v, Semicolon]"
  shows "list_all printable ts" "ts \<noteq> []" "length (render_all ts) \<le> LINE_MAX"
    "parse P r (render_all ts) c h = (if granted P r a then Inr (EnforcedPoke a v) else Inl (PE CapabilityViolation), c, h)"
proof -
  show "list_all printable ts" "ts \<noteq> []"
    by (simp_all add: ts_def byte_str_def is_alpha_def is_ident_char_def is_digit_def)
  show "length (render_all ts) \<le> LINE_MAX"
    using word_line_length [of a] word_line_length [of v] by (simp add: ts_def render_all_def byte_str_def LINE_MAX_def)
  show "parse P r (render_all ts) c h = (if granted P r a then Inr (EnforcedPoke a v) else Inl (PE CapabilityViolation), c, h)"
    using poke_line [of "TLit a" "Ex (TLit v) Done" P c h a h v h r] by (simp add: ts_def ok_with_def try_bind_def)
qed

text \<open>\<open>cap_claim\<close> and \<open>cap_drop\<close> with the name of a resource.\<close>

lemma cap_text:
  assumes "T \<in> set all_resources"
    and "(w, out) \<in> {(byte_str ''cap_claim'', Claim (name_of (byte_str (NAME T)))), (byte_str ''cap_drop'', Drop (name_of (byte_str (NAME T))))}"
  defines "ts \<equiv> [Identifier w, Identifier (byte_str (NAME T)), Semicolon]"
  shows "list_all printable ts" "ts \<noteq> []" "length (render_all ts) \<le> LINE_MAX" "parse P r (render_all ts) c h = (Inr out, c, h)"
proof -
  have T: "printable (Identifier (byte_str (NAME T)))" "length (byte_str (NAME T)) \<le> NAME_MAX" "length (byte_str (NAME T)) \<le> 9"
    using assms(1) by (auto simp: all_resources_def resource_defs byte_str_def NAME_MAX_def is_alpha_def is_ident_char_def is_digit_def)
  show "list_all printable ts" "ts \<noteq> []"
    using T(1) assms(2) by (auto simp: ts_def byte_str_def is_alpha_def is_ident_char_def is_digit_def)
  show "length (render_all ts) \<le> LINE_MAX"
    using T(3) assms(2) by (auto simp: ts_def render_all_def byte_str_def LINE_MAX_def)
  show "parse P r (render_all ts) c h = (Inr out, c, h)"
    unfolding ts_def by (rule name_line [OF T(1,2) assms(2)])
qed

lemma drop_answer:
  assumes "serial P out inp" and "wf_registry r" and "T \<in> set all_resources" and "RESOURCE_ID T \<in> claimed_set r" and "ready bufok r l c k"
  shows "\<exists>k'. print_pending P ovf (Some (Inr (Drop (name_of (byte_str (NAME T)))))) k = (Inr (), k')
    \<and> out (io k') = out (io k) @ byte_str ''CAP RELEASED '' @ byte_str (NAME T) @ crlf
    \<and> inp (io k') = inp (io k) \<and> ready bufok (release r (RESOURCE_ID T)) l c k'"
proof -
  let ?n = "byte_str (NAME T)" and ?i = "RESOURCE_ID T"
  have T: "length ?n \<le> NAME_MAX"
    using assms(3) by (auto simp: all_resources_def resource_defs byte_str_def NAME_MAX_def)
  have slice: "as_slice (name_of ?n) = ?n" using name_of_facts [OF T] by simp
  have id: "resolve_name ?n = Some ?i" using assms(3) resolve_name_resources by blast
  have held: "\<not> available (reg k) ?i" using assms(2,4,5) by (simp add: ready_def available_iff)
  let ?k = "k\<lparr>reg := release (reg k) ?i\<rparr>"
  have ready: "ready bufok (release r ?i) l c ?k" using assms(5) by (simp add: ready_def editable_def)
  have "says out inp (try_then (put_str P (byte_str ''CAP RELEASED '')) (put_line P ?n)) (byte_str ''CAP RELEASED '' @ ?n @ crlf)"
    by (intro says_then says_put assms(1))
  from says_ready [OF this ready] show ?thesis
    using held by (simp add: print_pending_def do_drop_def slice id)
qed

text \<open>A checked write while SUPERUSER is claimed is recorded.\<close>

lemma superuser_poke_answer:
  assumes "serial P out inp" and "wf_registry r" and "31 \<in> claimed_set r" and "a \<noteq> tx_reg (target P)" and "ready bufok r l c k"
    and "target P = Arm"
  shows "\<exists>k' cycles. print_pending P ovf (Some (Inr (EnforcedPoke a v))) k = (Inr (), k')
    \<and> out (io k') = out (io k) @ byte_str ''OK'' @ crlf \<and> inp (io k') = inp (io k)
    \<and> ready bufok r (push_entry \<lparr>ae_addr = a, ae_val = v, ae_cycles = cycles\<rparr> l) c k'"
proof -
  let ?e = "record_event (target P) (hw P) l a v (io k)"
  let ?k = "k\<lparr>audit := fst ?e, io := wr (hw P) a v (snd ?e)\<rparr>"
  have log: "fst ?e = push_entry \<lparr>ae_addr = a, ae_val = v, ae_cycles = fst (get_cycle_count (target P) (hw P) (io k))\<rparr> l"
    by (simp add: record_event_def split_beta Let_def)
  have io: "out (snd ?e) = out (io k)" "inp (snd ?e) = inp (io k)"
    using assms(1,6) by (auto simp: serial_def console_def keyboard_def record_event_def split_beta Let_def mmio_DR_def)
  have "ready bufok r (fst ?e) c ?k" using assms(5) by (simp add: ready_def editable_def)
  from says_ready [OF says_put(2) [OF assms(1), of "byte_str ''OK''"] this]
  show ?thesis using assms io log
    by (simp add: print_pending_def poke_and_report_def enforced_poke_cases permits_def report_def ready_def serial_def console_def keyboard_def)
      metis
qed

section \<open>Functions\<close>

text \<open>The definition of a function whose body is written out in numbers.\<close>

fun literal_stmt :: "bstmt \<Rightarrow> stmt0" where
  "literal_stmt (SPoke a v) = PokeS (TLit a) (Ex (TLit v) Done)"
| "literal_stmt (SPeek a) = PeekS (TLit a)"

definition fn_cmd :: "u8 list \<Rightarrow> bstmt list \<Rightarrow> Token list" where
  "fn_cmd i ys = KwFn # Identifier i # LParen # RParen # LBrace # concat (map stoks (map literal_stmt ys)) @ [RBrace]"

lemma literal_body:
  "list_all swf (map literal_stmt ys)" "list_all printable (concat (map stoks (map literal_stmt ys)))"
  "list_all (\<lambda>y. granted P r (stmt_addr y)) ys \<Longrightarrow> bseval (hw P) env (granted P r) (map literal_stmt ys) h = (Inr ys, h)"
proof -
  have 1: "swf (literal_stmt y)" "list_all printable (stoks (literal_stmt y))" for y
    by (cases y; simp add: byte_str_def is_alpha_def is_ident_char_def is_digit_def)+
  show "list_all swf (map literal_stmt ys)" "list_all printable (concat (map stoks (map literal_stmt ys)))"
    by (induction ys) (simp_all add: 1)
  have 2: "seval (hw P) env (granted P r) (literal_stmt y) h = (Inr y, h)" if "granted P r (stmt_addr y)" for y
    using that by (cases y) (simp_all add: try_bind_def ok_with_def gate_def)
  show "list_all (\<lambda>y. granted P r (stmt_addr y)) ys \<Longrightarrow> bseval (hw P) env (granted P r) (map literal_stmt ys) h = (Inr ys, h)"
    by (induction ys) (simp_all add: 2 ok_with_def try_bind_ok)
qed

lemma fn_text:
  assumes "printable (Identifier i)"
  shows "list_all printable (fn_cmd i ys)" "fn_cmd i ys \<noteq> []"
  using assms literal_body(2) [of ys] by (simp_all add: fn_cmd_def)

lemma fn_text_length:
  assumes "length i \<le> NAME_MAX"
  shows "length (render_all (fn_cmd i [SPoke a v])) \<le> LINE_MAX" "length (render_all (fn_cmd i [SPeek b, SPoke a v])) \<le> LINE_MAX"
  using word_line_length [of a] word_line_length [of v] word_line_length [of b] assms
  by (simp_all add: fn_cmd_def render_all_def byte_str_def LINE_MAX_def NAME_MAX_def)

lemma call_text:
  assumes "printable (Identifier i)" and "length i \<le> NAME_MAX"
  defines "ts \<equiv> [Identifier i, LParen, RParen, Semicolon]"
  shows "list_all printable ts" "ts \<noteq> []" "length (render_all ts) \<le> LINE_MAX"
  using assms(1,2) by (simp_all add: ts_def render_all_def LINE_MAX_def NAME_MAX_def)

lemma fn_answer:
  assumes "serial P out inp" and "length i \<le> NAME_MAX" and "ready bufok r l c k"
  shows "\<exists>k'. print_pending P ovf (Some (Inr (FnDefined (name_of i)))) k = (Inr (), k')
    \<and> out (io k') = out (io k) @ byte_str ''FN '' @ i @ byte_str '' DEFINED'' @ crlf \<and> inp (io k') = inp (io k) \<and> ready bufok r l c k'
    \<and> quiet P (io k) (io k')"
proof -
  let ?m = "try_then (put_str P (byte_str ''FN '')) (try_then (put_str P i) (put_line P (byte_str '' DEFINED'')))"
  have "says out inp ?m (byte_str ''FN '' @ i @ byte_str '' DEFINED'' @ crlf)" by (intro says_then says_put assms(1))
  from says_ready [OF this assms(3)] obtain k' where k': "?m k = (Inr (), k')"
      "out (io k') = out (io k) @ byte_str ''FN '' @ i @ byte_str '' DEFINED'' @ crlf" "inp (io k') = inp (io k)" "ready bufok r l c k'" by blast
  have "held P (console_reads (target P)) (\<lambda>b. b = tx_reg (target P)) ?m" by (simp add: stay held_put [OF polled_console])
  from staysD [OF this refl, of k] have "quiet P (io k) (io k')" by (simp add: k'(1))
  moreover have "print_pending P ovf (Some (Inr (FnDefined (name_of i)))) k = (Inr (), k')"
    using k'(1) name_of_facts [OF assms(2)] by (simp add: print_pending_def)
  ultimately show ?thesis using k'(2-4) by blast
qed

text \<open>Calling a function whose program runs: the audit log stays, the answer is OK, and the hardware
  is what the program left but for the terminal.\<close>

lemma call_answer:
  assumes "serial P out inp" and "ready bufok r l c k"
    and "program_run P p (vmach k) (ebuf k) (io k) = Some (Inr None, m', b', h')" and "bufok b'"
    and "out h' = out (io k)" and "inp h' = inp (io k)"
  shows "\<exists>k'. print_pending P ovf (Some (Inr (Run p))) k = (Inr (), k') \<and> out (io k') = out (io k) @ byte_str ''OK'' @ crlf
    \<and> inp (io k') = inp (io k) \<and> ready bufok r l c k' \<and> quiet P h' (io k')"
proof -
  let ?k = "k\<lparr>vmach := m', ebuf := b', io := h'\<rparr>"
  obtain h2 where put: "put_line P (byte_str ''OK'') ?k = (Inr (), ?k\<lparr>io := h2\<rparr>)" "out h2 = out (io ?k) @ byte_str ''OK'' @ crlf"
      "inp h2 = inp (io ?k)"
    using saysD [OF says_put(2) [OF assms(1), of "byte_str ''OK''"], of ?k] by auto
  have "held P (console_reads (target P)) (\<lambda>b. b = tx_reg (target P)) (put_line P (byte_str ''OK''))" by (rule held_put [OF polled_console]) simp
  from staysD [OF this, of ?k h'] put(1) have "quiet P h' h2" by simp
  then show ?thesis using put assms(2-6)
    by (intro exI [of _ "?k\<lparr>io := h2\<rparr>"]) (simp add: print_pending_def run_program_def Let_def ready_def editable_def)
qed

section \<open>One-line sessions\<close>

text \<open>A line and its answer.\<close>

abbreviation poke_cmd :: "u32 \<Rightarrow> u32 \<Rightarrow> u8 list" where
  "poke_cmd a v \<equiv> render_all [Identifier (byte_str ''poke''), Literal a, Literal v, Semicolon]"

definition said_claimed :: "resource \<Rightarrow> u8 list \<times> u8 list" where
  "said_claimed T = (render_all [Identifier (byte_str ''cap_claim''), Identifier (byte_str (NAME T)), Semicolon],
     byte_str ''CAP CLAIMED '' @ byte_str (NAME T) @ byte_str '' id='' @ dec_digits (RESOURCE_ID T) @ [10])"

definition said_released :: "resource \<Rightarrow> u8 list \<times> u8 list" where
  "said_released T = (render_all [Identifier (byte_str ''cap_drop''), Identifier (byte_str (NAME T)), Semicolon],
     byte_str ''CAP RELEASED '' @ byte_str (NAME T) @ crlf)"

definition said_violation :: "u32 \<Rightarrow> u32 \<Rightarrow> u8 list \<times> u8 list" where
  "said_violation a v = (poke_cmd a v, byte_str ''ERR '' @ error_text CapabilityViolation)"

definition said_poked :: "u32 \<Rightarrow> u32 \<Rightarrow> u8 list \<times> u8 list" where
  "said_poked a v = (poke_cmd a v, byte_str ''OK'' @ crlf)"

definition said_body :: "u8 list \<Rightarrow> bstmt list \<Rightarrow> u8 list \<times> u8 list" where
  "said_body i ys = (render_all (fn_cmd i ys), byte_str ''FN '' @ i @ byte_str '' DEFINED'' @ crlf)"

abbreviation said_defined :: "u8 list \<Rightarrow> u32 \<Rightarrow> u32 \<Rightarrow> u8 list \<times> u8 list" where
  "said_defined i a v \<equiv> said_body i [SPoke a v]"

definition said_called :: "u8 list \<Rightarrow> u8 list \<times> u8 list" where
  "said_called i = (render_all [Identifier i, LParen, RParen, Semicolon], byte_str ''OK'' @ crlf)"

lemmas said_defs = said_claimed_def said_released_def said_violation_def said_poked_def said_body_def said_called_def

lemma claim_session:
  assumes "serial P out inp" and "ready bufok r l c k" and "rstate k \<in> {Idle, Reading}" and "inp (io k) = fst (said_claimed T) @ 13 # later"
    and "wf_registry r" and "T \<in> set all_resources" and "RESOURCE_ID T \<notin> claimed_set r"
  shows "\<exists>k'. session P ovf out inp k [said_claimed T] k' \<and> ready bufok (snd (acquire r (RESOURCE_ID T))) l c k' \<and> inp (io k') = later"
  unfolding said_claimed_def
  by (rule ready_line [OF assms(1-3) cap_text(1-3) [where out = "Claim (name_of (byte_str (NAME T)))", OF assms(6)] assms(4) [unfolded said_claimed_def fst_conv] cap_text(4) [OF assms(6)]
      claim_answer [OF assms(1,5-7)]]) simp_all

lemma drop_session:
  assumes "serial P out inp" and "ready bufok r l c k" and "rstate k \<in> {Idle, Reading}" and "inp (io k) = fst (said_released T) @ 13 # later"
    and "wf_registry r" and "T \<in> set all_resources" and "RESOURCE_ID T \<in> claimed_set r"
  shows "\<exists>k'. session P ovf out inp k [said_released T] k' \<and> ready bufok (release r (RESOURCE_ID T)) l c k' \<and> inp (io k') = later"
  unfolding said_released_def
  by (rule ready_line [OF assms(1-3) cap_text(1-3) [where out = "Drop (name_of (byte_str (NAME T)))", OF assms(6)] assms(4) [unfolded said_released_def fst_conv] cap_text(4) [OF assms(6)]
      drop_answer [OF assms(1,5-7)]]) simp_all

lemma refused_session:
  assumes "serial P out inp" and "ready bufok r l c k" and "rstate k \<in> {Idle, Reading}" and "inp (io k) = fst (said_violation a v) @ 13 # later"
    and "\<not> granted P r a"
  shows "\<exists>k'. session P ovf out inp k [said_violation a v] k' \<and> ready bufok r l c k' \<and> inp (io k') = later"
  unfolding said_violation_def
  by (rule ready_line [OF assms(1-3) poke_text(1-3) assms(4) [unfolded said_violation_def fst_conv] _ refused_answer [OF assms(1)]])
    (simp_all add: poke_text(4) assms(5))

lemma poke_session:
  fixes k :: "('e, 'h) kern"
  assumes "serial P out inp" and "ready bufok r l c k" and "rstate k \<in> {Idle, Reading}" and "inp (io k) = fst (said_poked a v) @ 13 # later"
    and "granted P r a" and "wf_registry r" and "permits (target P) r a" and "31 \<notin> claimed_set r" and "a \<noteq> tx_reg (target P)"
  shows "\<exists>k'. session P ovf out inp k [said_poked a v] k' \<and> ready bufok r l c k' \<and> inp (io k') = later
    \<and> (\<forall>mem. cell (hw P) a mem \<longrightarrow> mem (io k') = v)"
proof -
  have "\<exists>k'. session P ovf out inp k [(poke_cmd a v, byte_str ''OK'' @ crlf)] k'
      \<and> (ready bufok r l c k' \<and> (\<forall>mem. cell (hw P) a mem \<longrightarrow> mem (io k') = v)) \<and> inp (io k') = later"
  proof (rule line_session [where C = "\<lambda>c0. c0 = c", OF assms(1-3) poke_text(1-3) assms(4) [unfolded said_poked_def fst_conv]])
    fix c0 and k1 :: "('e, 'h) kern" assume "c0 = c" and "ready bufok r l c0 k1"
    then obtain k2 where "print_pending P ovf (Some (Inr (EnforcedPoke a v))) k1 = (Inr (), k2)"
        "out (io k2) = out (io k1) @ byte_str ''OK'' @ crlf" "inp (io k2) = inp (io k1)" "ready bufok r l c k2"
        and q: "quiet P (wr (hw P) a v (io k1)) (io k2)"
      using poke_answer [OF assms(1,6-9)] by blast
    moreover have "mem (io k2) = v" if "cell (hw P) a mem" for mem
      using cell_via [OF q that] that assms(9) by (simp add: cell_def)
    ultimately show "\<exists>k2. print_pending P ovf (Some (Inr (EnforcedPoke a v))) k1 = (Inr (), k2)
        \<and> out (io k2) = out (io k1) @ byte_str ''OK'' @ crlf \<and> inp (io k2) = inp (io k1)
        \<and> ready bufok r l c k2 \<and> (\<forall>mem. cell (hw P) a mem \<longrightarrow> mem (io k2) = v)" by blast
  qed (use assms(5,9) in \<open>auto simp: poke_text(4) cell_via\<close>)
  then show ?thesis unfolding said_poked_def by blast
qed

lemma superuser_session:
  assumes "serial P out inp" and "ready bufok r l c k" and "rstate k \<in> {Idle, Reading}" and "inp (io k) = fst (said_poked a v) @ 13 # later"
    and "wf_registry r" and "31 \<in> claimed_set r" and "a \<noteq> tx_reg (target P)" and "target P = Arm"
  shows "\<exists>k' cycles. session P ovf out inp k [said_poked a v] k'
    \<and> ready bufok r (push_entry \<lparr>ae_addr = a, ae_val = v, ae_cycles = cycles\<rparr> l) c k' \<and> inp (io k') = later"
proof -
  have g: "granted P r a" using assms(5,6) by (simp add: granted_def check_access_def is_superuser_active_iff)
  have "\<exists>k'. session P ovf out inp k [(poke_cmd a v, byte_str ''OK'' @ crlf)] k'
      \<and> (\<exists>cycles. ready bufok r (push_entry \<lparr>ae_addr = a, ae_val = v, ae_cycles = cycles\<rparr> l) c k') \<and> inp (io k') = later"
    by (rule line_session [where C = "\<lambda>c0. c0 = c", OF assms(1-3) poke_text(1-3) assms(4) [unfolded said_poked_def fst_conv]])
      (use superuser_poke_answer [OF assms(1,5-7) _ assms(8)] in \<open>auto simp: poke_text(4) g\<close>)
  then show ?thesis unfolding said_poked_def by blast
qed

lemma fn_session:
  fixes i :: "u8 list"
  assumes "serial P out inp" and "ready bufok r l c k" and "rstate k \<in> {Idle, Reading}" and "inp (io k) = fst (said_body i ys) @ 13 # later"
    and "printable (Identifier i)" and "length i \<le> NAME_MAX" and "wf_comp (layout P) A c" and "list_all (\<lambda>y. granted P r (stmt_addr y)) ys"
    and "find_fn c i = None" and "\<exists>j<MAX_FNS. \<not> fn_allocated c j"
    and "length (render_all (fn_cmd i ys)) \<le> LINE_MAX" and "length (swords (layout P) ys) \<le> FN_BODY_WORDS"
  shows "\<exists>c' k'. session P ovf out inp k [said_body i ys] k' \<and> ready bufok r l c' k' \<and> inp (io k') = later
    \<and> fn_stored (layout P) c' i ys \<and> quiet P (io k) (io k')"
proof -
  have "\<exists>k'. session P ovf out inp k [(render_all (fn_cmd i ys), byte_str ''FN '' @ i @ byte_str '' DEFINED'' @ crlf)] k'
      \<and> ((\<exists>c'. ready bufok r l c' k' \<and> fn_stored (layout P) c' i ys) \<and> quiet P (io k) (io k')) \<and> inp (io k') = later"
  proof (rule line_session_keeping [where C = "\<lambda>c'. fn_stored (layout P) c' i ys" and J = "quiet P (io k)", OF assms(1-3) fn_text [OF assms(5)] assms(11) assms(4) [unfolded said_body_def fst_conv]])
    show "\<exists>c0. parse P r (render_all (fn_cmd i ys)) c h = (Inr (FnDefined (name_of i)), c0, h) \<and> fn_stored (layout P) c0 i ys" for h
      unfolding fn_cmd_def by (rule fn_stores [OF assms(7,5,6) literal_body(1,2) literal_body(3) [OF assms(8)] assms(12,9,10)])
  next
    fix c0 k1 assume k1: "fn_stored (layout P) c0 i ys" "ready bufok r l c0 k1" "quiet P (io k) (io k1)"
    from fn_answer [OF assms(1,6) k1(2), of ovf] obtain k2 where k2: "print_pending P ovf (Some (Inr (FnDefined (name_of i)))) k1 = (Inr (), k2)"
        "out (io k2) = out (io k1) @ byte_str ''FN '' @ i @ byte_str '' DEFINED'' @ crlf" "inp (io k2) = inp (io k1)"
        "ready bufok r l c0 k2" "quiet P (io k1) (io k2)" by blast
    show "\<exists>k2. print_pending P ovf (Some (Inr (FnDefined (name_of i)))) k1 = (Inr (), k2)
      \<and> out (io k2) = out (io k1) @ byte_str ''FN '' @ i @ byte_str '' DEFINED'' @ crlf \<and> inp (io k2) = inp (io k1)
      \<and> (\<exists>c'. ready bufok r l c' k2 \<and> fn_stored (layout P) c' i ys) \<and> quiet P (io k) (io k2)"
      using k2 k1(1) via_trans [OF k2(5) k1(3)] by blast
  next
    show "(\<exists>c'. ready bufok r l c' (k2\<lparr>io := h, rstate := Idle\<rparr>) \<and> fn_stored (layout P) c' i ys)
        \<and> quiet P (io k) (io (k2\<lparr>io := h, rstate := Idle\<rparr>))"
      if "(\<exists>c'. ready bufok r l c' k2 \<and> fn_stored (layout P) c' i ys) \<and> quiet P (io k) (io k2)" "quiet P (io k2) h" for k2 h
      using that via_trans [OF that(2)] by simp
    show "quiet P (io k) h'" if "quiet P (io k) h" "quiet P h h'" for h h' by (rule via_trans [OF that(2,1)])
  qed simp
  then show ?thesis unfolding said_body_def by blast
qed

text \<open>A call: \<open>J\<close> is what the program relies on, \<open>K\<close> what it establishes; the terminal disturbs neither.\<close>

lemma call_session:
  fixes k :: "('e, 'h) kern"
  assumes "serial P out inp" and "ready bufok r l c k" and "rstate k \<in> {Idle, Reading}"
    and "inp (io k) = fst (said_called i) @ 13 # later"
    and "printable (Identifier i)" and "i \<notin> reserved" and "length i \<le> NAME_MAX" and "fn_stored (layout P) c i ys"
    and run: "\<And>m b h. bufok b \<Longrightarrow> J h \<Longrightarrow> \<exists>m' b' h'. program_run P (call_program (layout P) ys) m b h = Some (Inr None, m', b', h')
      \<and> bufok b' \<and> out h' = out h \<and> inp h' = inp h \<and> K h'"
    and J: "J (io k)" "\<And>h h'. J h \<Longrightarrow> quiet P h h' \<Longrightarrow> J h'" and K: "\<And>h h'. K h \<Longrightarrow> quiet P h h' \<Longrightarrow> K h'"
  shows "\<exists>k'. session P ovf out inp k [said_called i] k' \<and> inp (io k') = later \<and> K (io k') \<and> (\<exists>c'. ready bufok r l c' k')"
proof -
  let ?p = "call_program (layout P) ys"
  have "\<exists>k'. session P ovf out inp k [(render_all [Identifier i, LParen, RParen, Semicolon], byte_str ''OK'' @ crlf)] k'
      \<and> ((\<exists>c'. ready bufok r l c' k') \<and> K (io k')) \<and> inp (io k') = later"
  proof (rule line_session_keeping [where C = "\<lambda>_. True" and J = J, OF assms(1-3) call_text [OF assms(5,7)] assms(4) [unfolded said_called_def fst_conv]])
    show "\<exists>c0. parse P r (render_all [Identifier i, LParen, RParen, Semicolon]) c h = (Inr (Run ?p), c0, h) \<and> True" for h
      using stored_call [OF assms(5,6,8), of r h] by auto
  next
    fix c0 and k1 :: "('e, 'h) kern" assume k1: "ready bufok r l c0 k1" "J (io k1)"
    then obtain m' b' h' where "program_run P ?p (vmach k1) (ebuf k1) (io k1) = Some (Inr None, m', b', h')" "bufok b'"
        "out h' = out (io k1)" "inp h' = inp (io k1)" and h': "K h'"
      using run [of "ebuf k1" "io k1" "vmach k1"] by (auto simp: ready_def)
    from call_answer [OF assms(1) k1(1) this(1-4), of ovf] K [OF h']
    show "\<exists>k2. print_pending P ovf (Some (Inr (Run ?p))) k1 = (Inr (), k2) \<and> out (io k2) = out (io k1) @ byte_str ''OK'' @ crlf
      \<and> inp (io k2) = inp (io k1) \<and> (\<exists>c'. ready bufok r l c' k2) \<and> K (io k2)" by blast
  qed (use J K in auto)
  then show ?thesis unfolding said_called_def by blast
qed

text \<open>What a function does on ARM, where it is compiled.\<close>

lemma arm_call:
  assumes "P = arm_platform lay B r0" and "valid_layout lay" and "2048 \<le> length (em_buf b)"
    and "list_all no_div (body_ops ys)" and "length (body_ops ys) < 512"
  shows "\<exists>b'. program_run P (call_program lay ys) m b h
    = Some (Inr None, vm_reset m, b', snd (snd (mrun B (ncompile (body_ops ys) False) (r0 0, r0 1, h)))) \<and> 2048 \<le> length (em_buf b')"
  using arm_program_run [OF assms(2,4,3,5), of B r0 _ False m h] unfolding call_program_def assms(1) by simp

text \<open>On ARM, the call of a function whose body is one write: the write happens, whatever the
  registry says.\<close>

lemma call_poke_session:
  fixes k :: "(Thumb2Emitter, 'h) kern"
  assumes "serial P out inp" and "ready (\<lambda>b. 2048 \<le> length (em_buf b)) r l c k" and "rstate k \<in> {Idle, Reading}"
    and "inp (io k) = fst (said_called i) @ 13 # later"
    and "P = arm_platform lay B r0" and "valid_layout lay" and "a \<noteq> tx_reg Arm" and "cell B a mem"
    and "printable (Identifier i)" and "i \<notin> reserved" and "length i \<le> NAME_MAX" and "fn_stored lay c i [SPoke a v]"
  shows "\<exists>k'. session P ovf out inp k [said_called i] k' \<and> inp (io k') = later \<and> mem (io k') = v
    \<and> (\<exists>c'. ready (\<lambda>b. 2048 \<le> length (em_buf b)) r l c' k')"
proof (rule call_session [where J = "\<lambda>_. True" and ys = "[SPoke a v]", OF assms(1-4,9-11)])
  have P: "layout P = lay" "hw P = B" "target P = Arm" by (simp_all add: assms(5) arm_platform_def)
  then show "fn_stored (layout P) c i [SPoke a v]" using assms(12) by simp
  have out: "out (wr B a v h) = out h" "inp (wr B a v h) = inp h" for h
    using assms(1,7) P by (auto simp: serial_def console_def keyboard_def)
  show "\<exists>m' b' h'. program_run P (call_program (layout P) [SPoke a v]) m b h = Some (Inr None, m', b', h')
      \<and> 2048 \<le> length (em_buf b') \<and> out h' = out h \<and> inp h' = inp h \<and> mem h' = v" if "2048 \<le> length (em_buf b)" for m b h
  proof -
    have "list_all no_div (body_ops [SPoke a v])" "length (body_ops [SPoke a v]) < 512"
      "snd (snd (mrun B (ncompile (body_ops [SPoke a v]) False) (r0 0, r0 1, h))) = wr B a v h" by (simp_all add: poke_ops_def)
    with arm_call [OF assms(5,6) that, of "[SPoke a v]" m h] show ?thesis
      using assms(8) out by (auto simp: P(1) cell_def)
  qed
  show "mem h' = v" if "mem h = v" "quiet P h h'" for h h'
    using cell_via [of B _ _ h h' a mem] that assms(7,8) by (auto simp: P)
qed simp_all

text \<open>Registers of the simulated device that are not the terminal keep what is written.\<close>

lemma sim_cell: "a \<noteq> tx_reg t \<Longrightarrow> cell (sim_bus t) a (\<lambda>s. sim_mem s a)"
  by (auto simp: cell_def sim_bus_def)

end
