(* ===== verification/System.thy ===== *)
theory System
  imports Dialogue Faults
begin

text \<open>
  The kernel as a whole: properties of boot and of the control loop that span all components,
  from the byte on the serial line to the answer on the terminal.
\<close>

section \<open>Boot\<close>

lemma drain_returns:
  assumes "console a B out" and "keyboard a B inp"
  shows "\<exists>h'. drain a B h = Some h' \<and> inp h' = [] \<and> out h' = out h"
proof (induction "length (inp h)" arbitrary: h)
  case 0
  then show ?case
    using poll_keyboard [OF assms(2), of h] poll_console [OF assms(1), of h] by (subst drain.simps) simp
next
  case (Suc n)
  let ?h = "snd (poll_get_byte a B h)"
  have "length (inp ?h) = n" "fst (poll_get_byte a B h) \<noteq> None"
    using Suc(2) poll_keyboard [OF assms(2), of h] by (auto simp: Suc_length_conv)
  then show ?case
    using Suc(1) [of ?h] poll_console [OF assms(1), of h] by (subst drain.simps) auto
qed

lemma copy_words_out:
  assumes "console a B out" and "\<forall>i\<in>set is. dst + 4 * of_nat i \<noteq> tx_reg a"
  shows "out (copy_words B src dst is h) = out h"
  using assms(2)
proof (induction "is" arbitrary: h)
  case (Cons i "is")
  then show ?case using assms(1) by (simp add: console_def split_beta Let_def)
qed simp

lemma relocate_out:
  assumes "console a B out" and "tx_reg a \<notin> words_at (table_addr l) VECTOR_SLOTS" and "\<And>v h. out (csrw v h) = out h"
  shows "out (boot_relocate_vectors a B csrw l h) = out h"
proof (cases a)
  case Arm
  let ?n = "min (unat ((vector_end l - vector_start l) div 4)) VECTOR_SLOTS"
  have "table_addr l + 4 * of_nat i \<in> words_at (table_addr l) VECTOR_SLOTS" if "i < VECTOR_SLOTS" for i
    using that by (auto simp: words_at_def)
  then have "\<forall>i\<in>set [0..<?n]. table_addr l + 4 * of_nat i \<noteq> tx_reg a"
    using assms(2) by (metis atLeastLessThan_iff min_less_iff_conj set_upt)
  from copy_words_out [OF assms(1) this, of "vector_start l" h]
  show ?thesis using Arm assms(1) by (simp add: Let_def console_def VTOR_def mmio_DR_def)
qed (simp add: assms(3))

lemma uart_init_out: "console a B out \<Longrightarrow> out (uart_init a B h) = out h"
  by (cases a) (auto simp: console_def split_beta Let_def peek_u32_def poke_u32_def mmio_CR1_def mmio_DR_def)

lemma boot_frame:
  assumes "boot P csrw l k = (Inr (), k')"
  shows "\<exists>h. k' = k\<lparr>rstate := Idle, pending := None, io := h\<rparr>"
  using assms
  by (auto simp: boot_def run_start_def prompt_def put_str_def transmit_def on_io_def try_then_Inr_iff split: option.splits)

lemma kern_init_inv:
  assumes "wf_registry r0" and "bufok e0" and "boot P csrw l (kern_init r0 e0 h) = (Inr (), k)"
  shows "kinv P bufok k"
  using boot_frame [OF assms(3)] assms(1,2) audit_rep_new
  by (auto simp: kern_init_def kinv_def kcore_def wf_comp_new)

lemma boot_returns:
  fixes k :: "('e, 'h) kern"
  assumes "serial P out inp" and "tx_reg (target P) \<notin> words_at (table_addr l) VECTOR_SLOTS"
  shows "(\<exists>k'. boot P csrw l k = (Inr (), k')) \<and> ((\<forall>v h. out (csrw v h) = out h) \<longrightarrow> (\<exists>h'.
      boot P csrw l k = (Inr (), k\<lparr>rstate := Idle, pending := None, io := h'\<rparr>)
      \<and> out h' = out (io k) @ BANNER @ byte_str ''holy> '' \<and> inp h' = []))"
proof -
  have con: "console (target P) (hw P) out" and key: "keyboard (target P) (hw P) inp" using assms(1) by (simp_all add: serial_def)
  let ?h0 = "uart_init (target P) (hw P) (io k)"
  obtain h1 where h1: "write_str (target P) (hw P) BANNER ?h0 = Some h1" "out h1 = out (io k) @ BANNER"
    using write_str_console [OF con, of BANNER ?h0] uart_init_out [OF con] by auto
  let ?h2 = "boot_relocate_vectors (target P) (hw P) csrw l h1"
  obtain h3 where h3: "drain (target P) (hw P) ?h2 = Some h3" "inp h3 = []" "out h3 = out ?h2"
    using drain_returns [OF con key] by blast
  obtain h4 where h4: "write_str (target P) (hw P) (byte_str ''holy> '') h3 = Some h4" "out h4 = out h3 @ byte_str ''holy> ''" "inp h4 = []"
    using write_str_serial [OF con key, of "byte_str ''holy> ''" h3] h3(2) by auto
  have "boot P csrw l k = (Inr (), k\<lparr>rstate := Idle, pending := None, io := h4\<rparr>)"
    using h1(1) h3(1) h4(1)
    by (simp add: boot_def run_start_def prompt_def put_str_def transmit_def on_io_def try_then_def try_bind_def)
  then show ?thesis using relocate_out [OF con assms(2), of csrw h1] h1 h3 h4 by auto
qed

lemma far_table: "mmio_DR \<notin> words_at 0x20000400 VECTOR_SLOTS" "mmio_TXDATA \<notin> words_at 0x20000400 VECTOR_SLOTS"
proof -
  have "0x20000400 \<le> unat x \<and> unat x < 0x20000800" if x: "x \<in> words_at 0x20000400 VECTOR_SLOTS" for x
  proof -
    from x obtain i where i: "x = 0x20000400 + 4 * of_nat i" "i < 256" by (auto simp: words_at_def VECTOR_SLOTS_def)
    then have "unat x = 0x20000400 + 4 * i" using section_end [of "0x20000400" i] by simp
    with i(2) show ?thesis by simp
  qed
  from this [of mmio_DR] this [of mmio_TXDATA]
  show "mmio_DR \<notin> words_at 0x20000400 VECTOR_SLOTS" "mmio_TXDATA \<notin> words_at 0x20000400 VECTOR_SLOTS"
    by (auto simp: mmio_DR_def mmio_TXDATA_def)
qed

section \<open>Properties\<close>

text \<open>On a bus whose every access returns, and with the memory of the kernel to itself, no turn
  stops but for a transmitter that never becomes free and, with overflow checks, a shift.\<close>

lemma riscv_turns_return:
  assumes "valid_layout lay" and "P = riscv_platform lay B r" and "wf_registry reg0" and "256 \<le> length (em_buf e0)"
    and "boot P csrw l (kern_init reg0 e0 h) = (Inr (), k)" and "run_steps P ovf n k = (res, k')"
  shows "kinv P (\<lambda>b. 256 \<le> length (em_buf b)) k'
    \<and> (res = Inr () \<or> res = Inl Hang \<and> \<not> responsive P \<or> res = Inl shift_panic \<and> ovf)"
proof -
  have "kinv P (\<lambda>b. 256 \<le> length (em_buf b)) k"
    by (rule kern_init_inv [where bufok = "\<lambda>b. 256 \<le> length (em_buf b)", OF assms(3) _ assms(5)]) (rule assms(4))
  from riscv_machine.steps_inv [OF this [unfolded assms(2)] assms(6) [unfolded assms(2)]] assms(1,2)
  show ?thesis by (cases res) (auto simp: riscv_platform_def stops_ok_def)
qed

lemma arm_turns_return:
  assumes "valid_layout lay" and "P = arm_platform lay B r" and "wf_registry reg0" and "2048 \<le> length (em_buf e0)"
    and "boot P csrw l (kern_init reg0 e0 h) = (Inr (), k)" and "run_steps P ovf n k = (res, k')"
  shows "kinv P (\<lambda>b. 2048 \<le> length (em_buf b)) k'
    \<and> (res = Inr () \<or> res = Inl Hang \<and> \<not> responsive P \<or> res = Inl shift_panic \<and> ovf)"
proof -
  have "kinv P (\<lambda>b. 2048 \<le> length (em_buf b)) k"
    by (rule kern_init_inv [where bufok = "\<lambda>b. 2048 \<le> length (em_buf b)", OF assms(3) _ assms(5)]) (rule assms(4))
  from arm_machine.steps_inv [OF this [unfolded assms(2)] assms(6) [unfolded assms(2)]] assms(1,2)
  show ?thesis by (cases res) (auto simp: arm_platform_def stops_ok_def)
qed

text \<open>A booted kernel, for the lemmas on runs.\<close>

lemma booted:
  assumes "wf_registry reg0" and "bufok e0" and "boot P csrw l (kern_init reg0 e0 h) = (Inr (), k)"
  shows "kinv P bufok k" "gated P k" "rstate k = Idle"
  using kern_init_inv [of reg0 bufok e0 P csrw l h k, OF assms] boot_frame [OF assms(3)] by (auto simp: gated_def)

text \<open>C3: what can stop the kernel, on both targets. After boot with any registry and executable buffer,
  let the console send anything, let the addresses in \<open>F\<close> fault when accessed (no register of the
  console among them), and let writes to RAM replace the kernel's statics between turns by any
  well-formed contents. Every state between turns is well formed (line within its buffer and
  printable; compiler, registry and audit log well formed; an outcome pending only while printing),
  and its next turn returns, or faults at an address of \<open>F\<close>, or hangs on a transmitter that never
  becomes free, or, with overflow checks only, panics on a bit number of 32 or more. Only two
  kinds of turn can fault: one that compiles a line, with a read, and one that carries out a register
  command or the body of a function; waiting, editing and printing never do. After a fault
  the core runs its fault handler and does not come back.\<close>

theorem kernel_never_stops:
  assumes "valid_layout lay" and "wf_registry reg0"
  shows "(P = arm_platform lay (traced B) r \<and> 2048 \<le> length (em_buf e) \<and> console_answers Arm F
        \<and> boot P csrw l (kern_init reg0 e h) = (Inr (), k)
        \<longrightarrow> survives F P (\<lambda>b. 2048 \<le> length (em_buf b)) ovf k)
    \<and> (Q = riscv_platform lay (traced B') r \<and> 256 \<le> length (em_buf e') \<and> console_answers Riscv32 F
        \<and> boot Q csrw' l (kern_init reg0 e' h') = (Inr (), k')
        \<longrightarrow> survives F Q (\<lambda>b. 256 \<le> length (em_buf b)) ovf k')"
proof (intro conjI impI; elim conjE)
  let ?b = "\<lambda>b. 2048 \<le> length (em_buf b)"
  assume P: "P = arm_platform lay (traced B) r" and e: "?b e" and F: "console_answers Arm F"
    and k: "boot P csrw l (kern_init reg0 e h) = (Inr (), k)"
  note start = booted [where bufok = ?b, OF assms(2) e k]
  have "quiet_machine P ?b" unfolding P by (rule arm_quiet.quiet_machine_axioms)
  from survives_quiet [OF this _ start(1,2)] show "survives F P ?b ovf k"
    using assms(1) F P by (simp add: platform_parts)
next
  let ?b = "\<lambda>b. 256 \<le> length (em_buf b)"
  assume Q: "Q = riscv_platform lay (traced B') r" and e: "?b e'" and F: "console_answers Riscv32 F"
    and k: "boot Q csrw' l (kern_init reg0 e' h') = (Inr (), k')"
  note start = booted [where bufok = ?b, OF assms(2) e k]
  have "quiet_machine Q ?b" unfolding Q by (rule riscv_quiet.quiet_machine_axioms)
  from survives_quiet [OF this _ start(1,2)] show "survives F Q ?b ovf k'"
    using assms(1) F Q by (simp add: platform_parts)
qed

text \<open>The simulated devices of the witnesses, booted on a traced bus.\<close>

lemma sim_boots:
  fixes bytes :: "u8 list"
  defines "l \<equiv> \<lparr>vector_start = 0x08000000, vector_end = 0x08000040, table_addr = 0x20000400, trap_hang = 0\<rparr>"
  shows "\<exists>k. boot (arm_platform example_layout (traced (sim_bus Arm)) (\<lambda>_. 0)) (\<lambda>_ h. h) l
      (kern_init REGISTRY_BITS (t2_into_exec_buffer (replicate 2048 0)) (\<lparr>sim_mem = (\<lambda>_. 0), sim_tx = [], sim_rx = bytes\<rparr>, [])) = (Inr (), k)"
    "\<exists>k. boot (riscv_platform example_layout (traced (sim_bus Riscv32)) (\<lambda>_. 0)) (\<lambda>_ h. h) l
      (kern_init REGISTRY_BITS (rv_into_exec_buffer (replicate 256 0)) (\<lparr>sim_mem = (\<lambda>_. 0), sim_tx = [], sim_rx = bytes\<rparr>, [])) = (Inr (), k)"
proof -
  let ?A = "arm_platform example_layout (traced (sim_bus Arm)) (\<lambda>_. 0)" and ?R = "riscv_platform example_layout (traced (sim_bus Riscv32)) (\<lambda>_. 0)"
  have "serial ?A (\<lambda>h. sim_tx (fst h)) (\<lambda>h. sim_rx (fst h))" "serial ?R (\<lambda>h. sim_tx (fst h)) (\<lambda>h. sim_rx (fst h))"
    using traced_serial [OF sim_console [of Arm] sim_keyboard [of Arm]] traced_serial [OF sim_console [of Riscv32] sim_keyboard [of Riscv32]]
    by (simp_all add: serial_def platform_parts)
  moreover have "tx_reg (target ?A) \<notin> words_at (table_addr l) VECTOR_SLOTS" "tx_reg (target ?R) \<notin> words_at (table_addr l) VECTOR_SLOTS"
    using far_table by (simp_all add: platform_parts l_def)
  ultimately show "\<exists>k. boot ?A (\<lambda>_ h. h) l (kern_init REGISTRY_BITS (t2_into_exec_buffer (replicate 2048 0)) (\<lparr>sim_mem = (\<lambda>_. 0), sim_tx = [], sim_rx = bytes\<rparr>, [])) = (Inr (), k)"
    "\<exists>k. boot ?R (\<lambda>_ h. h) l (kern_init REGISTRY_BITS (rv_into_exec_buffer (replicate 256 0)) (\<lparr>sim_mem = (\<lambda>_. 0), sim_tx = [], sim_rx = bytes\<rparr>, [])) = (Inr (), k)"
    using boot_returns by blast+
qed

text \<open>The witness: on the simulated devices, with everything below 0x10000 faulting, the first turn
  after boot does not fault on either target.\<close>

theorem kernel_never_stops_witness:
  "\<exists>k k'. boot (arm_platform example_layout (traced (sim_bus Arm)) (\<lambda>_. 0)) (\<lambda>_ h. h)
      \<lparr>vector_start = 0x08000000, vector_end = 0x08000040, table_addr = 0x20000400, trap_hang = 0\<rparr>
      (kern_init REGISTRY_BITS (t2_into_exec_buffer (replicate 2048 0)) (\<lparr>sim_mem = (\<lambda>_. 0), sim_tx = [], sim_rx = [0x61]\<rparr>, [])) = (Inr (), k)
    \<and> (\<exists>y. fturn (\<lambda>a. a < 0x10000) (arm_platform example_layout (traced (sim_bus Arm)) (\<lambda>_. 0)) False k = Inr y)
    \<and> boot (riscv_platform example_layout (traced (sim_bus Riscv32)) (\<lambda>_. 0)) (\<lambda>_ h. h)
      \<lparr>vector_start = 0x08000000, vector_end = 0x08000040, table_addr = 0x20000400, trap_hang = 0\<rparr>
      (kern_init REGISTRY_BITS (rv_into_exec_buffer (replicate 256 0)) (\<lparr>sim_mem = (\<lambda>_. 0), sim_tx = [], sim_rx = [0x61]\<rparr>, [])) = (Inr (), k')
    \<and> (\<exists>y. fturn (\<lambda>a. a < 0x10000) (riscv_platform example_layout (traced (sim_bus Riscv32)) (\<lambda>_. 0)) False k' = Inr y)"
proof -
  let ?A = "arm_platform example_layout (traced (sim_bus Arm)) (\<lambda>_. 0)" and ?R = "riscv_platform example_layout (traced (sim_bus Riscv32)) (\<lambda>_. 0)"
  let ?F = "\<lambda>a :: u32. a < 0x10000"
  obtain k k' where k: "boot ?A (\<lambda>_ h. h) \<lparr>vector_start = 0x08000000, vector_end = 0x08000040, table_addr = 0x20000400, trap_hang = 0\<rparr>
        (kern_init REGISTRY_BITS (t2_into_exec_buffer (replicate 2048 0)) (\<lparr>sim_mem = (\<lambda>_. 0), sim_tx = [], sim_rx = [0x61]\<rparr>, [])) = (Inr (), k)"
      and k': "boot ?R (\<lambda>_ h. h) \<lparr>vector_start = 0x08000000, vector_end = 0x08000040, table_addr = 0x20000400, trap_hang = 0\<rparr>
        (kern_init REGISTRY_BITS (rv_into_exec_buffer (replicate 256 0)) (\<lparr>sim_mem = (\<lambda>_. 0), sim_tx = [], sim_rx = [0x61]\<rparr>, [])) = (Inr (), k')"
    using sim_boots [of "[0x61]"] by blast
  have F: "console_answers Arm ?F" "console_answers Riscv32 ?F"
    by (simp_all add: console_answers_def mmio_SR_def mmio_DR_def mmio_TXDATA_def mmio_RXDATA_def)
  have e: "2048 \<le> length (em_buf (t2_into_exec_buffer (replicate 2048 0)))" "256 \<le> length (em_buf (rv_into_exec_buffer (replicate 256 0)))"
    by (simp_all add: t2_into_exec_buffer_def rv_into_exec_buffer_def)
  have s: "survives ?F ?A (\<lambda>b. 2048 \<le> length (em_buf b)) False k" "survives ?F ?R (\<lambda>b. 256 \<le> length (em_buf b)) False k'"
    using kernel_never_stops [OF example_layout_valid wf_registry_ops(3)] e F k k' by blast+
  have i: "rstate k = Idle" "rstate k' = Idle" using boot_frame [OF k] boot_frame [OF k'] by auto
  note a = survives_idle [OF s(1) i(1)] and b = survives_idle [OF s(2) i(2)]
  show ?thesis by (rule exI [of _ k], rule exI [of _ k'], rule conjI, rule k, rule conjI, rule a, rule conjI, rule k', rule b)
qed

text \<open>C5: mediation, on both targets. Start from boot with any registry; let the console send anything,
  let any set of addresses fault, and let writes to RAM have replaced the kernel's statics between
  turns by any well-formed contents (a forged registry among them). Every turn of the control
  loop, however late, writes no register but the transmitter of the console and registers that the
  capability check grants at that moment; the only turns excluded are those that run the body of
  a function. Writes that leave the statics malformed, or that hit the stack or the code, are
  outside the model.\<close>

theorem run_writes_mediated:
  assumes "valid_layout lay" and "wf_registry reg0"
  shows "(P = arm_platform lay (traced B) r \<and> 2048 \<le> length (em_buf e) \<and> boot P csrw l (kern_init reg0 e h) = (Inr (), k)
        \<longrightarrow> mediated F P (\<lambda>b. 2048 \<le> length (em_buf b)) ovf k)
    \<and> (Q = riscv_platform lay (traced B') r \<and> 256 \<le> length (em_buf e') \<and> boot Q csrw' l (kern_init reg0 e' h') = (Inr (), k')
        \<longrightarrow> mediated F Q (\<lambda>b. 256 \<le> length (em_buf b)) ovf k')"
proof (intro conjI impI; elim conjE)
  let ?b = "\<lambda>b. 2048 \<le> length (em_buf b)"
  assume P: "P = arm_platform lay (traced B) r" and e: "?b e" and k: "boot P csrw l (kern_init reg0 e h) = (Inr (), k)"
  note start = booted [where bufok = ?b, OF assms(2) e k]
  have "quiet_machine P ?b" unfolding P by (rule arm_quiet.quiet_machine_axioms)
  from mediated_quiet [OF this _ start(1,2)] show "mediated F P ?b ovf k"
    using assms(1) P by (simp add: platform_parts)
next
  let ?b = "\<lambda>b. 256 \<le> length (em_buf b)"
  assume Q: "Q = riscv_platform lay (traced B') r" and e: "?b e'" and k: "boot Q csrw' l (kern_init reg0 e' h') = (Inr (), k')"
  note start = booted [where bufok = ?b, OF assms(2) e k]
  have "quiet_machine Q ?b" unfolding Q by (rule riscv_quiet.quiet_machine_axioms)
  from mediated_quiet [OF this _ start(1,2)] show "mediated F Q ?b ovf k'"
    using assms(1) Q by (simp add: platform_parts)
qed

text \<open>The witness: on the simulated ARM device, after boot and a write to RAM that forged a registry with
  everything claimed, a turn writes only the transmitter and what the forged registry grants.\<close>

theorem run_writes_mediated_witness:
  "\<exists>k k1 k2. boot (arm_platform example_layout (traced (sim_bus Arm)) (\<lambda>_. 0)) (\<lambda>_ h. h)
      \<lparr>vector_start = 0x08000000, vector_end = 0x08000040, table_addr = 0x20000400, trap_hang = 0\<rparr>
      (kern_init REGISTRY_BITS (t2_into_exec_buffer (replicate 2048 0)) (\<lparr>sim_mem = (\<lambda>_. 0), sim_tx = [], sim_rx = [0x61]\<rparr>, [])) = (Inr (), k)
    \<and> k1 = k\<lparr>reg := replicate 8 0xFFFFFFFF\<rparr> \<and> k2 = snd (repl_step (arm_platform example_layout (traced (sim_bus Arm)) (\<lambda>_. 0)) False k1)
    \<and> (\<exists>s. snd (io k2) = snd (io k1) @ s \<and> (\<forall>a v. Wr a v \<in> set s \<longrightarrow> a = mmio_DR \<or> check_access Arm (reg k1) a = Inr ()))"
proof -
  let ?A = "arm_platform example_layout (traced (sim_bus Arm)) (\<lambda>_. 0)" and ?b = "\<lambda>b. 2048 \<le> length (em_buf (b :: Thumb2Emitter))"
  let ?e = "t2_into_exec_buffer (replicate 2048 0)"
  obtain k where k: "boot ?A (\<lambda>_ h. h) \<lparr>vector_start = 0x08000000, vector_end = 0x08000040, table_addr = 0x20000400, trap_hang = 0\<rparr>
        (kern_init REGISTRY_BITS ?e (\<lparr>sim_mem = (\<lambda>_. 0), sim_tx = [], sim_rx = [0x61]\<rparr>, [])) = (Inr (), k)"
    using sim_boots(1) [of "[0x61]"] by blast
  have e: "?b ?e" by (simp add: t2_into_exec_buffer_def)
  have m: "mediated (\<lambda>_. False) ?A ?b False k"
    using run_writes_mediated [OF example_layout_valid wf_registry_ops(3)] e k by blast
  let ?k = "k\<lparr>reg := replicate 8 0xFFFFFFFF\<rparr>"
  have kv: "kinv ?A ?b k" "rstate k = Idle" by (rule booted [where bufok = ?b, OF wf_registry_ops(3) e k])+
  then have "kinv ?A ?b ?k" by (simp add: kinv_def kcore_def wf_registry_def)
  then have rk: "reach (\<lambda>_. False) ?A ?b False k ?k"
    using reach.tamper [OF reach.start, of k ?A ?b ?k "\<lambda>_. False" False] kv(2) by simp
  have q: "quiet_turn ?A ?k" using kv(2) by (simp add: quiet_turn_def)
  have "\<exists>s. snd (io (snd (repl_step ?A False ?k))) = snd (io ?k) @ s
      \<and> (\<forall>a v. Wr a v \<in> set s \<longrightarrow> a = mmio_DR \<or> check_access Arm (reg ?k) a = Inr ())"
    using m rk q unfolding mediated_def platform_parts tx_reg.simps by blast
  then show ?thesis using k by blast
qed

text \<open>C17: boot reaches the prompt. With a transmitter that becomes free and finitely many bytes
  waiting, boot terminates, has sent exactly the banner and the first prompt, has discarded the
  waiting bytes, and leaves the registry as it found it: whatever the uninitialised section held
  counts as claimed.\<close>

theorem boot_prompts:
  assumes "serial P out inp" and "tx_reg (target P) \<notin> words_at (table_addr l) VECTOR_SLOTS" and "\<forall>v h. out (csrw v h) = out h"
  shows "\<exists>h'. boot P csrw l (kern_init reg0 e0 h) = (Inr (), kern_init reg0 e0 h')
    \<and> out h' = out h @ BANNER @ byte_str ''holy> '' \<and> inp h' = []"
proof -
  from boot_returns [OF assms(1,2), of csrw "kern_init reg0 e0 h"] assms(3)
  obtain h' where "boot P csrw l (kern_init reg0 e0 h) = (Inr (), (kern_init reg0 e0 h)\<lparr>rstate := Idle, pending := None, io := h'\<rparr>)"
      "out h' = out h @ BANNER @ byte_str ''holy> ''" "inp h' = []" by (auto simp: kern_init_def)
  then show ?thesis by (intro exI [of _ h']) (simp add: kern_init_def)
qed

theorem boot_prompts_witness:
  "\<exists>h'. boot (arm_platform example_layout (sim_bus Arm) (\<lambda>_. 0)) (\<lambda>_ h. h)
      \<lparr>vector_start = 0x08000000, vector_end = 0x08000040, table_addr = 0x20000400, trap_hang = 0\<rparr>
      (kern_init [0x80000000, 0, 0, 0, 0, 0, 0, 0] (t2_into_exec_buffer [])
        \<lparr>sim_mem = (\<lambda>_. 0), sim_tx = [], sim_rx = [1, 2, 3]\<rparr>)
      = (Inr (), kern_init [0x80000000, 0, 0, 0, 0, 0, 0, 0] (t2_into_exec_buffer []) h')
    \<and> sim_tx h' = byte_str ''Holy Rust REPL v0.1'' @ crlf @ byte_str ''holy> ''"
proof -
  let ?P = "arm_platform example_layout (sim_bus Arm) (\<lambda>_. 0)"
  have "serial ?P sim_tx sim_rx" using sim_console [of Arm] sim_keyboard [of Arm] by (simp add: serial_def arm_platform_def)
  then show ?thesis
    using boot_prompts [of ?P sim_tx sim_rx "\<lparr>vector_start = 0x08000000, vector_end = 0x08000040, table_addr = 0x20000400, trap_hang = 0\<rparr>"
        "\<lambda>_ h. h" "[0x80000000, 0, 0, 0, 0, 0, 0, 0]" "t2_into_exec_buffer []" "\<lparr>sim_mem = (\<lambda>_. 0), sim_tx = [], sim_rx = [1, 2, 3]\<rparr>"]
      far_table by (auto simp: arm_platform_def BANNER_def)
qed

text \<open>C18: the line editor is a fold on lists. While bytes other than a line end arrive, in any
  order (characters, tabs, backspaces, kills, cancels, control bytes, too many characters), each
  turn takes one, the line is what folding \<open>edit\<close> over them gives, the terminal shows exactly
  their echoes, and nothing else of the kernel state changes.\<close>

theorem line_editor_refines:
  assumes "serial P out inp" and "kinv P bufok k" and "rstate k \<in> {Idle, Reading}" and "inp (io k) = bs @ later"
    and "list_all (\<lambda>b. \<not> is_eol b) bs"
  shows "\<exists>k'. run_steps P ovf (length bs) k = (Inr (), k') \<and> rstate k' \<in> {Idle, Reading} \<and> same_rest k k'
    \<and> line_text k' = foldl edit (line_text k) bs \<and> length (line_text k') \<le> LINE_MAX
    \<and> out (io k') = out (io k) @ echoes (line_text k) bs \<and> inp (io k') = later"
proof -
  have "editable k" using assms(2) by (simp add: kinv_def kcore_def editable_def)
  from typed_bytes [OF assms(1) this assms(3-5), of ovf] show ?thesis
    by (auto simp: editable_def line_text_def)
qed

theorem line_editor_refines_witness:
  "\<exists>k'. run_steps (arm_platform example_layout (sim_bus Arm) (\<lambda>_. 0)) False 4
      (kern_init REGISTRY_BITS (t2_into_exec_buffer []) \<lparr>sim_mem = (\<lambda>_. 0), sim_tx = [], sim_rx = [0x61, 0x62, 0x7F, 9]\<rparr>) = (Inr (), k')
    \<and> line_text k' = [0x61, 0x20] \<and> sim_tx (io k') = [0x61, 0x62, 8, 32, 8, 0x20]"
proof -
  let ?P = "arm_platform example_layout (sim_bus Arm) (\<lambda>_. 0)"
  let ?k = "kern_init REGISTRY_BITS (t2_into_exec_buffer []) \<lparr>sim_mem = (\<lambda>_. 0), sim_tx = [], sim_rx = [0x61, 0x62, 0x7F, 9]\<rparr>"
  let ?bs = "[0x61, 0x62, 0x7F, 9 :: u8]"
  have ser: "serial ?P sim_tx sim_rx" using sim_console [of Arm] sim_keyboard [of Arm] by (simp add: serial_def arm_platform_def)
  have kv: "kinv ?P (\<lambda>_. True) ?k" using audit_rep_new by (auto simp: kern_init_def kinv_def kcore_def wf_comp_new)
  have st: "rstate ?k \<in> {Idle, Reading}" "sim_rx (io ?k) = ?bs @ []" and start: "line_text ?k = []" "sim_tx (io ?k) = []"
    by (simp_all add: kern_init_def line_text_def)
  have eol: "list_all (\<lambda>b. \<not> is_eol b) ?bs" by (simp add: is_eol_def)
  have ed: "foldl edit [] ?bs = [0x61, 0x20]" "echoes [] ?bs = [0x61, 0x62, 8, 32, 8, 0x20]" "length ?bs = 4"
    by (simp_all add: edit_def echo_def LINE_MAX_def)
  obtain k' where "run_steps ?P False 4 ?k = (Inr (), k')" "line_text k' = [0x61, 0x20]" "sim_tx (io k') = [0x61, 0x62, 8, 32, 8, 0x20]"
    using line_editor_refines [OF ser kv st eol, of False] unfolding start ed by auto
  then show ?thesis by blast
qed

text \<open>An expression typed as a line, for a back end that turns its value into \<open>w\<close>.\<close>

lemma expression_session:
  assumes "serial P out inp" and "ready bufok r l c k" and "rstate k \<in> {Idle, Reading}" and "inp (io k) = s @ 13 # later"
    and "s = render_all (etoks e @ [Semicolon])" and "length s \<le> LINE_MAX" and "ewf e" and "list_all printable (etoks e)"
    and "(\<exists>w. hd (etoks e) = Literal w) \<or> hd (etoks e) = LParen" and "length (out_stream c) = MAX_STREAM_WORDS"
    and "\<And>h. eeval (hw P) (lookup_symbol (symbols c)) e h = (Inr v, h)"
    and run: "\<And>m b h. bufok b \<Longrightarrow> \<exists>m' b'. program_run P (value_program (layout P) v) m b h = Some (Inr (Some w), m', b', h)"
  shows "\<exists>k'. session P ovf out inp k [(s, byte_str ''= '' @ value_text w)] k' \<and> inp (io k') = later"
proof -
  have ts: "list_all printable (etoks e @ [Semicolon])" "etoks e @ [Semicolon] \<noteq> []" using assms(8) by simp_all
  have parse: "\<exists>c0. parse P r (render_all (etoks e @ [Semicolon])) c h = (Inr (Run (value_program (layout P) v)), c0, h) \<and> True" for h
    using bare_line [OF assms(8,7,9), of P c h v h r] assms(10,11) by auto
  have answer: "\<exists>k2. print_pending P ovf (Some (Inr (Run (value_program (layout P) v)))) k1 = (Inr (), k2)
      \<and> out (io k2) = out (io k1) @ byte_str ''= '' @ value_text w \<and> inp (io k2) = inp (io k1) \<and> True"
    if "ready bufok r l c0 k1" for c0 k1
  proof -
    obtain m' b' where run: "program_run P (value_program (layout P) v) (vmach k1) (ebuf k1) (io k1) = Some (Inr (Some w), m', b', io k1)"
      using run [of "ebuf k1" "vmach k1" "io k1"] \<open>ready bufok r l c0 k1\<close> by (auto simp: ready_def)
    let ?k = "k1\<lparr>vmach := m', ebuf := b'\<rparr>"
    from saysD [OF says_then [OF says_put(1) [OF assms(1)] says_value [OF assms(1)]], of "byte_str ''= ''" w ?k]
    obtain h2 where "try_then (put_str P (byte_str ''= '')) (write_value P w) ?k = (Inr (), ?k\<lparr>io := h2\<rparr>)"
        "out h2 = out (io k1) @ byte_str ''= '' @ value_text w" "inp h2 = inp (io k1)" by auto
    then show ?thesis using run
      by (intro exI [of _ "?k\<lparr>io := h2\<rparr>"]) (simp add: print_pending_def run_program_def Let_def)
  qed
  from line_session [where C = "\<lambda>_. True" and Q = "\<lambda>_. True", OF assms(1-3) ts assms(6,4) [unfolded assms(5)] parse answer TrueI]
  show ?thesis unfolding assms(5) by simp
qed

text \<open>C7: from the keyboard to the answer. On ARM, typing the printed form of an expression that
  reads no memory, starts with a number or a parenthesis and is at most \<open>LINE_MAX\<close> bytes long,
  then return, produces after that many turns plus two exactly the echoed line,
  \<open>= \<close>, its value in hex and decimal, and the next prompt.\<close>

theorem typed_expression_answers:
  assumes "serial P out inp" and "kinv P (\<lambda>b. 2048 \<le> length (em_buf b)) k" and "rstate k \<in> {Idle, Reading}" and "line_len k = 0"
    and "valid_layout lay" and "P = arm_platform lay B r" and "s = render_all (etoks e @ [Semicolon])" and "length s \<le> LINE_MAX"
    and "inp (io k) = s @ 13 # later" and "ewf e" and "list_all printable (etoks e)"
    and "(\<exists>w. hd (etoks e) = Literal w) \<or> hd (etoks e) = LParen"
    and "\<forall>h. eeval B (lookup_symbol (symbols (compiler k))) e h = (Inr v, h)"
  shows "\<exists>k'. run_steps P ovf (length s + 3) k = (Inr (), k') \<and> rstate k' = Idle
    \<and> out (io k') = out (io k) @ s @ crlf @ byte_str ''= '' @ value_text v @ byte_str ''holy> '' \<and> inp (io k') = later"
proof -
  have P: "hw P = B" "layout P = lay" by (simp_all add: assms(6) arm_platform_def)
  have len: "length (out_stream (compiler k)) = MAX_STREAM_WORDS" using assms(2) by (simp add: kinv_def kcore_def wf_comp_def)
  have run: "\<exists>m' b'. program_run P (value_program (layout P) v) m b h = Some (Inr (Some v), m', b', h)"
    if "2048 \<le> length (em_buf b)" for m h and b :: Thumb2Emitter
    using arm_program_run [OF assms(5) _ that, of "[Push v]" B r "replicate 125 0" True m h] P
    by (auto simp: value_program_def assms(6))
  have ev: "eeval (hw P) (lookup_symbol (symbols (compiler k))) e h = (Inr v, h)" for h using assms(13) P by simp
  obtain k' where k': "session P ovf out inp k [(s, byte_str ''= '' @ value_text v)] k'" "inp (io k') = later"
    using expression_session [OF assms(1) ready_start [OF assms(2-4)] assms(3,9,7,8,10,11,12) len ev run] by blast
  then show ?thesis by (intro exI [of _ k']) (simp add: session_def)
qed

theorem typed_expression_answers_witness:
  "\<exists>n k'. run_steps (arm_platform example_layout (sim_bus Arm) (\<lambda>_. 0)) False n
      (kern_init REGISTRY_BITS (t2_into_exec_buffer (replicate 2048 0))
        \<lparr>sim_mem = (\<lambda>_. 0), sim_tx = [], sim_rx = byte_str ''2 + 3 ; '' @ [13]\<rparr>) = (Inr (), k')
    \<and> sim_tx (io k') = byte_str ''2 + 3 ; '' @ crlf @ byte_str ''= 0x00000005 (5)'' @ crlf @ byte_str ''holy> ''"
proof -
  let ?P = "arm_platform example_layout (sim_bus Arm) (\<lambda>_. 0)" and ?e = "Ex (TLit 2) (Op 0x2B (TLit 3) Done)" and ?s = "byte_str ''2 + 3 ; ''"
  let ?k = "kern_init REGISTRY_BITS (t2_into_exec_buffer (replicate 2048 0)) \<lparr>sim_mem = (\<lambda>_. 0), sim_tx = [], sim_rx = ?s @ [13]\<rparr>"
  have ser: "serial ?P sim_tx sim_rx" using sim_console [of Arm] sim_keyboard [of Arm] by (simp add: serial_def arm_platform_def)
  have kv: "kinv ?P (\<lambda>b. 2048 \<le> length (em_buf b)) ?k"
    using audit_rep_new by (auto simp: kern_init_def kinv_def kcore_def wf_comp_new t2_into_exec_buffer_def)
  have st: "rstate ?k \<in> {Idle, Reading}" "line_len ?k = 0" "sim_rx (io ?k) = ?s @ 13 # []" "sim_tx (io ?k) = []"
    by (simp_all add: kern_init_def)
  have dig: "dec_digits 2 = [0x32]" "dec_digits 3 = [0x33]" "dec_digits 5 = [0x35]"
    by (simp_all add: dec_digits.simps)
  have s: "?s = render_all (etoks ?e @ [Semicolon])" "length ?s \<le> LINE_MAX"
    by (simp_all add: render_all_def byte_str_def dig LINE_MAX_def)
  have e: "ewf ?e" "list_all printable (etoks ?e)" "(\<exists>w. hd (etoks ?e) = Literal w) \<or> hd (etoks ?e) = LParen"
    "\<forall>h. eeval (sim_bus Arm) (lookup_symbol (symbols (compiler ?k))) ?e h = (Inr 5, h)"
    by (simp_all add: is_arith_def is_operator_def byte_str_def try_bind_def ok_with_def apply_op_def)
  have "value_text 5 = byte_str ''0x00000005 (5)'' @ crlf"
    by (simp add: value_text_def hex_digits_def hex_char_def byte_str_def dig)
  then show ?thesis
    using typed_expression_answers [OF ser kv st(1,2) example_layout_valid refl s st(3) e, of False] st(4) by (auto simp: byte_str_def)
qed

text \<open>C13: the same line on RISC-V. Typing an expression (one that reads no memory, starts with a number
  or a parenthesis and is at most \<open>LINE_MAX\<close> bytes long) is answered with one value \<open>w\<close>, whatever the
  kernel state; it is the value of the expression if and only if that is a signed 12-bit number,
  so every other result that the terminal shows is wrong.\<close>

theorem typed_expression_riscv:
  assumes "serial P out inp" and "kinv P (\<lambda>b. 256 \<le> length (em_buf b)) k" and "rstate k \<in> {Idle, Reading}" and "line_len k = 0"
    and "valid_layout lay" and "P = riscv_platform lay B r" and "s = render_all (etoks e @ [Semicolon])" and "length s \<le> LINE_MAX"
    and "inp (io k) = s @ 13 # later" and "ewf e" and "list_all printable (etoks e)"
    and "(\<exists>w. hd (etoks e) = Literal w) \<or> hd (etoks e) = LParen"
    and "\<forall>h. eeval B (lookup_symbol (symbols (compiler k))) e h = (Inr v, h)"
  shows "\<exists>w k'. session P ovf out inp k [(s, byte_str ''= '' @ value_text w)] k' \<and> (w = v \<longleftrightarrow> signed12 v)"
proof -
  have P: "hw P = B" "layout P = lay" by (simp_all add: assms(6) riscv_platform_def)
  have len: "length (out_stream (compiler k)) = MAX_STREAM_WORDS" using assms(2) by (simp add: kinv_def kcore_def wf_comp_def)
  have run: "\<exists>m' b'. program_run P (value_program (layout P) v) m b h = Some (Inr (Some (rv_loaded v)), m', b', h)"
    if "256 \<le> length (em_buf b)" for m h and b :: Riscv32Emitter
    using riscv_program_run [OF assms(5) _ that, of "[Push v]" B r "replicate 125 0" True m h] P
    by (auto simp: value_program_def assms(6))
  have ev: "eeval (hw P) (lookup_symbol (symbols (compiler k))) e h = (Inr v, h)" for h using assms(13) P by simp
  obtain k' where k': "session P ovf out inp k [(s, byte_str ''= '' @ value_text (rv_loaded v))] k'"
    using expression_session [OF assms(1) ready_start [OF assms(2-4)] assms(3,9,7,8,10,11,12) len ev run] by blast
  then show ?thesis using rv_loaded_iff [of v] by blast
qed

theorem typed_expression_riscv_witness:
  "\<exists>w k'. session (riscv_platform example_layout (sim_bus Riscv32) (\<lambda>_. 0)) False sim_tx sim_rx
      (kern_init REGISTRY_BITS (rv_into_exec_buffer (replicate 256 0))
        \<lparr>sim_mem = (\<lambda>_. 0), sim_tx = [], sim_rx = render_all [Literal 4096, Semicolon] @ [13]\<rparr>)
      [(render_all [Literal 4096, Semicolon], byte_str ''= '' @ value_text w)] k' \<and> w \<noteq> 4096"
proof -
  let ?P = "riscv_platform example_layout (sim_bus Riscv32) (\<lambda>_. 0)" and ?e = "Ex (TLit 4096) Done" and ?s = "render_all [Literal 4096, Semicolon]"
  let ?k = "kern_init REGISTRY_BITS (rv_into_exec_buffer (replicate 256 0)) \<lparr>sim_mem = (\<lambda>_. 0), sim_tx = [], sim_rx = ?s @ [13]\<rparr>"
  have ser: "serial ?P sim_tx sim_rx" using sim_console [of Riscv32] sim_keyboard [of Riscv32] by (simp add: serial_def riscv_platform_def)
  have kv: "kinv ?P (\<lambda>b. 256 \<le> length (em_buf b)) ?k"
    using audit_rep_new by (auto simp: kern_init_def kinv_def kcore_def wf_comp_new rv_into_exec_buffer_def)
  have st: "rstate ?k \<in> {Idle, Reading}" "line_len ?k = 0" "sim_rx (io ?k) = ?s @ 13 # []" by (simp_all add: kern_init_def)
  have s: "?s = render_all (etoks ?e @ [Semicolon])" "length ?s \<le> LINE_MAX"
    using word_line_length [of 4096] by (simp_all add: render_all_def LINE_MAX_def)
  have e: "ewf ?e" "list_all printable (etoks ?e)" "(\<exists>w. hd (etoks ?e) = Literal w) \<or> hd (etoks ?e) = LParen"
    "\<forall>h. eeval (sim_bus Riscv32) (lookup_symbol (symbols (compiler ?k))) ?e h = (Inr 4096, h)"
    by (simp_all add: try_bind_def ok_with_def)
  have "\<not> signed12 4096" by code_simp
  with typed_expression_riscv [OF ser kv st(1,2) example_layout_valid refl s st(3) e, of False] show ?thesis by blast
qed

text \<open>C26: bit numbers of \<open>reg_set_bit\<close> and \<open>reg_clr_bit\<close> are not range-checked. From bit 32 on, and
  for either command, the turn of a build with overflow checks reads the register and then panics,
  with nothing written, and the handler reports the shift; a release build silently does what the
  same command does with the bit number modulo 32.\<close>

theorem bit_number_unchecked:
  assumes "serial P out inp" and "32 \<le> unat b"
    and "rstate k = Printing" and "pending k = Some (Inr (SetBit a b)) \<or> pending k = Some (Inr (ClrBit a b))"
  shows "execute P False (SetBit a b) k = execute P False (SetBit a (of_nat (unat b mod 32))) k
    \<and> execute P False (ClrBit a b) k = execute P False (ClrBit a (of_nat (unat b mod 32))) k
    \<and> repl_step P True k = (Inl shift_panic, k\<lparr>pending := None, io := snd (rd (hw P) a (io k))\<rparr>)
    \<and> (\<exists>k'. turn P True k = (Inl shift_panic, k')
        \<and> out (io k') = out (io k) @ [10] @ byte_str ''PANIC: '' @ byte_str ''attempt to shift left with overflow'' @ [10])"
proof -
  have small: "unat (of_nat (unat b mod 32) :: u32) = unat b mod 32"
    by (simp add: unat_of_nat)
  have "shl_one False b = shl_one False (of_nat (unat b mod 32))" by (simp add: shl_one_def small)
  then have rel: "change_bit P False f a b k = change_bit P False f a (of_nat (unat b mod 32)) k" for f
    by (simp only: change_bit_def)
  let ?k = "k\<lparr>pending := None, io := snd (rd (hw P) a (io k))\<rparr>" and ?m = "byte_str ''attempt to shift left with overflow''"
  have step: "repl_step P True k = (Inl (Panic (Some ?m)), ?k)"
    using assms(2-4)
    by (auto simp: repl_step_def take_pending_def print_pending_def change_bit_def shl_one_def peek_u32_def split_beta Let_def try_then_def try_bind_def)
  have quiet: "out (snd (rd (hw P) a (io k))) = out (io k)" using assms(1) by (simp add: serial_def console_def)
  have "says out inp (panic P (Some ?m)) ((10 # byte_str ''PANIC: '') @ ?m @ [10])"
    unfolding panic_def option.case by (intro says_then says_put assms(1))
  from saysD [OF this, of ?k] quiet step
  show ?thesis by (auto simp: turn_def shift_panic_def rel)
qed

theorem bit_number_unchecked_witness:
  "\<exists>k'. turn (arm_platform example_layout (sim_bus Arm) (\<lambda>_. 0)) True
      ((kern_init REGISTRY_BITS (t2_into_exec_buffer []) \<lparr>sim_mem = (\<lambda>_. 0), sim_tx = [], sim_rx = []\<rparr>)
        \<lparr>rstate := Printing, pending := Some (Inr (ClrBit 0x20000000 35))\<rparr>) = (Inl shift_panic, k')
    \<and> sim_tx (io k') = [10] @ byte_str ''PANIC: '' @ byte_str ''attempt to shift left with overflow'' @ [10]"
proof -
  let ?P = "arm_platform example_layout (sim_bus Arm) (\<lambda>_. 0)"
  let ?k = "(kern_init REGISTRY_BITS (t2_into_exec_buffer []) \<lparr>sim_mem = (\<lambda>_. 0), sim_tx = [], sim_rx = []\<rparr>)
        \<lparr>rstate := Printing, pending := Some (Inr (ClrBit 0x20000000 35))\<rparr>"
  have ser: "serial ?P sim_tx sim_rx" using sim_console [of Arm] sim_keyboard [of Arm] by (simp add: serial_def arm_platform_def)
  have tx: "sim_tx (io ?k) = []" by (simp add: kern_init_def)
  have st: "rstate ?k = Printing" "pending ?k = Some (Inr (SetBit 0x20000000 35)) \<or> pending ?k = Some (Inr (ClrBit 0x20000000 35))" by simp_all
  have "32 \<le> unat (35 :: u32)" by simp
  from bit_number_unchecked [OF ser this st] show ?thesis unfolding tx append_Nil by blast
qed

text \<open>C8: claiming opens the window, at the keyboard. While neither the resource of a peripheral
  address nor SUPERUSER is claimed, a typed \<open>poke\<close> is answered with E001;
  typing \<open>cap_claim\<close> with the resource's name is answered with its number, and the same \<open>poke\<close>,
  typed again, is then answered with OK. All three lines are echoed and prompted for.\<close>

theorem claim_opens_window:
  assumes "serial P out inp" and "kinv P bufok k" and "rstate k \<in> {Idle, Reading}" and "line_len k = 0"
    and "T \<in> set all_resources" and "addr_to_cap_id (target P) a = Some c" and "cap_num c = RESOURCE_ID T" and "a \<noteq> tx_reg (target P)"
    and "\<not> is_claimed (reg k) (cap_num c)" and "\<not> is_superuser_active (reg k)"
    and "pline = render_all [Identifier (byte_str ''poke''), Literal a, Literal v, Semicolon]"
    and "cline = render_all [Identifier (byte_str ''cap_claim''), Identifier (byte_str (NAME T)), Semicolon]"
    and "inp (io k) = pline @ 13 # cline @ 13 # pline @ 13 # later"
  shows "\<exists>k'. run_steps P ovf ((length pline + 3) + (length cline + 3) + (length pline + 3)) k = (Inr (), k')
    \<and> rstate k' = Idle \<and> inp (io k') = later
    \<and> out (io k') = out (io k)
        @ pline @ crlf @ (byte_str ''ERR '' @ error_text CapabilityViolation) @ byte_str ''holy> ''
        @ cline @ crlf @ (byte_str ''CAP CLAIMED '' @ byte_str (NAME T) @ byte_str '' id='' @ dec_digits (RESOURCE_ID T) @ [10]) @ byte_str ''holy> ''
        @ pline @ crlf @ (byte_str ''OK'' @ crlf) @ byte_str ''holy> ''"
proof -
  let ?r = "reg k" and ?i = "RESOURCE_ID T" and ?l = "audit k" and ?c = "compiler k"
  let ?r' = "snd (acquire ?r ?i)" and ?d = "[said_violation a v, said_claimed T, said_poked a v]"
  have wf: "wf_registry ?r" using assms(2) by (simp add: kinv_def kcore_def)
  note ready = ready_start [OF assms(2,3,4)]
  have free: "cap_num c \<notin> claimed_set ?r" "31 \<notin> claimed_set ?r"
    using assms(9,10) wf by (simp_all add: reg_simps del: cap_num.simps)
  note win = window_claim [OF wf assms(6) free refl, unfolded assms(7)]
  have inp: "inp (io k) = fst (said_violation a v) @ 13 # fst (said_claimed T) @ 13 # fst (said_poked a v) @ 13 # later"
    using assms(11,12,13) by (simp add: said_defs)
  obtain k1 where 1: "session P ovf out inp k [said_violation a v] k1" "ready bufok ?r ?l ?c k1"
      "inp (io k1) = fst (said_claimed T) @ 13 # fst (said_poked a v) @ 13 # later"
    using refused_session [OF assms(1) ready assms(3) inp] win(2) by (auto simp: granted_def)
  obtain k2 where 2: "session P ovf out inp k1 [said_claimed T] k2" "ready bufok ?r' ?l ?c k2"
      "inp (io k2) = fst (said_poked a v) @ 13 # later"
    using claim_session [OF assms(1) 1(2) session_state [OF 1(1)] 1(3) wf assms(5) free(1) [unfolded assms(7)]] by blast
  obtain k3 where 3: "session P ovf out inp k2 [said_poked a v] k3" "inp (io k3) = later"
    using poke_session [OF assms(1) 2(2) session_state [OF 2(1)] 2(3) _ win(5,1,4) assms(8)] win(3) by (auto simp: granted_def)
  have "session P ovf out inp k ?d k3" using session_Cons [OF 1(1) session_Cons [OF 2(1) 3(1)]] .
  moreover have "turns ?d = (length pline + 3) + (length cline + 3) + (length pline + 3)"
    by (simp add: said_defs assms(11,12))
  ultimately show ?thesis using 3(2)
    by (intro exI [of _ k3]) (simp add: session_def said_defs assms(11,12))
qed

theorem claim_opens_window_witness:
  "\<exists>n k'. run_steps (arm_platform example_layout (sim_bus Arm) (\<lambda>_. 0)) False n
      (kern_init REGISTRY_BITS (t2_into_exec_buffer []) \<lparr>sim_mem = (\<lambda>_. 0), sim_tx = [],
        sim_rx = byte_str ''poke 1073872896 1 ; '' @ 13 # byte_str ''cap_claim GPIOA ; '' @ 13 # byte_str ''poke 1073872896 1 ; '' @ [13]\<rparr>)
      = (Inr (), k') \<and> rstate k' = Idle \<and> sim_rx (io k') = []"
proof -
  let ?P = "arm_platform example_layout (sim_bus Arm) (\<lambda>_. 0)" and ?a = "0x40020000 :: u32"
  let ?p = "render_all [Identifier (byte_str ''poke''), Literal ?a, Literal 1, Semicolon]"
  let ?c = "render_all [Identifier (byte_str ''cap_claim''), Identifier (byte_str (NAME res_GpioA)), Semicolon]"
  let ?k = "kern_init REGISTRY_BITS (t2_into_exec_buffer []) \<lparr>sim_mem = (\<lambda>_. 0), sim_tx = [], sim_rx = ?p @ 13 # ?c @ 13 # ?p @ [13]\<rparr>"
  have ser: "serial ?P sim_tx sim_rx" using sim_console [of Arm] sim_keyboard [of Arm] by (simp add: serial_def arm_platform_def)
  have kv: "kinv ?P (\<lambda>_. True) ?k" using audit_rep_new by (auto simp: kern_init_def kinv_def kcore_def wf_comp_new)
  have st: "rstate ?k \<in> {Idle, Reading}" "line_len ?k = 0" "sim_rx (io ?k) = ?p @ 13 # ?c @ 13 # ?p @ 13 # []" by (simp_all add: kern_init_def)
  have T: "res_GpioA \<in> set all_resources" "addr_to_cap_id (target ?P) ?a = Some GpioA" "cap_num GpioA = RESOURCE_ID res_GpioA" "?a \<noteq> tx_reg (target ?P)"
    by (simp_all add: all_resources_def res_GpioA_def arm_platform_def arm_addr_to_cap_def mmio_DR_def)
  have free: "\<not> is_claimed (reg ?k) (cap_num GpioA)" "\<not> is_superuser_active (reg ?k)"
    by (simp_all add: kern_init_def is_superuser_active_def is_claimed_def available_def REGISTRY_BITS_def slice_get_def)
  have lines: "?p = byte_str ''poke 1073872896 1 ; ''" "?c = byte_str ''cap_claim GPIOA ; ''"
    by (simp_all add: render_all_def byte_str_def dec_digits.simps res_GpioA_def)
  from claim_opens_window [OF ser kv st(1,2) T free refl refl st(3), of False] show ?thesis
    unfolding lines by blast
qed

end
