(* ===== verification/Scenario.thy ===== *)
theory Scenario
  imports Dialogue
begin

text \<open>
  Sessions in which functions meet the capability checks: a function keeps the rights it had when
  it was defined, and what it writes is not audited.
\<close>

text \<open>C9: a revoked right still writes. On ARM, whatever the state and while neither the resource
  of the address nor SUPERUSER is claimed: type \<open>cap_claim\<close>, define a function that pokes the
  address, type \<open>cap_drop\<close>. The same \<open>poke\<close> is now refused with E001, but calling the function
  is answered OK and the register holds the value; every line is answered as shown and the
  resource is free in the end.\<close>

theorem revoked_function_still_writes:
  assumes "serial P out inp" and "kinv P (\<lambda>b. 2048 \<le> length (em_buf b)) k" and "rstate k \<in> {Idle, Reading}" and "line_len k = 0"
    and "valid_layout lay" and "P = arm_platform lay B r0" and "cell B a mem" and "a \<noteq> tx_reg Arm"
    and "T \<in> set all_resources" and "addr_to_cap_id Arm a = Some cap" and "cap_num cap = RESOURCE_ID T"
    and "\<not> is_claimed (reg k) (cap_num cap)" and "\<not> is_superuser_active (reg k)"
    and "printable (Identifier i)" and "i \<notin> reserved" and "length i \<le> NAME_MAX"
    and "find_fn (compiler k) i = None" and "\<exists>j<MAX_FNS. \<not> fn_allocated (compiler k) j"
    and "d = [said_claimed T, said_defined i a v, said_released T, said_violation a v, said_called i]"
    and "inp (io k) = typed d @ later"
  shows "\<exists>k'. session P ovf out inp k d k' \<and> mem (io k') = v \<and> \<not> is_claimed (reg k') (cap_num cap) \<and> inp (io k') = later"
proof -
  let ?b = "\<lambda>b. 2048 \<le> length (em_buf b)" and ?i = "RESOURCE_ID T"
  let ?r = "reg k" and ?l = "audit k" and ?c = "compiler k"
  let ?r1 = "snd (acquire ?r ?i)"
  let ?r2 = "release ?r1 ?i"
  have P: "layout P = lay" "target P = Arm" by (simp_all add: assms(6) arm_platform_def)
  have wf: "wf_registry ?r" and comp: "wf_comp (layout P) (\<lambda>_. True) ?c" using assms(2) by (simp_all add: kinv_def kcore_def)
  have free: "cap_num cap \<notin> claimed_set ?r" "31 \<notin> claimed_set ?r"
    using assms(12,13) wf by (simp_all add: reg_simps del: cap_num.simps)
  note win = window_claim [OF wf assms(10) free refl, unfolded assms(11)]
  have held: "?i \<in> claimed_set ?r1" "wf_registry ?r2" "claimed_set ?r2 = claimed_set ?r"
    using acquire_claimed [of ?i ?r] free(1) wf assms(9,11)
    by (auto simp: wf_registry_def release_claimed all_resources_def resource_defs)
  have gone: "\<not> granted P ?r2 a" "\<not> is_claimed ?r2 (cap_num cap)"
    using held free assms(10) P(2) by (auto simp: granted_def check_access_def reg_simps simp del: cap_num.simps)
  have typed: "inp (io k) = fst (said_claimed T) @ 13 # fst (said_defined i a v) @ 13 # fst (said_released T) @ 13
      # fst (said_violation a v) @ 13 # fst (said_called i) @ 13 # later" using assms(19,20) by simp
  obtain k1 where 1: "session P ovf out inp k [said_claimed T] k1" "ready ?b ?r1 ?l ?c k1"
      "inp (io k1) = fst (said_defined i a v) @ 13 # fst (said_released T) @ 13 # fst (said_violation a v) @ 13 # fst (said_called i) @ 13 # later"
    using claim_session [OF assms(1) ready_start [OF assms(2,3,4)] assms(3) typed wf assms(9) free(1) [unfolded assms(11)]] by blast
  have "granted P ?r1 a" using win(3) P by (simp add: granted_def)
  then have granted: "list_all (\<lambda>y. granted P ?r1 (stmt_addr y)) [SPoke a v]" by simp
  have words: "length (swords (layout P) [SPoke a v]) \<le> FN_BODY_WORDS" by (simp add: poke_ops_def FN_BODY_WORDS_def)
  from fn_session [OF assms(1) 1(2) session_state [OF 1(1)] 1(3) assms(14,16) comp granted assms(17,18) fn_text_length(1) [OF assms(16)] words]
  obtain c2 k2 where 2: "session P ovf out inp k1 [said_defined i a v] k2" "ready ?b ?r1 ?l c2 k2"
      "inp (io k2) = fst (said_released T) @ 13 # fst (said_violation a v) @ 13 # fst (said_called i) @ 13 # later"
      "fn_stored lay c2 i [SPoke a v]" unfolding P by blast
  obtain k3 where 3: "session P ovf out inp k2 [said_released T] k3" "ready ?b ?r2 ?l c2 k3"
      "inp (io k3) = fst (said_violation a v) @ 13 # fst (said_called i) @ 13 # later"
    using drop_session [OF assms(1) 2(2) session_state [OF 2(1)] 2(3) win(5) assms(9) held(1)] by blast
  obtain k4 where 4: "session P ovf out inp k3 [said_violation a v] k4" "ready ?b ?r2 ?l c2 k4"
      "inp (io k4) = fst (said_called i) @ 13 # later"
    using refused_session [OF assms(1) 3(2) session_state [OF 3(1)] 3(3) gone(1)] by blast
  obtain c5 k5 where 5: "session P ovf out inp k4 [said_called i] k5" "inp (io k5) = later" "mem (io k5) = v" "ready ?b ?r2 ?l c5 k5"
    using call_poke_session [OF assms(1) 4(2) session_state [OF 4(1)] 4(3) assms(6,5,8,7,14,15,16) 2(4)] by blast
  have "session P ovf out inp k d k5"
    unfolding assms(19) by (intro session_Cons [OF 1(1)] session_Cons [OF 2(1)] session_Cons [OF 3(1)] session_Cons [OF 4(1)] 5(1))
  then show ?thesis using 5 gone(2) by (auto simp: ready_def)
qed

theorem revoked_function_still_writes_witness:
  "\<exists>k'. session (arm_platform example_layout (sim_bus Arm) (\<lambda>_. 0)) False sim_tx sim_rx
      (kern_init REGISTRY_BITS (t2_into_exec_buffer (replicate 2048 0)) \<lparr>sim_mem = (\<lambda>_. 0), sim_tx = [],
        sim_rx = typed [said_claimed res_GpioA, said_defined [0x66] 0x40020014 7, said_released res_GpioA,
          said_violation 0x40020014 7, said_called [0x66]]\<rparr>)
      [said_claimed res_GpioA, said_defined [0x66] 0x40020014 7, said_released res_GpioA, said_violation 0x40020014 7, said_called [0x66]] k'
    \<and> sim_mem (io k') 0x40020014 = 7"
proof -
  let ?P = "arm_platform example_layout (sim_bus Arm) (\<lambda>_. 0)" and ?a = "0x40020014 :: u32" and ?i = "[0x66] :: u8 list"
  let ?d = "[said_claimed res_GpioA, said_defined ?i ?a 7, said_released res_GpioA, said_violation ?a 7, said_called ?i]"
  let ?k = "kern_init REGISTRY_BITS (t2_into_exec_buffer (replicate 2048 0)) \<lparr>sim_mem = (\<lambda>_. 0), sim_tx = [], sim_rx = typed ?d\<rparr>"
  have ser: "serial ?P sim_tx sim_rx" using sim_console [of Arm] sim_keyboard [of Arm] by (simp add: serial_def arm_platform_def)
  have kv: "kinv ?P (\<lambda>b. 2048 \<le> length (em_buf b)) ?k"
    using audit_rep_new by (auto simp: kern_init_def kinv_def kcore_def wf_comp_new t2_into_exec_buffer_def)
  have st: "rstate ?k \<in> {Idle, Reading}" "line_len ?k = 0" "sim_rx (io ?k) = typed ?d @ []"
    by (simp_all add: kern_init_def del: session_simps)
  have far: "?a \<noteq> tx_reg Arm" by (simp add: mmio_DR_def)
  have T: "res_GpioA \<in> set all_resources" "addr_to_cap_id Arm ?a = Some GpioA" "cap_num GpioA = RESOURCE_ID res_GpioA"
    by (simp_all add: all_resources_def res_GpioA_def arm_addr_to_cap_def)
  have free: "\<not> is_claimed (reg ?k) (cap_num GpioA)" "\<not> is_superuser_active (reg ?k)"
    by (simp_all add: kern_init_def is_superuser_active_def is_claimed_def available_def REGISTRY_BITS_def slice_get_def)
  have i: "printable (Identifier ?i)" "?i \<notin> reserved" "length ?i \<le> NAME_MAX"
    by (simp_all add: is_alpha_def is_ident_char_def byte_str_def reserved_def NAME_MAX_def)
  have c: "find_fn (compiler ?k) ?i = None" "\<exists>j<MAX_FNS. \<not> fn_allocated (compiler ?k) j"
    using new_slots(2) by (auto simp: kern_init_def find_fn_def fn_allocated_def compiler_new_def MAX_FNS_def find_None_iff)
  show ?thesis
    using revoked_function_still_writes [OF ser kv st(1,2) example_layout_valid refl sim_cell [OF far] far T free i c refl st(3), of False]
    by blast
qed

text \<open>C20: calls escape the audit. While SUPERUSER is claimed on ARM, a typed \<open>poke\<close> is recorded in the
  audit log with its address and value; calling a function that pokes the same register writes
  it just the same, but the log does not grow.\<close>

theorem audit_misses_calls:
  assumes "serial P out inp" and "kinv P (\<lambda>b. 2048 \<le> length (em_buf b)) k" and "rstate k \<in> {Idle, Reading}" and "line_len k = 0"
    and "valid_layout lay" and "P = arm_platform lay B r0" and "cell B a mem" and "a \<noteq> tx_reg Arm"
    and "is_superuser_active (reg k)"
    and "printable (Identifier i)" and "i \<notin> reserved" and "length i \<le> NAME_MAX" and "fn_stored lay (compiler k) i [SPoke a w]"
    and "d = [said_poked a v, said_called i]" and "inp (io k) = typed d @ later"
  shows "\<exists>k' cycles. session P ovf out inp k d k' \<and> mem (io k') = w
    \<and> audit k' = push_entry \<lparr>ae_addr = a, ae_val = v, ae_cycles = cycles\<rparr> (audit k)"
proof -
  let ?b = "\<lambda>b. 2048 \<le> length (em_buf b)"
  have wf: "wf_registry (reg k)" using assms(2) by (simp add: kinv_def kcore_def)
  then have su: "31 \<in> claimed_set (reg k)" using assms(9) by (simp add: is_superuser_active_iff)
  have P: "target P = Arm" "a \<noteq> tx_reg (target P)" using assms(8) by (simp_all add: assms(6) arm_platform_def)
  have typed: "inp (io k) = fst (said_poked a v) @ 13 # fst (said_called i) @ 13 # later" using assms(14,15) by simp
  obtain k1 cycles where 1: "session P ovf out inp k [said_poked a v] k1"
      "ready ?b (reg k) (push_entry \<lparr>ae_addr = a, ae_val = v, ae_cycles = cycles\<rparr> (audit k)) (compiler k) k1"
      "inp (io k1) = fst (said_called i) @ 13 # later"
    using superuser_session [OF assms(1) ready_start [OF assms(2,3,4)] assms(3) typed wf su P(2,1)] by blast
  obtain c2 k2 where 2: "session P ovf out inp k1 [said_called i] k2" "mem (io k2) = w"
      "ready ?b (reg k) (push_entry \<lparr>ae_addr = a, ae_val = v, ae_cycles = cycles\<rparr> (audit k)) c2 k2"
    using call_poke_session [OF assms(1) 1(2) session_state [OF 1(1)] 1(3) assms(6,5,8,7,10,11,12,13)] by blast
  have "session P ovf out inp k d k2" unfolding assms(14) by (intro session_Cons [OF 1(1)] 2(1))
  with 2 show ?thesis by (auto simp: ready_def)
qed

theorem audit_misses_calls_witness:
  "\<exists>c k' cycles. session (arm_platform example_layout (sim_bus Arm) (\<lambda>_. 0)) False sim_tx sim_rx
      ((kern_init [0x80000000, 0, 0, 0, 0, 0, 0, 0] (t2_into_exec_buffer (replicate 2048 0)) \<lparr>sim_mem = (\<lambda>_. 0), sim_tx = [],
        sim_rx = typed [said_poked 0x20000100 1, said_called [0x66]]\<rparr>)\<lparr>compiler := c\<rparr>)
      [said_poked 0x20000100 1, said_called [0x66]] k'
    \<and> sim_mem (io k') 0x20000100 = 5 \<and> audit k' = push_entry \<lparr>ae_addr = 0x20000100, ae_val = 1, ae_cycles = cycles\<rparr> audit_new"
proof -
  let ?P = "arm_platform example_layout (sim_bus Arm) (\<lambda>_. 0)" and ?a = "0x20000100 :: u32" and ?i = "[0x66] :: u8 list"
  let ?d = "[said_poked ?a 1, said_called ?i]" and ?ys = "[SPoke 0x20000100 5]"
  let ?s0 = "\<lparr>sim_mem = (\<lambda>_. 0), sim_tx = [], sim_rx = typed ?d\<rparr>" and ?r = "[0x80000000, 0, 0, 0, 0, 0, 0, 0] :: registry"
  have su: "is_superuser_active ?r" by code_simp
  have i: "printable (Identifier ?i)" "?i \<notin> reserved" "length ?i \<le> NAME_MAX"
    by (simp_all add: is_alpha_def is_ident_char_def byte_str_def reserved_def NAME_MAX_def)
  have far: "?a \<noteq> tx_reg Arm" by (simp add: mmio_DR_def)
  have g: "list_all (\<lambda>y. granted ?P ?r (stmt_addr y)) ?ys" using su by (simp add: granted_def check_access_def)
  have len: "length (swords (layout ?P) ?ys) \<le> FN_BODY_WORDS" by (simp add: poke_ops_def FN_BODY_WORDS_def)
  have new: "find_fn compiler_new ?i = None"
    by (auto simp: find_fn_def fn_allocated_def compiler_new_def MAX_FNS_def find_None_iff)
  obtain c where p: "parse ?P ?r (render_all (fn_cmd ?i ?ys)) compiler_new ?s0 = (Inr (FnDefined (name_of ?i)), c, ?s0)"
      and c: "fn_stored (layout ?P) c ?i ?ys"
    using fn_stores [OF wf_comp_new i(1,3) literal_body(1,2) literal_body(3) [OF g] len new new_slots(2)] unfolding fn_cmd_def by blast
  let ?k = "(kern_init ?r (t2_into_exec_buffer (replicate 2048 0)) ?s0)\<lparr>compiler := c\<rparr>"
  have ser: "serial ?P sim_tx sim_rx" using sim_console [of Arm] sim_keyboard [of Arm] by (simp add: serial_def arm_platform_def)
  have "wf_comp (layout ?P) (\<lambda>_. True) c" by (rule parse_sound(1) [OF wf_comp_new _ p]) simp
  then have kv: "kinv ?P (\<lambda>b. 2048 \<le> length (em_buf b)) ?k"
    using audit_rep_new by (auto simp: kern_init_def kinv_def kcore_def wf_registry_def t2_into_exec_buffer_def)
  have st: "rstate ?k \<in> {Idle, Reading}" "line_len ?k = 0" "sim_rx (io ?k) = typed ?d @ []" "is_superuser_active (reg ?k)"
    "fn_stored example_layout (compiler ?k) ?i [SPoke ?a 5]"
    using su c by (simp_all add: kern_init_def arm_platform_def del: session_simps)
  from audit_misses_calls [OF ser kv st(1,2) example_layout_valid refl sim_cell [OF far] far st(4) i st(5) refl st(3), of False]
  show ?thesis by (auto simp: kern_init_def)
qed

end
