(* ===== verification/Escape.thy ===== *)
theory Escape
  imports Dialogue
begin

text \<open>
  A way around the access check. The native compiler leaves the value of a \<open>peek\<close> in the register
  that a following \<open>poke\<close> takes for its address, so a function that only names a memory word of
  the user's own writes wherever that word points.
\<close>

section \<open>The compiled body\<close>

text \<open>A word of plain memory: what is read is what was last written.\<close>

definition word_cell :: "'h bus \<Rightarrow> u32 \<Rightarrow> ('h \<Rightarrow> u32) \<Rightarrow> bool" where
  "word_cell B a mem \<longleftrightarrow> cell B a mem \<and> (\<forall>h. fst (rd B a h) = mem h)"

text \<open>\<open>peek p; poke p v;\<close> writes \<open>v\<close> to the address that \<open>p\<close> holds.\<close>

lemma pointer_body:
  "list_all no_div (body_ops [SPeek p, SPoke p v])" "length (body_ops [SPeek p, SPoke p v]) < 512"
  "snd (snd (mrun B (ncompile (body_ops [SPeek p, SPoke p v]) False) (r0, r1, h))) = wr B (fst (rd B p h)) v (snd (rd B p h))"
  by (simp_all add: poke_ops_def)

lemma call_pointer_session:
  fixes k :: "(Thumb2Emitter, 'h) kern"
  assumes "serial P out inp" and "ready (\<lambda>b. 2048 \<le> length (em_buf b)) r l c k" and "rstate k \<in> {Idle, Reading}"
    and "inp (io k) = fst (said_called i) @ 13 # later"
    and "P = arm_platform lay B r0" and "valid_layout lay" and "word_cell B p pmem" and "p \<noteq> tx_reg Arm"
    and "cell B a mem" and "a \<noteq> tx_reg Arm" and "pmem (io k) = a"
    and "printable (Identifier i)" and "i \<notin> reserved" and "length i \<le> NAME_MAX" and "fn_stored lay c i [SPeek p, SPoke p v]"
  shows "\<exists>k'. session P ovf out inp k [said_called i] k' \<and> inp (io k') = later \<and> mem (io k') = v
    \<and> (\<exists>c'. ready (\<lambda>b. 2048 \<le> length (em_buf b)) r l c' k')"
proof (rule call_session [where J = "\<lambda>h. pmem h = a" and ys = "[SPeek p, SPoke p v]", OF assms(1-4,12-14)])
  have P: "layout P = lay" "hw P = B" "target P = Arm" by (simp_all add: assms(5) arm_platform_def)
  then show "fn_stored (layout P) c i [SPeek p, SPoke p v]" using assms(15) by simp
  have pc: "cell B p pmem" "fst (rd B p h) = pmem h" for h using assms(7) by (simp_all add: word_cell_def)
  have out: "out (wr B a v (snd (rd B p h))) = out h" "inp (wr B a v (snd (rd B p h))) = inp h" for h
    using assms(1,8,10) P by (auto simp: serial_def console_def keyboard_def)
  show "\<exists>m' b' h'. program_run P (call_program (layout P) [SPeek p, SPoke p v]) m b h = Some (Inr None, m', b', h')
      \<and> 2048 \<le> length (em_buf b') \<and> out h' = out h \<and> inp h' = inp h \<and> mem h' = v"
    if "2048 \<le> length (em_buf b)" and "pmem h = a" for m b h
    using arm_call [OF assms(5,6) that(1) pointer_body(1,2) [of p v], of m h] assms(9) that(2) out pointer_body(3) [of B p v "r0 0" "r0 1" h]
    by (auto simp: P(1) pc(2) cell_def)
  show "pmem h' = a" if "pmem h = a" "quiet P h h'" for h h'
    using cell_via [of B _ _ h h' p pmem] that pc(1) assms(8) by (auto simp: P)
  show "mem h' = v" if "mem h = v" "quiet P h h'" for h h'
    using cell_via [of B _ _ h h' a mem] that assms(9,10) by (auto simp: P)
qed (rule assms(11))

section \<open>Property\<close>

lemma ram_permitted:
  assumes "is_ram_flash (target P) p"
  shows "granted P r p" "permits (target P) r p"
proof -
  have "addr_to_cap_id (target P) p = None" using assms addr_to_cap_not_ram by (cases "addr_to_cap_id (target P) p") blast+
  then show "granted P r p" "permits (target P) r p" using assms by (simp_all add: granted_def check_access_def permits_def)
qed

text \<open>C4: a user without rights writes any register. On ARM, let the check refuse the register
  \<open>a\<close>, and let \<open>p\<close> be a word of RAM. Type \<open>fn f() { peek p; poke p v; }\<close>, a \<open>poke\<close> of \<open>a\<close>, which is
  refused, \<open>poke p a;\<close> and \<open>f();\<close>. Every line is answered as shown, nothing is claimed in between,
  nothing is logged, and the register \<open>a\<close> holds \<open>v\<close>.\<close>

theorem pointer_function_escapes:
  assumes "serial P out inp" and "kinv P (\<lambda>b. 2048 \<le> length (em_buf b)) k" and "rstate k \<in> {Idle, Reading}" and "line_len k = 0"
    and "valid_layout lay" and "P = arm_platform lay B r0" and "word_cell B p pmem" and "cell B a mem" and "p \<noteq> tx_reg Arm" and "a \<noteq> tx_reg Arm"
    and "is_ram_flash Arm p" and "check_access Arm (reg k) a \<noteq> Inr ()"
    and "printable (Identifier i)" and "i \<notin> reserved" and "length i \<le> NAME_MAX"
    and "find_fn (compiler k) i = None" and "\<exists>j<MAX_FNS. \<not> fn_allocated (compiler k) j"
    and "d = [said_body i [SPeek p, SPoke p v], said_violation a v, said_poked p a, said_called i]"
    and "inp (io k) = typed d @ later"
  shows "\<exists>k'. session P ovf out inp k d k' \<and> mem (io k') = v \<and> reg k' = reg k \<and> audit k' = audit k \<and> inp (io k') = later"
proof -
  let ?b = "\<lambda>b. 2048 \<le> length (em_buf b)" and ?ys = "[SPeek p, SPoke p v]"
  let ?r = "reg k" and ?l = "audit k"
  have P: "layout P = lay" "target P = Arm" "hw P = B" by (simp_all add: assms(6) arm_platform_def)
  have wf: "wf_registry ?r" and comp: "wf_comp (layout P) (\<lambda>_. True) (compiler k)" using assms(2) by (simp_all add: kinv_def kcore_def)
  have su: "31 \<notin> claimed_set ?r" using assms(12) wf by (auto simp: check_access_def is_superuser_active_iff)
  have ram: "granted P ?r p" "permits (target P) ?r p" using ram_permitted [of P p ?r] assms(11) P(2) by simp_all
  then have body: "list_all (\<lambda>y. granted P ?r (stmt_addr y)) ?ys" by simp
  have words: "length (swords (layout P) ?ys) \<le> FN_BODY_WORDS" by (simp add: poke_ops_def FN_BODY_WORDS_def)
  have no: "\<not> granted P ?r a" using assms(12) P(2) by (simp add: granted_def)
  have typed: "inp (io k) = fst (said_body i ?ys) @ 13 # fst (said_violation a v) @ 13 # fst (said_poked p a) @ 13
      # fst (said_called i) @ 13 # later" using assms(18,19) by simp
  obtain c1 k1 where 1: "session P ovf out inp k [said_body i ?ys] k1" "ready ?b ?r ?l c1 k1"
      "inp (io k1) = fst (said_violation a v) @ 13 # fst (said_poked p a) @ 13 # fst (said_called i) @ 13 # later"
      "fn_stored lay c1 i ?ys"
    using fn_session [OF assms(1) ready_start [OF assms(2,3,4)] assms(3) typed assms(13,15) comp body assms(16,17)
      fn_text_length(2) [OF assms(15)] words] unfolding P(1) by blast
  obtain k2 where 2: "session P ovf out inp k1 [said_violation a v] k2" "ready ?b ?r ?l c1 k2"
      "inp (io k2) = fst (said_poked p a) @ 13 # fst (said_called i) @ 13 # later"
    using refused_session [OF assms(1) 1(2) session_state [OF 1(1)] 1(3) no] by blast
  have far: "p \<noteq> tx_reg (target P)" and pc: "cell (hw P) p pmem" using assms(7,9) P by (simp_all add: word_cell_def)
  obtain k3 where 3: "session P ovf out inp k2 [said_poked p a] k3" "ready ?b ?r ?l c1 k3"
      "inp (io k3) = fst (said_called i) @ 13 # later" "pmem (io k3) = a"
    using poke_session [OF assms(1) 2(2) session_state [OF 2(1)] 2(3) ram(1) wf ram(2) su far] pc by blast
  obtain c4 k4 where 4: "session P ovf out inp k3 [said_called i] k4" "inp (io k4) = later" "mem (io k4) = v" "ready ?b ?r ?l c4 k4"
    using call_pointer_session [OF assms(1) 3(2) session_state [OF 3(1)] 3(3) assms(6,5,7,9,8,10) 3(4) assms(13,14,15) 1(4)] by blast
  have "session P ovf out inp k d k4"
    unfolding assms(18) by (intro session_Cons [OF 1(1)] session_Cons [OF 2(1)] session_Cons [OF 3(1)] 4(1))
  then show ?thesis using 4 by (auto simp: ready_def)
qed

theorem pointer_function_escapes_witness:
  "\<exists>k'. session (arm_platform example_layout (sim_bus Arm) (\<lambda>_. 0)) False sim_tx sim_rx
      (kern_init REGISTRY_BITS (t2_into_exec_buffer (replicate 2048 0)) \<lparr>sim_mem = (\<lambda>_. 0), sim_tx = [],
        sim_rx = typed [said_body [0x66] [SPeek 0x20000100, SPoke 0x20000100 7], said_violation 0x40020014 7,
          said_poked 0x20000100 0x40020014, said_called [0x66]]\<rparr>)
      [said_body [0x66] [SPeek 0x20000100, SPoke 0x20000100 7], said_violation 0x40020014 7,
          said_poked 0x20000100 0x40020014, said_called [0x66]] k'
    \<and> sim_mem (io k') 0x40020014 = 7 \<and> reg k' = REGISTRY_BITS"
proof -
  let ?P = "arm_platform example_layout (sim_bus Arm) (\<lambda>_. 0)" and ?a = "0x40020014 :: u32" and ?p = "0x20000100 :: u32" and ?i = "[0x66] :: u8 list"
  let ?d = "[said_body ?i [SPeek ?p, SPoke ?p 7], said_violation ?a 7, said_poked ?p ?a, said_called ?i]"
  let ?k = "kern_init REGISTRY_BITS (t2_into_exec_buffer (replicate 2048 0)) \<lparr>sim_mem = (\<lambda>_. 0), sim_tx = [], sim_rx = typed ?d\<rparr>"
  have ser: "serial ?P sim_tx sim_rx" using sim_console [of Arm] sim_keyboard [of Arm] by (simp add: serial_def arm_platform_def)
  have kv: "kinv ?P (\<lambda>b. 2048 \<le> length (em_buf b)) ?k"
    using audit_rep_new by (auto simp: kern_init_def kinv_def kcore_def wf_comp_new t2_into_exec_buffer_def)
  have st: "rstate ?k \<in> {Idle, Reading}" "line_len ?k = 0" "sim_rx (io ?k) = typed ?d @ []"
    by (simp_all add: kern_init_def del: session_simps)
  have far: "?p \<noteq> tx_reg Arm" "?a \<noteq> tx_reg Arm" "is_ram_flash Arm ?p" by (simp_all add: mmio_DR_def)
  have cells: "cell (sim_bus Arm) ?p (\<lambda>s. sim_mem s ?p)" "cell (sim_bus Arm) ?a (\<lambda>s. sim_mem s ?a)"
    by (rule sim_cell, rule far)+
  then have word: "word_cell (sim_bus Arm) ?p (\<lambda>s. sim_mem s ?p)" by (simp add: word_cell_def sim_bus_def mmio_DR_def mmio_SR_def)
  have "check_access Arm REGISTRY_BITS ?a \<noteq> Inr ()" by code_simp
  then have no: "check_access Arm (reg ?k) ?a \<noteq> Inr ()" by (simp add: kern_init_def)
  have i: "printable (Identifier ?i)" "?i \<notin> reserved" "length ?i \<le> NAME_MAX"
    by (simp_all add: is_alpha_def is_ident_char_def byte_str_def reserved_def NAME_MAX_def)
  have c: "find_fn (compiler ?k) ?i = None" "\<exists>j<MAX_FNS. \<not> fn_allocated (compiler ?k) j"
    using new_slots(2) by (auto simp: kern_init_def find_fn_def fn_allocated_def compiler_new_def MAX_FNS_def find_None_iff)
  have "reg ?k = REGISTRY_BITS" by (simp add: kern_init_def)
  then show ?thesis
    using pointer_function_escapes [OF ser kv st(1,2) example_layout_valid refl word cells(2) far no i c refl st(3), of False]
    by auto
qed

end
