(* ===== verification/Misses.thy ===== *)
theory Misses
  imports Dialogue
begin

text \<open>
  Functions on RISC-V: the constants of a compiled body are loaded wrong, so what a function
  writes does not reach the register that its text names.
\<close>

lemma rv_poke_body:
  "list_all no_div (body_ops [SPoke a v])" "length (body_ops [SPoke a v]) < 64"
  "snd (snd (mrun B (map (with_imm rv_loaded) (ncompile (body_ops [SPoke a v]) False)) (r0, r1, h))) = wr B (rv_loaded a) (rv_loaded v) h"
  by (simp_all add: poke_ops_def)

lemma riscv_call:
  assumes "P = riscv_platform lay B r0" and "valid_layout lay" and "256 \<le> length (em_buf b)"
    and "list_all no_div (body_ops ys)" and "length (body_ops ys) < 64"
  shows "\<exists>b'. program_run P (call_program lay ys) m b h
    = Some (Inr None, vm_reset m, b', snd (snd (mrun B (map (with_imm rv_loaded) (ncompile (body_ops ys) False)) (r0 10, r0 11, h))))
    \<and> 256 \<le> length (em_buf b')"
  using riscv_program_run [OF assms(2,4,3,5), of B r0 _ False m h] unfolding call_program_def assms(1) by simp

text \<open>No address that the check grants without SUPERUSER is a signed 12-bit number.\<close>

lemma granted_not_small:
  assumes "check_access Riscv32 r a = Inr ()" and "\<not> is_superuser_active r"
  shows "\<not> signed12 a"
proof -
  have "0x10000000 \<le> a \<and> a \<le> 0x8000FFFF"
  proof (cases "riscv_addr_to_cap a")
    case None
    then have "is_ram_flash Riscv32 a" using assms by (simp add: check_access_def split: if_splits)
    then show ?thesis by (auto simp: word_le_nat_alt)
  next
    case (Some c)
    from riscv_windows [OF this] show ?thesis by (auto simp: word_le_nat_alt)
  qed
  then show ?thesis by (auto simp: signed12_def word_le_nat_alt)
qed

text \<open>Where such an address ends up: near the bottom of the address space, or in its last 2048 bytes.\<close>

lemma misplaced_sum:
  fixes p lo :: u32
  assumes "p \<le> 0x02100000" and "lo \<le> 0x7FF \<or> 0xFFFFF800 \<le> lo"
  shows "p + lo \<le> 0x021007FF \<or> 0xFFFFF800 \<le> p + lo"
proof (cases "unat p + unat lo < 2 ^ 32")
  case True
  then show ?thesis using assms unat_add_small [of p lo] by (simp add: word_le_nat_alt) linarith
next
  case False
  have "unat lo < 2 ^ 32" using unsigned_less [of lo] by simp
  have "unat (p + lo) = (unat p + unat lo) mod 2 ^ 32" by (simp add: unat_word_ariths)
  also have "\<dots> = (unat p + unat lo - 2 ^ 32) mod 2 ^ 32" using False by (intro le_mod_geq) simp
  also have "\<dots> \<le> unat p + unat lo - 2 ^ 32" by (rule mod_less_eq_dividend)
  finally have "unat (p + lo) \<le> unat p + unat lo - 2 ^ 32" .
  then have "unat (p + lo) \<le> unat p" using \<open>unat lo < 2 ^ 32\<close> by linarith
  then show ?thesis using assms(1) by (simp add: word_le_nat_alt)
qed

lemma granted_loaded:
  assumes "check_access Riscv32 r a = Inr ()" and "\<not> is_superuser_active r"
  shows "rv_loaded a \<le> 0x021007FF \<or> 0xFFFFF800 \<le> rv_loaded a"
proof -
  let ?hi = "drop_bit 12 (a + 0x800)"
  have range: "0x10000000 \<le> unat a \<and> unat a \<le> 0x10020FFF \<or> 0x20000000 \<le> unat a \<and> unat a \<le> 0x2000FFFF
      \<or> 0x80000000 \<le> unat a \<and> unat a \<le> 0x8000FFFF"
  proof (cases "riscv_addr_to_cap a")
    case None
    then have "is_ram_flash Riscv32 a" using assms by (simp add: check_access_def split: if_splits)
    then show ?thesis by (auto simp: word_le_nat_alt)
  next
    case (Some c)
    from riscv_windows [OF this] show ?thesis by (auto simp: word_le_nat_alt)
  qed
  then have "unat (a + 0x800) = unat a + 2048" by (subst unat_add_small) auto
  then have hi: "unat ?hi = (unat a + 2048) div 4096" by (simp only: drop_bit_eq_div unat_div) simp
  obtain m r' where a: "unat a = m * 0x1000000 + r'" "r' \<le> 0x20FFF"
  proof -
    consider "0x10000000 \<le> unat a" "unat a \<le> 0x10020FFF" | "0x20000000 \<le> unat a" "unat a \<le> 0x2000FFFF"
      | "0x80000000 \<le> unat a" "unat a \<le> 0x8000FFFF" using range by blast
    then show thesis
    proof cases
      case 1 then show ?thesis by (intro that [of 16 "unat a - 0x10000000"]) simp_all
    next
      case 2 then show ?thesis by (intro that [of 32 "unat a - 0x20000000"]) simp_all
    next
      case 3 then show ?thesis by (intro that [of 128 "unat a - 0x80000000"]) simp_all
    qed
  qed
  have "unat a + 2048 = (r' + 2048) + m * 4096 * 4096" using a(1) by simp
  then have "unat ?hi = m * 4096 + (r' + 2048) div 4096" unfolding hi by simp
  then have "unat ?hi mod 4096 = (r' + 2048) div 4096 mod 4096" by simp
  also have "\<dots> \<le> (r' + 2048) div 4096" by (rule mod_less_eq_dividend)
  also have "\<dots> \<le> 0x217FF div 4096" by (rule div_le_mono) (use a(2) in simp)
  finally have "unat ?hi mod 4096 \<le> 0x21" by simp
  moreover have "unat (push_bit 20 ?hi) = unat ?hi mod 4096 * 2 ^ 20"
  proof -
    have "unat (push_bit 20 ?hi) = unat ?hi * 2 ^ 20 mod (4096 * 2 ^ 20)"
      by (simp add: push_bit_eq_mult unat_word_ariths)
    also have "\<dots> = unat ?hi mod 4096 * 2 ^ 20" by (rule mult_mod_left [symmetric])
    finally show ?thesis .
  qed
  ultimately have "unat (push_bit 20 ?hi) \<le> 0x21 * 2 ^ 20" by (simp only: mult_le_mono1)
  then have "unat (push_bit 20 ?hi) \<le> 0x02100000" by simp
  then have "push_bit 20 ?hi \<le> 0x02100000" by (simp add: word_le_nat_alt)
  from misplaced_sum [OF this lo12_range, of a] show ?thesis
    using granted_not_small [OF assms] by (simp add: rv_loaded_def Let_def)
qed

lemma loaded_refused:
  assumes "rv_loaded a \<le> 0x021007FF \<or> 0xFFFFF800 \<le> rv_loaded a" and "\<not> is_superuser_active r"
  shows "check_access Riscv32 r (rv_loaded a) \<noteq> Inr ()" "rv_loaded a \<noteq> tx_reg Riscv32" "\<not> console_reads Riscv32 (rv_loaded a)"
proof -
  have "riscv_addr_to_cap (rv_loaded a) = None"
    using riscv_windows [of "rv_loaded a"] assms(1) by (cases "riscv_addr_to_cap (rv_loaded a)") (auto simp: word_le_nat_alt)
  then show "check_access Riscv32 r (rv_loaded a) \<noteq> Inr ()"
    using assms by (auto simp: check_access_def word_le_nat_alt)
  show "rv_loaded a \<noteq> tx_reg Riscv32" "\<not> console_reads Riscv32 (rv_loaded a)"
    using assms(1) by (auto simp: mmio_TXDATA_def mmio_RXDATA_def word_le_nat_alt)
qed

text \<open>What the accesses of a session are, given a trace that grew by console accesses, one write,
  and console accesses again.\<close>

lemma one_write:
  assumes "touches (traced B) R W h0 h1" and "touches (traced B) R W (wr (traced B) b w h1) h2"
  shows "\<exists>s t. snd h2 = snd h0 @ s @ Wr b w # t \<and> list_all (allowed R W) s \<and> list_all (allowed R W) t"
proof -
  obtain s where s: "snd h1 = snd h0 @ s" "list_all (allowed R W) s" using touches_traced [OF assms(1)] by blast
  obtain t where t: "snd h2 = snd (wr (traced B) b w h1) @ t" "list_all (allowed R W) t" using touches_traced [OF assms(2)] by blast
  then show ?thesis using s by (cases h1) (auto simp: traced_simps)
qed

lemma allowed_addr: "allowed R W x \<Longrightarrow> R (acc_addr x) \<or> W (acc_addr x)"
  by (cases x) simp_all

lemma first_fault_one:
  assumes "list_all (allowed R W) s" and "list_all (allowed R W) t" and "\<And>a. R a \<or> W a \<Longrightarrow> \<not> F a"
  shows "first_fault F (s @ Wr b w # t) = (if F b then Some (Wr b w) else None)"
proof -
  have "\<not> F (acc_addr x)" if "x \<in> set s \<union> set t" for x
    using assms(3) [of "acc_addr x"] allowed_addr [of R W x] assms(1,2) that by (auto simp: list_all_iff)
  then have "first_fault F s = None" "first_fault F t = None" by (simp_all add: first_fault_None)
  then show ?thesis by (simp add: first_fault_append)
qed

section \<open>The session\<close>

text \<open>Console accesses, one write, console accesses.\<close>

lemma misplaced_session:
  assumes "serial P out inp" and "kinv P (\<lambda>b. 256 \<le> length (em_buf b)) k" and "rstate k \<in> {Idle, Reading}" and "line_len k = 0"
    and "valid_layout lay" and "P = riscv_platform lay (traced B) r0"
    and "check_access Riscv32 (reg k) a = Inr ()" and "\<not> is_superuser_active (reg k)"
    and "printable (Identifier i)" and "i \<notin> reserved" and "length i \<le> NAME_MAX"
    and "find_fn (compiler k) i = None" and "\<exists>j<MAX_FNS. \<not> fn_allocated (compiler k) j"
    and "d = [said_defined i a v, said_called i]" and "inp (io k) = typed d @ later"
  shows "\<exists>k' h1. session P ovf out inp k d k' \<and> inp (io k') = later
    \<and> touches (traced B) (console_reads Riscv32) (\<lambda>b. b = tx_reg Riscv32) (io k) h1
    \<and> touches (traced B) (console_reads Riscv32) (\<lambda>b. b = tx_reg Riscv32) (wr (traced B) (rv_loaded a) (rv_loaded v) h1) (io k')"
proof -
  let ?b = "\<lambda>b. 256 \<le> length (em_buf b)" and ?ys = "[SPoke a v]" and ?B = "traced B"
  let ?r = "reg k" and ?l = "audit k" and ?R = "console_reads Riscv32" and ?W = "\<lambda>b. b = tx_reg Riscv32"
  let ?K = "\<lambda>h. \<exists>h1. touches ?B ?R ?W (io k) h1 \<and> touches ?B ?R ?W (wr ?B (rv_loaded a) (rv_loaded v) h1) h"
  have P: "layout P = lay" "target P = Riscv32" "hw P = ?B" by (simp_all add: assms(6) riscv_platform_def)
  have comp: "wf_comp (layout P) (\<lambda>_. True) (compiler k)" using assms(2) by (simp add: kinv_def kcore_def)
  note refused = loaded_refused [OF granted_loaded [OF assms(7,8)] assms(8)]
  have body: "list_all (\<lambda>y. granted P ?r (stmt_addr y)) ?ys" using assms(7) P(2) by (simp add: granted_def)
  have words: "length (swords (layout P) ?ys) \<le> FN_BODY_WORDS" by (simp add: poke_ops_def FN_BODY_WORDS_def)
  have typed: "inp (io k) = fst (said_body i ?ys) @ 13 # fst (said_called i) @ 13 # later" using assms(14,15) by simp
  obtain c1 k1 where 1: "session P ovf out inp k [said_body i ?ys] k1" "ready ?b ?r ?l c1 k1"
      "inp (io k1) = fst (said_called i) @ 13 # later" "fn_stored lay c1 i ?ys" "quiet P (io k) (io k1)"
    using fn_session [OF assms(1) ready_start [OF assms(2,3,4)] assms(3) typed assms(9,11) comp body assms(12,13)
      fn_text_length(1) [OF assms(11)] words] unfolding P(1) by blast
  have out: "out (wr ?B (rv_loaded a) w h) = out h" "inp (wr ?B (rv_loaded a) w h) = inp h" for w h
    using assms(1) refused(2) unfolding serial_def console_def keyboard_def P by presburger+
  have run: "\<exists>m' b' h'. program_run P (call_program (layout P) ?ys) m b h = Some (Inr None, m', b', h')
      \<and> 256 \<le> length (em_buf b') \<and> out h' = out h \<and> inp h' = inp h \<and> ?K h'"
    if "256 \<le> length (em_buf b)" and "touches ?B ?R ?W (io k) h" for m b h
  proof -
    from riscv_call [OF assms(6,5) that(1) rv_poke_body(1,2) [of a v], of m h] rv_poke_body(3) [of ?B a v "r0 10" "r0 11" h]
    obtain b' where "program_run P (call_program (layout P) ?ys) m b h = Some (Inr None, vm_reset m, b', wr ?B (rv_loaded a) (rv_loaded v) h)"
      "256 \<le> length (em_buf b')" unfolding P(1) by auto
    moreover have "?K (wr ?B (rv_loaded a) (rv_loaded v) h)" using that(2) here by blast
    ultimately show ?thesis using out by blast
  qed
  have "\<exists>k'. session P ovf out inp k1 [said_called i] k' \<and> inp (io k') = later \<and> ?K (io k') \<and> (\<exists>c'. ready ?b ?r ?l c' k')"
  proof (rule call_session [where J = "touches ?B ?R ?W (io k)" and ys = ?ys, OF assms(1) 1(2) session_state [OF 1(1)] 1(3) assms(9-11)])
    show "fn_stored (layout P) c1 i ?ys" using 1(4) P(1) by simp
    show "touches ?B ?R ?W (io k) (io k1)" using 1(5) by (simp add: P)
    show "touches ?B ?R ?W (io k) h'" if "touches ?B ?R ?W (io k) h" "quiet P h h'" for h h'
      using via_trans [OF that(2) [unfolded P] that(1)] .
    show "?K h'" if "?K h" "quiet P h h'" for h h' using that via_trans [OF that(2) [unfolded P]] by blast
  qed (rule run)
  then obtain k2 h1 where 2: "session P ovf out inp k1 [said_called i] k2" "inp (io k2) = later"
      "touches ?B ?R ?W (io k) h1" "touches ?B ?R ?W (wr ?B (rv_loaded a) (rv_loaded v) h1) (io k2)" by blast
  show ?thesis unfolding assms(14) using session_Cons [OF 1(1) 2(1)] 2(2-4) by blast
qed

section \<open>Property\<close>

text \<open>C12: on RISC-V a function never writes the register it names. Let the check grant \<open>a\<close> without
  SUPERUSER, on a bus of which only the UART is assumed to behave. Type \<open>fn f() { poke a v; }\<close>
  (a new name, a function slot free) and then the call. Apart from reads of the receiver and writes of the transmitter, the
  session makes exactly one access: a write to \<open>rv_loaded a\<close>, which is not \<open>a\<close> and which the
  check refuses. If that address answers, both lines are answered as on ARM; if an access
  there faults (as it does where the chip maps nothing), with the UART not faulting, that write
  is where the core stops, and before it nothing but the terminal has been touched. Either
  way nothing but the console's own output ever writes \<open>a\<close>.\<close>

theorem riscv_functions_miss:
  assumes "serial P out inp" and "kinv P (\<lambda>b. 256 \<le> length (em_buf b)) k" and "rstate k \<in> {Idle, Reading}" and "line_len k = 0"
    and "valid_layout lay" and "P = riscv_platform lay (traced B) r0"
    and "check_access Riscv32 (reg k) a = Inr ()" and "\<not> is_superuser_active (reg k)"
    and "printable (Identifier i)" and "i \<notin> reserved" and "length i \<le> NAME_MAX"
    and "find_fn (compiler k) i = None" and "\<exists>j<MAX_FNS. \<not> fn_allocated (compiler k) j"
    and "d = [said_defined i a v, said_called i]" and "inp (io k) = typed d @ later"
  shows "\<exists>k' s t. session P ovf out inp k d k' \<and> inp (io k') = later
    \<and> rv_loaded a \<noteq> a \<and> check_access Riscv32 (reg k) (rv_loaded a) \<noteq> Inr ()
    \<and> snd (io k') = snd (io k) @ s @ Wr (rv_loaded a) (rv_loaded v) # t
    \<and> (\<forall>x \<in> set (s @ t). case x of Rd b _ \<Rightarrow> b = mmio_RXDATA | Wr b _ \<Rightarrow> b = mmio_TXDATA)
    \<and> (\<forall>F. \<not> F mmio_RXDATA \<and> \<not> F mmio_TXDATA \<longrightarrow> first_fault F (s @ Wr (rv_loaded a) (rv_loaded v) # t)
        = (if F (rv_loaded a) then Some (Wr (rv_loaded a) (rv_loaded v)) else None))"
proof -
  let ?R = "console_reads Riscv32" and ?W = "\<lambda>b. b = tx_reg Riscv32"
  have off: "rv_loaded a \<noteq> a" using granted_not_small [OF assms(7,8)] rv_loaded_iff by blast
  note refused = loaded_refused [OF granted_loaded [OF assms(7,8)] assms(8)]
  obtain k2 h1 where 2: "session P ovf out inp k d k2" "inp (io k2) = later"
      "touches (traced B) ?R ?W (io k) h1" "touches (traced B) ?R ?W (wr (traced B) (rv_loaded a) (rv_loaded v) h1) (io k2)"
    using misplaced_session [OF assms] by blast
  obtain s t where st: "snd (io k2) = snd (io k) @ s @ Wr (rv_loaded a) (rv_loaded v) # t"
      "list_all (allowed ?R ?W) s" "list_all (allowed ?R ?W) t"
    using one_write [OF 2(3,4)] by blast
  have "first_fault F (s @ Wr (rv_loaded a) (rv_loaded v) # t) = (if F (rv_loaded a) then Some (Wr (rv_loaded a) (rv_loaded v)) else None)"
    if "\<not> F mmio_RXDATA \<and> \<not> F mmio_TXDATA" for F
    by (rule first_fault_one [OF st(2,3)]) (use that in auto)
  moreover have "case x of Rd b _ \<Rightarrow> b = mmio_RXDATA | Wr b _ \<Rightarrow> b = mmio_TXDATA" if "x \<in> set (s @ t)" for x
  proof -
    have "allowed ?R ?W x" using st(2,3) that by (auto simp: list_all_iff)
    then show ?thesis by (cases x) simp_all
  qed
  ultimately show ?thesis using 2(1,2) off refused(1) st(1) by blast
qed

text \<open>The witness: RAM at 0x80000100, written through the address 0x100, on a bus where everything
  below the UART faults.\<close>

theorem riscv_functions_miss_witness:
  "\<exists>k' s. session (riscv_platform example_layout (traced (sim_bus Riscv32)) (\<lambda>_. 0)) False (\<lambda>h. sim_tx (fst h)) (\<lambda>h. sim_rx (fst h))
      (kern_init REGISTRY_BITS (rv_into_exec_buffer (replicate 256 0)) (\<lparr>sim_mem = (\<lambda>_. 0), sim_tx = [],
        sim_rx = typed [said_defined [0x66] 0x80000100 7, said_called [0x66]]\<rparr>, []))
      [said_defined [0x66] 0x80000100 7, said_called [0x66]] k'
    \<and> snd (io k') = s \<and> Wr 0x100 7 \<in> set s \<and> first_fault (\<lambda>a. a < 0x10000000) s = Some (Wr 0x100 7)"
proof -
  let ?P = "riscv_platform example_layout (traced (sim_bus Riscv32)) (\<lambda>_. 0)" and ?a = "0x80000100 :: u32" and ?i = "[0x66] :: u8 list"
  let ?d = "[said_defined ?i ?a 7, said_called ?i]"
  let ?k = "kern_init REGISTRY_BITS (rv_into_exec_buffer (replicate 256 0)) (\<lparr>sim_mem = (\<lambda>_. 0), sim_tx = [], sim_rx = typed ?d\<rparr>, [])"
  have ser: "serial ?P (\<lambda>h. sim_tx (fst h)) (\<lambda>h. sim_rx (fst h))"
    using traced_serial [OF sim_console [of Riscv32] sim_keyboard [of Riscv32]] by (simp add: serial_def platform_parts)
  have kv: "kinv ?P (\<lambda>b. 256 \<le> length (em_buf b)) ?k"
    using audit_rep_new by (auto simp: kern_init_def kinv_def kcore_def wf_comp_new rv_into_exec_buffer_def)
  have st: "rstate ?k \<in> {Idle, Reading}" "line_len ?k = 0" "sim_rx (fst (io ?k)) = typed ?d @ []" "snd (io ?k) = []"
    by (simp_all add: kern_init_def del: session_simps)
  have ld: "rv_loaded ?a = 0x100" "rv_loaded 7 = 7" by code_simp+
  have free: "check_access Riscv32 (reg ?k) ?a = Inr ()" "\<not> is_superuser_active (reg ?k)"
    unfolding kern_init_def kern.simps by code_simp+
  have i: "printable (Identifier ?i)" "?i \<notin> reserved" "length ?i \<le> NAME_MAX"
    by (simp_all add: is_alpha_def is_ident_char_def byte_str_def reserved_def NAME_MAX_def)
  have c: "find_fn (compiler ?k) ?i = None" "\<exists>j<MAX_FNS. \<not> fn_allocated (compiler ?k) j"
    using new_slots(2) by (auto simp: kern_init_def find_fn_def fn_allocated_def compiler_new_def MAX_FNS_def find_None_iff)
  from riscv_functions_miss [OF ser kv st(1,2) example_layout_valid refl free i c refl st(3), of False]
  obtain k' s t where sess: "session ?P False (\<lambda>h. sim_tx (fst h)) (\<lambda>h. sim_rx (fst h)) ?k ?d k'"
      and tr: "snd (io k') = s @ Wr 0x100 7 # t"
      and ff: "\<And>F. \<not> F mmio_RXDATA \<and> \<not> F mmio_TXDATA \<Longrightarrow> first_fault F (s @ Wr 0x100 7 # t) = (if F 0x100 then Some (Wr 0x100 7) else None)"
    unfolding ld st(4) append_Nil by blast
  have fault: "first_fault (\<lambda>a. a < 0x10000000) (s @ Wr 0x100 7 # t) = Some (Wr 0x100 7)"
    by (subst ff) (simp_all add: mmio_RXDATA_def mmio_TXDATA_def)
  have mem: "Wr 0x100 7 \<in> set (s @ Wr 0x100 7 # t)" by simp
  show ?thesis
    by (rule exI [of _ k'], rule exI [of _ "s @ Wr 0x100 7 # t"], rule conjI, rule sess, rule conjI, rule tr, rule conjI, rule mem, rule fault)
qed

end
