(* ===== verification/Placement.thy ===== *)
theory Placement
  imports Dialogue
begin

text \<open>
  Where the linker scripts put the kernel's own state (src/memory.x, src/memory-riscv.x), and what
  that means for the access check: the claim bitfield is ordinary memory inside the range that the
  check calls RAM. Plain memory is the bus here, and the registry is the words found in it.
\<close>

section \<open>The memory map\<close>

record region =
  origin :: u32
  size_bytes :: nat

text \<open>The regions \<open>vectors\<close>, \<open>registry\<close> and \<open>sram_code\<close> of the two memory maps.\<close>

fun vectors_region :: "arch \<Rightarrow> region" where
  "vectors_region Arm = \<lparr>origin = 0x20000400, size_bytes = 3 * 1024\<rparr>"
| "vectors_region Riscv32 = \<lparr>origin = 0x80001400, size_bytes = 1024\<rparr>"

fun registry_region :: "arch \<Rightarrow> region" where
  "registry_region Arm = \<lparr>origin = 0x20001000, size_bytes = 256\<rparr>"
| "registry_region Riscv32 = \<lparr>origin = 0x80001800, size_bytes = 256\<rparr>"

fun sram_code_region :: "arch \<Rightarrow> region" where
  "sram_code_region Arm = \<lparr>origin = 0x20002000, size_bytes = 4 * 1024\<rparr>"
| "sram_code_region Riscv32 = \<lparr>origin = 0x80001000, size_bytes = 1024\<rparr>"

fun sram_region :: "arch \<Rightarrow> region" where
  "sram_region Arm = \<lparr>origin = 0x20003000, size_bytes = 52 * 1024\<rparr>"
| "sram_region Riscv32 = \<lparr>origin = 0x80000000, size_bytes = 4 * 1024\<rparr>"

definition stack_top :: "arch \<Rightarrow> u32" where
  "stack_top a = origin (sram_region a) + of_nat (size_bytes (sram_region a))"

lemma stack_top_values: "stack_top Arm = 0x20010000" "stack_top Riscv32 = 0x80001000"
  by (simp_all add: stack_top_def)

definition within :: "region \<Rightarrow> u32 \<Rightarrow> bool" where
  "within g addr \<longleftrightarrow> unat (origin g) \<le> unat addr \<and> unat addr < unat (origin g) + size_bytes g"

text \<open>The anchor of small data, and the reset entry of RISC-V: it loads the addresses of the anchor
  and of the stack into \<open>gp\<close> (x3) and \<open>sp\<close> (x2) and jumps to the boot continuation. The registers
  of the core are not read by the model of what follows.\<close>

definition global_pointer :: "linker \<Rightarrow> u32" where
  "global_pointer sections = sdata sections + 0x800"

definition Reset_riscv :: "('e, 'h) platform \<Rightarrow> linker \<Rightarrow> (u32 \<Rightarrow> 'h \<Rightarrow> 'h) \<Rightarrow> irq_layout \<Rightarrow> registry \<Rightarrow> 'e \<Rightarrow> regs \<Rightarrow> 'h
    \<Rightarrow> regs \<times> (stop + unit) \<times> ('e, 'h) kern" where
  "Reset_riscv P sections csrw l r0 e0 x h =
     (let x = x(3 := global_pointer sections); x = x(2 := stack_top Riscv32)
      in (x, rust_boot_riscv P sections csrw l r0 e0 h))"

text \<open>Apart from the two registers, both targets reset the same way. The stack starts at the end of
  the data region and grows down into it.\<close>

lemma reset_riscv:
  "Reset_riscv P sections csrw l r0 e0 x h
    = (x(3 := global_pointer sections, 2 := stack_top Riscv32), Reset P sections csrw l r0 e0 h)"
  by (simp add: Reset_riscv_def rust_boot_riscv_def Reset_def Let_def)

lemma stack_in_data:
  "0 < n \<Longrightarrow> n \<le> size_bytes (sram_region a) \<Longrightarrow> within (sram_region a) (stack_top a - of_nat n)"
proof -
  assume n: "0 < n" "n \<le> size_bytes (sram_region a)"
  have small: "size_bytes (sram_region a) < 2 ^ 16" by (cases a) simp_all
  then have u: "unat (of_nat n :: u32) = n" using n by (simp add: unat_of_nat)
  have top: "unat (stack_top a) = unat (origin (sram_region a)) + size_bytes (sram_region a)" by (cases a) (simp_all add: stack_top_values)
  have "of_nat n \<le> stack_top a" using n u top by (simp add: word_le_nat_alt)
  then have "unat (stack_top a - of_nat n) = unat (stack_top a) - n" using u by (simp add: unat_sub)
  then show ?thesis using n top by (simp add: within_def)
qed

text \<open>The vector table that the linker emits on ARM, its labels being link addresses; nothing in
  the sources adds entries to the section.\<close>

definition isr_vector :: "u32 \<Rightarrow> u32 \<Rightarrow> u32 list" where
  "isr_vector reset fault =
     [stack_top Arm, reset] @ replicate 5 fault @ replicate 4 0 @ replicate 2 fault @ [0] @ replicate 2 fault"

text \<open>Every linked word stands at the offset of its field in the relocated table.\<close>

lemma field_offsets:
  "map field_offset [''initial_sp'', ''reset_handler'', ''nmi_handler'', ''hard_fault'', ''mem_manage'', ''bus_fault'',
     ''usage_fault'', ''reserved'', ''sv_call'', ''debug_mon'', ''reserved2'', ''pend_sv'', ''sys_tick'', ''irq_handlers'']
    = [0, 4, 8, 12, 16, 20, 24, 28, 44, 48, 52, 56, 60, 64]"
  by code_simp

lemma isr_vector_words:
  "isr_vector reset fault = [stack_top Arm, reset, fault, fault, fault, fault, fault, 0, 0, 0, 0, fault, fault, 0, fault, fault]"
  by (simp add: isr_vector_def numeral_eq_Suc del: stack_top_values)

lemma isr_vector_fields:
  "4 * length (isr_vector reset fault) = field_offset ''irq_handlers''"
  "isr_vector reset fault ! (field_offset ''initial_sp'' div 4) = stack_top Arm"
  "isr_vector reset fault ! (field_offset ''reset_handler'' div 4) = reset"
  "map (\<lambda>f. isr_vector reset fault ! (field_offset f div 4))
     [''nmi_handler'', ''hard_fault'', ''mem_manage'', ''bus_fault'', ''usage_fault'', ''sv_call'', ''debug_mon'', ''pend_sv'', ''sys_tick'']
    = [fault, fault, fault, fault, fault, fault, fault, fault, fault]"
  "map (\<lambda>i. isr_vector reset fault ! (field_offset ''reserved'' div 4 + i)) [0, 1, 2, 3] = [0, 0, 0, 0]"
  "isr_vector reset fault ! (field_offset ''reserved2'' div 4) = 0"
  using field_offsets by (simp_all add: isr_vector_words)

section \<open>The registry in memory\<close>

definition registry_in :: "arch \<Rightarrow> (u32 \<Rightarrow> u32) \<Rightarrow> registry" where
  "registry_in a m = map (\<lambda>i. m (origin (registry_region a) + 4 * of_nat i)) [0..<WORDS]"

lemma registry_in_wf [simp]: "wf_registry (registry_in a m)"
  by (simp add: wf_registry_def registry_in_def)

lemma superuser_bit: "bit (m (origin (registry_region a))) 31 \<Longrightarrow> 31 \<in> claimed_set (registry_in a m)"
  by (simp add: claimed_set_def registry_in_def upt_conv_Cons)

lemma within_granted:
  assumes "g \<in> {vectors_region a, registry_region a, sram_code_region a, sram_region a}" and "within g addr"
  shows "is_ram_flash a addr"
  using assms by (cases a) (auto simp: within_def word_le_nat_alt)

section \<open>Property\<close>

text \<open>C10: the claim bitfield can be forged from the keyboard. Whatever is claimed and whatever the
  memory holds, the line \<open>poke base 0x80000000;\<close> at the address where the linker puts the
  registry is accepted, the guarded write that executes it succeeds, and under the registry that
  is in memory afterwards every address of the machine is granted; nothing was ever claimed.\<close>

theorem registry_forgeable:
  assumes "target P = a" and "base = origin (registry_region a)"
  shows "parse P (registry_in a m) (render_all [Identifier (byte_str ''poke''), Literal base, Literal 0x80000000, Semicolon]) c h
      = (Inr (EnforcedPoke base 0x80000000), c, h)
    \<and> (\<exists>l' m'. enforced_poke_u32 a (registry_in a m) ram_bus l base 0x80000000 m = (Inr (), l', m')
      \<and> (\<forall>addr. check_access a (registry_in a m') addr = Inr ()))"
proof -
  have "within (registry_region a) base" using assms(2) by (cases a) (simp_all add: within_def)
  then have ram: "is_ram_flash a base" by (rule within_granted [rotated]) simp
  have "check_access a (registry_in a m) base = Inr ()"
    using ram addr_to_cap_not_ram [of a base] by (auto simp: check_access_def split: option.splits)
  then have "granted P (registry_in a m) base" using assms(1) by (simp add: granted_def)
  moreover have "permits a (registry_in a m) base"
    using ram addr_to_cap_not_ram [of a base] by (auto simp: permits_def)
  moreover have "check_access a (registry_in a (m'(base := 0x80000000))) addr = Inr ()" for m' addr
  proof -
    have "bit (0x80000000 :: u32) 31" by code_simp
    then have "31 \<in> claimed_set (registry_in a (m'(base := 0x80000000)))" by (intro superuser_bit) (simp add: assms(2))
    then show ?thesis by (simp add: check_access_def is_superuser_active_iff)
  qed
  ultimately show ?thesis
    using poke_text(4) [of P "registry_in a m" base "0x80000000" c h] by (simp add: enforced_poke_cases)
qed

theorem registry_forgeable_witness:
  "\<exists>l' m'. enforced_poke_u32 Riscv32 (registry_in Riscv32 (\<lambda>_. 0)) ram_bus audit_new 0x80001800 0x80000000 (\<lambda>_. 0) = (Inr (), l', m')
    \<and> check_access Riscv32 (registry_in Riscv32 m') 0x10010000 = Inr ()"
  using registry_forgeable [of "riscv_platform example_layout ram_bus (\<lambda>_. 0)" Riscv32 "0x80001800" "\<lambda>_. 0"
      compiler_new "\<lambda>_. 0" audit_new]
  by (auto simp: riscv_platform_def)

end
