(* ===== verification/LexPos.thy ===== *)
theory LexPos
  imports Lexer
begin

text \<open>
  Positions of the lexer (src/compiler/lexer.rs): the cursor stays within the text and the line
  counter counts the line ends before it, although only one of the loops that move the cursor
  touches the counter.
\<close>

definition tracks :: "Lexer \<Rightarrow> bool" where
  "tracks l \<longleftrightarrow> cursor l \<le> length (stream l) \<and> line l = Suc (count_list (take (cursor l) (stream l)) 0x0A)"

text \<open>\<open>skips s c c'\<close>: the bytes from \<open>c\<close> to \<open>c'\<close> are no line ends.\<close>

definition skips :: "u8 list \<Rightarrow> nat \<Rightarrow> nat \<Rightarrow> bool" where
  "skips s c c' \<longleftrightarrow> c \<le> c' \<and> (c \<le> length s \<longrightarrow> c' \<le> length s) \<and> (\<forall>i. c \<le> i \<and> i < c' \<longrightarrow> s ! i \<noteq> 0x0A)"

lemma skips_refl [simp]: "skips s c c"
  by (auto simp: skips_def)

lemma skips_step: "c < length s \<Longrightarrow> s ! c \<noteq> 0x0A \<Longrightarrow> skips s (Suc c) c' \<Longrightarrow> skips s c c'"
  unfolding skips_def by (metis Suc_leI le_Suc_eq le_eq_less_or_eq not_less_eq_eq)

lemma skips_trans: "skips s c c1 \<Longrightarrow> skips s c1 c2 \<Longrightarrow> skips s c c2"
  unfolding skips_def by (meson le_trans linorder_not_le)

lemma tracks_skip:
  assumes "tracks l" and "skips (stream l) (cursor l) c"
  shows "tracks (l\<lparr>cursor := c\<rparr>)"
proof -
  have le: "cursor l \<le> c" "c \<le> length (stream l)" and no: "\<And>i. cursor l \<le> i \<Longrightarrow> i < c \<Longrightarrow> stream l ! i \<noteq> 0x0A"
    using assms by (auto simp: tracks_def skips_def)
  have split: "take c (stream l) = take (cursor l) (stream l) @ drop (cursor l) (take c (stream l))"
    using le by (metis append_take_drop_id min.absorb1 take_take)
  have "0x0A \<notin> set (drop (cursor l) (take c (stream l)))"
    using no le by (auto simp: in_set_conv_nth)
  then have "count_list (take c (stream l)) 0x0A = count_list (take (cursor l) (stream l)) 0x0A"
    by (subst split) (simp add: count_list_0_iff)
  then show ?thesis using assms(1) le by (simp add: tracks_def)
qed

section \<open>The loops\<close>

lemma scan_skips: "(\<And>b. p b \<Longrightarrow> b \<noteq> 0x0A) \<Longrightarrow> skips s c (scan p s c)"
proof (induction p s c rule: scan.induct)
  case (1 p s c)
  then show ?case by (subst scan.simps) (auto intro: skips_step)
qed

lemma no_line_end: "hex_digit 0x0A = None" "\<not> is_digit 0x0A" "\<not> is_hexdigit 0x0A" "\<not> is_ident_char 0x0A" "\<not> is_alpha 0x0A"
  by (simp_all add: hex_digit_def is_digit_def is_hexdigit_def is_ident_char_def is_alpha_def)

lemma hex_loop_skips: "skips s c (fst (hex_loop s c v))"
proof (induction s c v rule: hex_loop.induct)
  case (1 s c v)
  have over: "skips s c (scan (\<lambda>b. is_hexdigit b \<or> b = 0x5F) s c)" by (rule scan_skips) (auto simp: no_line_end)
  have "s ! c \<noteq> 0x0A" if "hex_digit (s ! c) \<noteq> None" using that no_line_end(1) by auto
  then show ?case using 1 over
    by (subst hex_loop.simps) (auto intro: skips_step split: option.splits)
qed

lemma dec_loop_skips: "skips s c (fst (dec_loop s c v))"
proof (induction s c v rule: dec_loop.induct)
  case (1 s c v)
  have over: "skips s c (scan (\<lambda>b. is_digit b \<or> b = 0x5F) s c)" by (rule scan_skips) (auto simp: no_line_end)
  have "s ! c \<noteq> 0x0A" if "is_digit (s ! c)" using that no_line_end(2) by auto
  then show ?case using 1 over
    by (subst dec_loop.simps) (auto intro: skips_step split: option.splits)
qed

lemma word_skips: "tracks l \<Longrightarrow> tracks (snd (parse_identifier l))"
  using tracks_skip [OF _ scan_skips [of is_ident_char]] no_line_end(4)
  by (auto simp: parse_identifier_def Let_def)

lemma literal_skips:
  assumes "tracks l" and "cursor l < length (stream l)" and "is_digit (stream l ! cursor l)"
  shows "tracks (snd (parse_literal l))"
proof -
  let ?s = "stream l" and ?c = "cursor l"
  have hex: "skips ?s ?c (fst (hex_loop ?s (?c + 2) 0))"
    if "?c + 1 < length ?s" "?s ! (?c + 1) = 0x78 \<or> ?s ! (?c + 1) = 0x58" "?s ! ?c = 0x30"
    using that hex_loop_skips [of ?s "?c + 2" 0] by (intro skips_step [of ?c ?s] skips_step [of "Suc ?c" ?s]) auto
  show ?thesis
    using tracks_skip [OF assms(1) hex] tracks_skip [OF assms(1) dec_loop_skips [of ?s ?c 0]]
    by (auto simp: parse_literal_def Let_def split_beta split: option.split)
qed

section \<open>Tokens\<close>

lemma next_token_tracks: "tracks l \<Longrightarrow> tracks (snd (next_token l)) \<and> cursor l \<le> cursor (snd (next_token l))
    \<and> stream (snd (next_token l)) = stream l"
proof (induction l rule: next_token.induct)
  case (1 l)
  let ?b = "stream l ! cursor l"
  show ?case
  proof (cases "cursor l < length (stream l)")
    case False
    then show ?thesis using "1.prems" by (simp add: next_token.simps [of l])
  next
    case c: True
    note arms = next_token_arms [OF c refl]
    have step: "tracks (l\<lparr>cursor := cursor l + 1\<rparr>)" if "?b \<noteq> 0x0A"
      using tracks_skip [OF "1.prems" skips_step [OF c that skips_refl]] by simp
    show ?thesis
    proof (cases ?b rule: byte_class_cases)
      case blank
      then show ?thesis using "1.IH"(1) [OF c refl] step arms(1) by fastforce
    next
      case nl
      have "tracks (l\<lparr>line := line l + 1, cursor := cursor l + 1\<rparr>)"
        using "1.prems" c nl by (simp add: tracks_def take_Suc_conv_app_nth)
      then show ?thesis using "1.IH"(2) [OF c refl] nl arms(2) by simp
    next
      case word
      then show ?thesis using word_skips [OF "1.prems"] arms(3)
        by (auto simp: parse_identifier_def Let_def scan_takeWhile)
    next
      case num
      have "stream (snd (parse_literal l)) = stream l \<and> cursor l \<le> cursor (snd (parse_literal l))"
        using hex_loop_skips [of "stream l" "cursor l + 2" 0] dec_loop_skips [of "stream l" "cursor l" 0]
        by (auto simp: parse_literal_def Let_def split_beta skips_def split: option.split)
      with literal_skips [OF "1.prems" c num] arms(4) num show ?thesis by simp
    next
      case single
      then have "?b \<noteq> 0x0A" by (auto simp: is_space_def)
      with step arms(5) single show ?thesis by simp
    qed
  qed
qed

lemma tokens_track: "tracks l \<Longrightarrow> tracks (((\<lambda>l. snd (next_token l)) ^^ n) l) \<and> stream (((\<lambda>l. snd (next_token l)) ^^ n) l) = stream l"
  by (induction n) (simp_all add: next_token_tracks)

section \<open>Property\<close>

text \<open>C35: positions are true. After any number of tokens of any text, well formed or not, the byte
  offset that the lexer reports is within the text and the line it reports is one more than the
  number of line ends before that offset.\<close>

theorem lexer_positions:
  "let l = ((\<lambda>l. snd (next_token l)) ^^ n) (lexer_new s)
   in lexer_pos l \<le> length s \<and> lexer_line l = Suc (count_list (take (lexer_pos l) s) 0x0A)"
proof -
  define l where "l = ((\<lambda>l. snd (next_token l)) ^^ n) (lexer_new s)"
  have new: "tracks (lexer_new s)" "stream (lexer_new s) = s" by (simp_all add: tracks_def lexer_new_def)
  have "tracks l" "stream l = s" unfolding l_def using tokens_track [OF new(1), of n] new(2) by auto
  then show ?thesis by (simp add: Let_def lexer_pos_def lexer_line_def tracks_def flip: l_def)
qed

end
