(* ===== verification/Build.thy ===== *)
theory Build
  imports Prelude "HOL-Library.Sublist"
begin

text \<open>
  The build script (src/build.rs): it chooses the linker script of the target, checks that the
  script and the layout it includes are there, and passes the script to the linker. The
  environment and the file system are arguments; a panic is a value.
\<close>

datatype build_panic =
    NoManifestDir
  | Unreadable string
  | NoRegions string
  | NoInclude string string
  | NoLayout string string

text \<open>The linker script and the shared layout of a target; every target but RV32 is taken for ARM.\<close>

definition scripts_for :: "string \<Rightarrow> string \<times> string" where
  "scripts_for target = (if target = ''riscv32'' then (''memory-riscv.x'', ''memory-layout-riscv.x'')
     else (''memory.x'', ''memory-layout.x''))"

text \<open>\<open>Path::join\<close> with a relative name.\<close>

definition join_path :: "string \<Rightarrow> string \<Rightarrow> string" where
  "join_path dir f = (if dir = [] \<or> last dir = CHR ''/'' then dir @ f else dir @ ''/'' @ f)"

text \<open>\<open>env\<close> looks up a variable, \<open>file\<close> the contents of a readable file, \<open>exists\<close> whether a path exists.
  The result is what is printed for Cargo, line by line.\<close>

definition build_main :: "(string \<Rightarrow> string option) \<Rightarrow> (string \<Rightarrow> string option) \<Rightarrow> (string \<Rightarrow> bool) \<Rightarrow> build_panic + string list" where
  "build_main env file exists =
     (let target = (case env ''CARGO_CFG_TARGET_ARCH'' of Some t \<Rightarrow> t | None \<Rightarrow> ''arm'');
          (script, layout) = scripts_for target
      in case env ''CARGO_MANIFEST_DIR'' of
           None \<Rightarrow> Inl NoManifestDir
         | Some dir \<Rightarrow>
             (case file (join_path dir script) of
                None \<Rightarrow> Inl (Unreadable (join_path dir script))
              | Some contents \<Rightarrow>
                  (if \<not> sublist ''ORIGIN'' contents \<or> \<not> sublist ''LENGTH'' contents then Inl (NoRegions script)
                   else if \<not> sublist (''INCLUDE '' @ layout) contents then Inl (NoInclude script layout)
                   else if \<not> exists (join_path dir layout) then Inl (NoLayout layout (join_path dir layout))
                   else Inr [''cargo:rerun-if-changed='' @ script, ''cargo:rerun-if-changed='' @ layout,
                          ''cargo:rerun-if-env-changed=CARGO_CFG_TARGET_ARCH'', ''cargo:rustc-link-arg=-T'' @ script])))"

text \<open>A build that goes through has linked the script of its own target, whose text names the
  layout of that target.\<close>

lemma build_links_target:
  assumes "build_main env file exists = Inr out" and "env ''CARGO_CFG_TARGET_ARCH'' = Some target"
  shows "last out = ''cargo:rustc-link-arg=-T'' @ fst (scripts_for target)
    \<and> (\<exists>dir contents. env ''CARGO_MANIFEST_DIR'' = Some dir \<and> file (join_path dir (fst (scripts_for target))) = Some contents
      \<and> sublist (''INCLUDE '' @ snd (scripts_for target)) contents \<and> exists (join_path dir (snd (scripts_for target))))"
  using assms by (cases "scripts_for target") (auto simp: build_main_def Let_def split: option.splits if_splits)

text \<open>The two layouts cannot be confused: their directives do not contain each other.\<close>

lemma layouts_distinct:
  "\<not> sublist (''INCLUDE '' @ snd (scripts_for ''arm'')) (''INCLUDE '' @ snd (scripts_for ''riscv32''))"
  "\<not> sublist (''INCLUDE '' @ snd (scripts_for ''riscv32'')) (''INCLUDE '' @ snd (scripts_for ''arm''))"
  by code_simp+

text \<open>A script with regions and the include directive passes.\<close>

lemma build_example:
  "build_main (map_of [(''CARGO_CFG_TARGET_ARCH'', ''riscv32''), (''CARGO_MANIFEST_DIR'', ''src'')])
      (map_of [(''src/memory-riscv.x'', ''ORIGIN LENGTH INCLUDE memory-layout-riscv.x'')]) (\<lambda>p. p = ''src/memory-layout-riscv.x'')
    = Inr [''cargo:rerun-if-changed=memory-riscv.x'', ''cargo:rerun-if-changed=memory-layout-riscv.x'',
        ''cargo:rerun-if-env-changed=CARGO_CFG_TARGET_ARCH'', ''cargo:rustc-link-arg=-Tmemory-riscv.x'']"
  by code_simp

end
