(* ===== verification/AuditText.thy ===== *)
theory AuditText
  imports Dialogue
begin

text \<open>
  The audit log as the terminal shows it: what \<open>sys_audit\<close> prints is a function of the history of
  recorded events. The ring is listed slot by slot, so the order on the terminal is that of the
  slots, and a slot whose address is 0 is taken for an empty one.
\<close>

section \<open>The ring as a view of the history\<close>

text \<open>The event in a slot: the last one whose number is the slot modulo 16.\<close>

definition ring_view :: "AuditEntry list \<Rightarrow> AuditEntry list" where
  "ring_view es = map (\<lambda>k. if k < length es then es ! (k + 16 * ((length es - 1 - k) div 16)) else zero_entry) [0..<16]"

lemma latest_in_slot:
  assumes "k < (16 :: nat)" and "k < n"
  defines "i \<equiv> k + 16 * ((n - 1 - k) div 16)"
  shows "i < n" "n \<le> i + 16" "i mod 16 = k"
proof -
  have "16 * ((n - 1 - k) div 16) \<le> n - 1 - k" "n - 1 - k < 16 * ((n - 1 - k) div 16) + 16"
    using div_mult_mod_eq [of "n - 1 - k" 16] mod_less_divisor [of 16 "n - 1 - k"] by linarith+
  then show "i < n" "n \<le> i + 16" using assms(2) by (auto simp: i_def)
  show "i mod 16 = k" using assms(1) by (simp add: i_def)
qed

lemma entries_view:
  assumes "audit_rep es l"
  shows "entries l = ring_view es"
proof (rule nth_equalityI)
  show len: "length (entries l) = length (ring_view es)"
    using assms by (simp add: entries_def audit_rep_def ring_view_def)
  fix k assume "k < length (entries l)"
  then have k: "k < 16" using len by (simp add: ring_view_def)
  show "entries l ! k = ring_view es ! k"
  proof (cases "k < length es")
    case True
    note i = latest_in_slot [OF k True]
    from assms i(1,2) have "buffer l ! ((k + 16 * ((length es - 1 - k) div 16)) mod 16) = es ! (k + 16 * ((length es - 1 - k) div 16))"
      unfolding audit_rep_def by blast
    then show ?thesis using k True i(3) by (simp add: entries_def ring_view_def)
  next
    case False
    then show ?thesis using assms k by (simp add: entries_def ring_view_def audit_rep_def)
  qed
qed

text \<open>Up to sixteen events are listed in the order in which they happened; the seventeenth is listed
  before the older ones.\<close>

lemma ring_view_order:
  "length es \<le> 16 \<Longrightarrow> ring_view es = es @ replicate (16 - length es) zero_entry"
  "length es = 17 \<Longrightarrow> ring_view es ! 0 = es ! 16 \<and> ring_view es ! 1 = es ! 1"
proof -
  show "ring_view es = es @ replicate (16 - length es) zero_entry" if "length es \<le> 16"
    using that by (intro nth_equalityI) (auto simp: ring_view_def nth_append)
qed (simp add: ring_view_def)

section \<open>The listing\<close>

definition entry_text :: "AuditEntry \<Rightarrow> u8 list" where
  "entry_text e = byte_str ''ADDR: '' @ byte_str ''0x'' @ hex_digits (ae_addr e) @ byte_str '' | VAL: '' @ byte_str ''0x'' @ hex_digits (ae_val e)
     @ byte_str '' | CYCLES: '' @ dec_digits (unat (ae_cycles e)) @ crlf"

definition audit_text :: "AuditEntry list \<Rightarrow> u8 list" where
  "audit_text es = byte_str ''--- SUPERUSER AUDIT LOG ---'' @ crlf @ byte_str ''Total Unsafe Operations: ''
     @ dec_digits (min (length es) (2 ^ 32 - 1)) @ crlf @ byte_str ''Recent Events:'' @ crlf
     @ concat (map entry_text (filter (\<lambda>e. ae_addr e \<noteq> 0) (ring_view es)))"

lemma says_entries:
  assumes "serial P out inp"
  shows "says out inp (print_entries P es) (concat (map entry_text (filter (\<lambda>e. ae_addr e \<noteq> 0) es)))"
proof (induction es)
  case Nil
  show ?case by (simp add: says_nothing)
next
  case (Cons e es)
  note put = says_put [OF assms]
  show ?case
  proof (cases "ae_addr e = 0")
    case False
    have "says out inp (print_entries P (e # es)) (byte_str ''ADDR: '' @ (byte_str ''0x'' @ hex_digits (ae_addr e)) @ byte_str '' | VAL: ''
        @ (byte_str ''0x'' @ hex_digits (ae_val e)) @ byte_str '' | CYCLES: '' @ dec_digits (unat (ae_cycles e)) @ crlf
        @ concat (map entry_text (filter (\<lambda>e. ae_addr e \<noteq> 0) es)))"
      using False by (simp only: print_entries.simps if_True not_False_eq_True) (intro says_then put Cons)
    then show ?thesis using False by (simp add: entry_text_def [of e])
  qed (use Cons in simp)
qed

lemma says_audit:
  assumes "serial P out inp" and "audit_rep es (audit k)"
  shows "\<exists>h'. handle_audit P k = (Inr (), k\<lparr>io := h'\<rparr>) \<and> out h' = out (io k) @ audit_text es \<and> inp h' = inp (io k)"
proof -
  note put = says_put [OF assms(1)]
  have total: "unat (of_nat (total_audits (audit k)) :: u32) = min (length es) (2 ^ 32 - 1)"
    using assms(2) by (simp add: audit_rep_def total_audits_def unat_of_nat)
  let ?m = "try_then (put_str P (byte_str ''--- SUPERUSER AUDIT LOG ---'' @ crlf))
      (try_then (put_str P (byte_str ''Total Unsafe Operations: ''))
      (try_then (put_dec P (of_nat (total_audits (audit k))))
      (try_then (put_str P (crlf @ byte_str ''Recent Events:'' @ crlf)) (print_entries P (entries (audit k))))))"
  have "says out inp ?m ((byte_str ''--- SUPERUSER AUDIT LOG ---'' @ crlf) @ byte_str ''Total Unsafe Operations: ''
      @ dec_digits (unat (of_nat (total_audits (audit k)) :: u32)) @ (crlf @ byte_str ''Recent Events:'' @ crlf)
      @ concat (map entry_text (filter (\<lambda>e. ae_addr e \<noteq> 0) (entries (audit k)))))"
    by (intro says_then put says_entries assms(1))
  from saysD [OF this, of k] show ?thesis
    by (simp add: handle_audit_def Let_def total entries_view [OF assms(2)] audit_text_def)
qed

section \<open>The command\<close>

lemma bare_command:
  assumes "(w, outcome) \<in> {(byte_str ''help'', Help), (byte_str ''banner'', Banner), (byte_str ''sys_audit'', SysAudit)}"
  defines "ts \<equiv> [Identifier w, Semicolon]"
  shows "list_all printable ts" "ts \<noteq> []" "length (render_all ts) \<le> LINE_MAX" "parse P r (render_all ts) c h = (Inr outcome, c, h)"
proof -
  show pr: "list_all printable ts" "ts \<noteq> []" "length (render_all ts) \<le> LINE_MAX"
    using assms(1) by (auto simp: ts_def byte_str_def is_alpha_def is_ident_char_def render_all_def LINE_MAX_def)
  have cmd: "parse_command P r n w = try_then allow_optional_semicolon (ok_with outcome)" for n
    using assms(1) by (auto simp: parse_command_def byte_str_def)
  have "runs allow_optional_semicolon [Semicolon] us c h (Inr ()) c h" for us
    unfolding allow_optional_semicolon_def by (rule runs_peek_bind) (simp add: runs_next_then runs_ok)
  from runs_then [OF this runs_ok] have "runs (parse_command P r n w) [Semicolon] [] c h (Inr outcome) c h" for n
    unfolding cmd by simp
  from command_line [OF _ this] pr(1) show "parse P r (render_all ts) c h = (Inr outcome, c, h)"
    by (simp add: ts_def)
qed

section \<open>Property\<close>

text \<open>C22: \<open>sys_audit\<close> shows the log. Whatever events the log has recorded since boot, typing
  \<open>sys_audit;\<close> is answered with their number and, slot by slot, address, value and cycle count of
  the last event of every slot whose address is not 0, and with nothing else; nothing changes
  but the terminal.\<close>

theorem sys_audit_lists:
  assumes "serial P out inp" and "ready bufok r l c k" and "rstate k \<in> {Idle, Reading}" and "audit_rep es l"
    and "s = render_all [Identifier (byte_str ''sys_audit''), Semicolon]" and "inp (io k) = s @ 13 # later"
  shows "\<exists>k'. session P ovf out inp k [(s, audit_text es)] k' \<and> ready bufok r l c k' \<and> inp (io k') = later"
proof -
  have w: "(byte_str ''sys_audit'', SysAudit) \<in> {(byte_str ''help'', Help), (byte_str ''banner'', Banner), (byte_str ''sys_audit'', SysAudit)}" by simp
  have answer: "\<exists>k2. print_pending P ovf (Some (Inr SysAudit)) k1 = (Inr (), k2) \<and> out (io k2) = out (io k1) @ audit_text es
      \<and> inp (io k2) = inp (io k1) \<and> ready bufok r l c k2" if "ready bufok r l c k1" for k1
  proof -
    have "audit_rep es (audit k1)" using that assms(4) by (simp add: ready_def)
    from says_audit [OF assms(1) this] obtain h' where "handle_audit P k1 = (Inr (), k1\<lparr>io := h'\<rparr>)"
        "out h' = out (io k1) @ audit_text es" "inp h' = inp (io k1)" by blast
    then show ?thesis using that by (intro exI [of _ "k1\<lparr>io := h'\<rparr>"]) (simp add: print_pending_def)
  qed
  from ready_line [OF assms(1-3) bare_command(1-3) [OF w] assms(6) [unfolded assms(5)] bare_command(4) [OF w] answer]
  show ?thesis unfolding assms(5) by blast
qed

theorem sys_audit_lists_witness:
  "\<exists>k'. session (arm_platform example_layout (sim_bus Arm) (\<lambda>_. 0)) False sim_tx sim_rx
      ((kern_init REGISTRY_BITS (t2_into_exec_buffer []) \<lparr>sim_mem = (\<lambda>_. 0), sim_tx = [], sim_rx = byte_str ''sys_audit ; '' @ [13]\<rparr>)
        \<lparr>audit := push_entry \<lparr>ae_addr = 0x20000000, ae_val = 5, ae_cycles = 7\<rparr> audit_new\<rparr>)
      [(byte_str ''sys_audit ; '', byte_str ''--- SUPERUSER AUDIT LOG ---'' @ crlf @ byte_str ''Total Unsafe Operations: 1'' @ crlf
        @ byte_str ''Recent Events:'' @ crlf @ byte_str ''ADDR: 0x20000000 | VAL: 0x00000005 | CYCLES: 7'' @ crlf)] k'"
proof -
  let ?P = "arm_platform example_layout (sim_bus Arm) (\<lambda>_. 0)" and ?e = "\<lparr>ae_addr = 0x20000000, ae_val = 5, ae_cycles = 7\<rparr>"
  let ?k = "(kern_init REGISTRY_BITS (t2_into_exec_buffer []) \<lparr>sim_mem = (\<lambda>_. 0), sim_tx = [], sim_rx = byte_str ''sys_audit ; '' @ [13]\<rparr>)
    \<lparr>audit := push_entry ?e audit_new\<rparr>"
  have ser: "serial ?P sim_tx sim_rx" using sim_console [of Arm] sim_keyboard [of Arm] by (simp add: serial_def arm_platform_def)
  have k: "ready (\<lambda>_. True) REGISTRY_BITS (push_entry ?e audit_new) compiler_new ?k" "rstate ?k \<in> {Idle, Reading}"
    by (simp_all add: ready_def editable_def kern_init_def)
  have rep: "audit_rep [?e] (push_entry ?e audit_new)" using audit_rep_push [OF audit_rep_new, of ?e] by simp
  have words: "byte_str ''sys_audit ; '' = render_all [Identifier (byte_str ''sys_audit''), Semicolon]"
    by (simp add: render_all_def byte_str_def)
  have io: "sim_rx (io ?k) = byte_str ''sys_audit ; '' @ 13 # []" by (simp add: kern_init_def)
  have shown: "audit_text [?e] = byte_str ''--- SUPERUSER AUDIT LOG ---'' @ crlf @ byte_str ''Total Unsafe Operations: 1'' @ crlf
      @ byte_str ''Recent Events:'' @ crlf @ byte_str ''ADDR: 0x20000000 | VAL: 0x00000005 | CYCLES: 7'' @ crlf"
    by (simp add: audit_text_def entry_text_def ring_view_order(1) hex_digits_def hex_char_def byte_str_def dec_digits.simps zero_entry_def)
  show ?thesis
    using sys_audit_lists [OF ser k rep words io, of False] unfolding shown by blast
qed

end
