(* ===== verification/Hal.thy ===== *)
theory Hal
  imports Emitter
begin

text \<open>
  The trait crate (src/crates/hros-hal/src/). Its traits have no implementation in the repository;
  what they carry themselves is modelled here: the constants, and the one method with a body,
  \<open>ExecutionBuffer::remaining\<close>. The kernel's emitters are the writers of the buffer that the trait
  describes, and \<open>remaining\<close> is compared with the room they have.
\<close>

section \<open>ExecutionBuffer\<close>

definition HAL_SIZE :: usize where "HAL_SIZE = 4096"
definition HAL_ALIGN :: usize where "HAL_ALIGN = 4"

text \<open>\<open>SIZE - len()\<close> on \<open>usize\<close>: when the length is greater, a panic (\<open>None\<close>) with overflow checks
  and a wrapped difference without.\<close>

definition remaining :: "bool \<Rightarrow> usize \<Rightarrow> usize option" where
  "remaining ovf n = (if ovf \<and> HAL_SIZE < n then None else Some (HAL_SIZE - n))"

lemma remaining_within:
  assumes "n \<le> 4096"
  shows "remaining ovf (of_nat n) = Some (of_nat (4096 - n))"
proof -
  have "unat (of_nat n :: usize) = n" using assms by (simp add: unat_of_nat)
  then have "\<not> HAL_SIZE < (of_nat n :: usize)" using assms by (simp add: word_less_nat_alt HAL_SIZE_def)
  then show ?thesis using assms by (simp add: remaining_def HAL_SIZE_def)
qed

text \<open>Against the emitters. On ARM the trait's size is that of the buffer, and the emitter refuses a
  word exactly when nothing remains. On RISC-V the buffer is a quarter of it: the emitter refuses
  while 3072 bytes remain by the trait's count.\<close>

lemma remaining_arm:
  assumes "cap_words e = EXEC_BUFFER_SIZE Arm div 2" and "len_words e \<le> cap_words e"
  shows "fst (push16 w e) = Inl Overflow \<longleftrightarrow> remaining ovf (of_nat (t2_bytes_written e)) = Some 0"
proof -
  have n: "t2_bytes_written e \<le> 4096" using assms by (simp add: t2_bytes_written_def)
  have "(of_nat m :: usize) = 0 \<longleftrightarrow> m = 0" if "m \<le> 4096" for m
    using that by (simp only: word_unat_eq_iff) (simp add: unat_of_nat)
  from this [of "4096 - t2_bytes_written e"] have "(of_nat (4096 - t2_bytes_written e) :: usize) = 0 \<longleftrightarrow> 4096 - t2_bytes_written e = 0"
    by (simp only: diff_le_self)
  then show ?thesis using assms unfolding remaining_within [OF n] by (auto simp: push16_def t2_bytes_written_def)
qed

lemma remaining_riscv:
  assumes "cap_words e = EXEC_BUFFER_SIZE Riscv32 div 4" and "len_words e = cap_words e"
  shows "fst (push32 w e) = Inl Overflow" "remaining ovf (of_nat (rv_bytes_written e)) = Some 3072"
proof -
  show "fst (push32 w e) = Inl Overflow" using assms by (simp add: push32_def)
  have "rv_bytes_written e = 1024" using assms by (simp add: rv_bytes_written_def)
  then show "remaining ovf (of_nat (rv_bytes_written e)) = Some 3072" using remaining_within [of 1024 ovf] by simp
qed

section \<open>Constants of the other traits\<close>

definition SHIFT :: u32 where "SHIFT = 12"
definition CYCLES_SCALAR :: usize where "CYCLES_SCALAR = 3"
definition CYCLES_VECTOR :: usize where "CYCLES_VECTOR = 1"
definition SLOTS :: usize where "SLOTS = 32"
definition MAX_LATENCY_CYCLES :: usize where "MAX_LATENCY_CYCLES = 12"
definition TOTAL_CYCLES :: usize where "TOTAL_CYCLES = 43"
definition CYCLES_AUTO_STACK :: usize where "CYCLES_AUTO_STACK = 12"
definition CYCLES_MANUAL_PUSH :: usize where "CYCLES_MANUAL_PUSH = 8"
definition CYCLES_SCHED :: usize where "CYCLES_SCHED = 3"
definition CYCLES_RESTORE :: usize where "CYCLES_RESTORE = 20"

text \<open>The budget of a switch is the sum of its parts.\<close>

lemma switch_budget: "TOTAL_CYCLES = CYCLES_AUTO_STACK + CYCLES_MANUAL_PUSH + CYCLES_SCHED + CYCLES_RESTORE"
  by (simp add: TOTAL_CYCLES_def CYCLES_AUTO_STACK_def CYCLES_MANUAL_PUSH_def CYCLES_SCHED_def CYCLES_RESTORE_def)

end
