(* ===== verification/Spec2Isabelle.thy ===== *)
theory Spec2Isabelle
  imports Prelude Registry Bus AuditRing Memory Tokens Lexer Exec Emitter Isa
    Encoding EncodingRv NativeCode Native Symtab Cursor Parser ParserLaws ExprSem LineSem
    FnSem Session Uart Interrupt Repl ReplLaws Boot Traffic Mediation Faults Atomic Console Dialogue System
    Scenario Escape Misses Placement LexPos Build AuditText Hal
begin

text \<open>
  Verification library of the holy-rust kernel, a bare-metal system for two 32-bit targets (ARM
  Cortex-M and RV32): a serial console reads lines, a compiler turns each line into an outcome,
  outcomes run threaded code or machine code and touch hardware registers, and a registry of
  claimed resources decides which registers a user may touch.

  \<^bold>\<open>How the parts interact.\<close> \<open>Reset\<close> initialises memory, the UART and the vector table and enters the
  control loop of \<open>repl.rs\<close>. A turn of the loop polls a byte and edits the line, or compiles the
  line (\<open>parser.rs\<close> over \<open>lexer.rs\<close>, which asks the registry for every address), or executes the
  outcome: claims and releases (\<open>registry.rs\<close>, names from \<open>tokens.rs\<close>), guarded accesses
  (\<open>memory.rs\<close>, with \<open>audit.rs\<close>), and programs (\<open>native.rs\<close> over \<open>emitter.rs\<close>, with \<open>exec.rs\<close> and
  \<open>primitives.rs\<close> when a program is not compilable).

  \<^bold>\<open>State.\<close> Statics and registers are explicit: \<open>Repl.kern\<close> holds the line buffer, the compiler
  (symbols, functions, output stream), the registry, the audit log, the operand stack, the
  executable buffer and the hardware. The hardware is a type variable, reached only through a
  \<open>bus\<close> (read, write, cycle counter), so every theorem holds for any device, and side effects
  of reads are visible. \<open>usize\<close> and \<open>u32\<close> values are words and wrap as the source writes it;
  indices and lengths are natural numbers. Panics, hangs, early returns and parse errors are
  values: \<open>error + 'a\<close>, \<open>option\<close>, or \<open>stop\<close> for the whole machine. \<open>cfg(target_arch)\<close> is the
  argument \<open>arch\<close>, overflow checks are the argument \<open>ovf\<close>.

  \<^bold>\<open>Theories and sources\<close> (under src/src/).
  Prelude: words, fallible state passing, lists.
  Registry: \<open>capabilities/registry.rs\<close>; refined to a set of claimed numbers, locale \<open>cap_store\<close>.
  Bus, Memory: \<open>kernel/memory.rs\<close>, raw and guarded; reference buses (plain memory, traced).
  AuditRing: \<open>capabilities/audit.rs\<close>, refined to the history of events.
  Tokens: \<open>capabilities/tokens.rs\<close>; ownership of tokens as a step relation with reachability.
  Lexer: \<open>compiler/lexer.rs\<close>; the cursor loops refine a reference lexer on suffixes, and printing
  tokens inverts lexing.
  Exec: \<open>kernel/exec.rs\<close> and \<open>compiler/primitives.rs\<close>; locale \<open>bounded_stack\<close>, streams refined to
  reverse Polish programs.
  Emitter: \<open>compiler/emitter.rs\<close>. Isa: reference semantics of the instructions, from the
  architecture manuals. Encoding, EncodingRv, NativeCode: encoders and emitter methods against it.
  Native: \<open>compiler/native.rs\<close>, the buffer entry of \<open>kernel/exec.rs\<close> and \<open>StreamProgram::run\<close>;
  locales \<open>straight_line\<close> and \<open>backend\<close>, interpreted for both targets.
  Symtab: names and the symbol table of \<open>compiler/parser.rs\<close>, locale \<open>symbol_map\<close>. Cursor: its token cursor, locale
  \<open>token_source\<close>. Parser: the parser itself. ParserLaws: a program logic for it, its invariant and
  its soundness. ExprSem, LineSem, FnSem: an evaluator of syntax trees and the proof that the
  parser computes it on expressions, lines, function bodies and calls. Session: the parser's properties.
  Uart: \<open>drivers/uart.rs\<close>; what a console and a keyboard promise, a simulated device that keeps
  it, the receive ring as locale \<open>bounded_queue\<close>.
  Interrupt: \<open>kernel/interrupt.rs\<close>.
  Repl: \<open>drivers/repl.rs\<close>. ReplLaws: the invariant of the machine and its preservation, locale
  \<open>machine\<close>, interpreted for both targets. Boot: \<open>main.rs\<close>. Console: what actions print, the line
  editor as a function on lists. System: the properties of the whole kernel.
  Traffic: a calculus of the bus accesses that an action makes. Mediation: which registers a turn of
  the loop may write, locale \<open>quiet_machine\<close>, interpreted for both targets. Faults: turns that end at
  an access that faults, and runs in which writes to RAM change the kernel's statics. Atomic: what a
  rejected line leaves unchanged. Dialogue: sessions, that is lines typed and answers printed, and
  one lemma for every command. Scenario: sessions of several lines. Escape: the session that gets
  around the access check on ARM. Misses: where the functions of RISC-V write. AuditText: the listing of
  \<open>sys_audit\<close>. LexPos: the positions that the lexer reports. Placement: the memory map (memory.x,
  memory-layout.x), the linked ARM vectors, the reset entry of RISC-V, and where the registry lies.
  Build: \<open>build.rs\<close>. Hal: the constants and the one method body of the trait crate.

  \<^bold>\<open>What the lemmas show.\<close> Ownership is exclusive and the access check is exact on every branch;
  whatever lines a user types, accepted statements and stored functions only name
  addresses that were permitted when they were typed (a \<open>peek\<close> inside an expression is the exception,
  and proved to be one, and a stored function outlives the claim it was accepted under); parsing,
  dispatch, printing and boot terminate (a parse up to a read that faults); the whole machine keeps its
  invariant at every turn and stops only in three named ways, on both targets: an access that
  faults, a transmitter that stays busy, a shift with overflow checks; at
  any time after boot, outside the bodies of functions, a turn of the loop writes only the
  transmitter and registers that the check grants at that moment, also when well-formed statics were
  forged through RAM; the exception is real, since
  the compiled body of a function can be made to write any register (\<open>Escape\<close>); a rejected line leaves every table as it was; the audit
  listing shows the log; positions of tokens are true; the registry itself lies in memory
  that the check leaves free to everyone; expressions, bindings, functions and claims give the documented
  answers from the keyboard to the terminal; native code equals threaded code where it does, and
  the theorems delimit where it does not (second \<open>poke\<close> of a body, large constants on RV32,
  division and some multiplications on Thumb-2).

  \<^bold>\<open>Bounds and fuel.\<close> The expression parser recurses on parentheses and \<open>peek\<close>; it runs with fuel
  \<open>expr_fuel t = 2 * t + 4\<close> for an input of \<open>t\<close> bytes and a body loop with \<open>t + 1\<close>. Every call takes a
  token or passes to a loop that does, and a text has at most as many tokens as bytes, so the
  fuel never runs out (\<open>Session.parse_total_and_harmless\<close>). Threaded streams move forward and end
  at the end of the stream. Busy waits and the drain at start are partial functions: that
  they return is proved from a transmitter that becomes free and a finite number of bytes.

  \<^bold>\<open>Parameters.\<close> The bus, the linker's addresses (sections, primitives, vectors), the processor that
  runs the executable buffer (the reference semantics of Isa in the theorems about native code),
  CSR writes, the transfer of control to a handler.

  \<^bold>\<open>Not modelled.\<close> Barrier instructions are assembly without model state; parking is a loop that does not return (\<open>Interrupt.handlers_park\<close>). The methods of
  the HAL crate but one are declarations that nothing implements, and the module files hold
  declarations only. The atomics of the
  registry and the volatile accesses are sequential steps: there is one core, the control loop
  is the only thread, and no interrupt handler of the source touches the state of that loop, so the receive
  interrupt and the reader of the ring are interleaved as whole operations. The statics of the kernel are
  apart from the memory behind the bus, so a write of a user to the kernel's own RAM changes the bus
  but not the statics of \<open>kern\<close>. Two theories deal with that: Placement reads the registry out of
  memory, and Faults lets the statics be replaced by any well-formed contents between turns
  (\<open>reach.tamper\<close>). Statics that are no longer well formed, the stack and the code are not covered.

  \<^bold>\<open>Faults.\<close> The accesses of a \<open>bus\<close> are total: an address that nothing answers, or a misaligned one, returns
  some value and the code goes on, whereas a real core takes an exception and halts (\<open>fault_hang\<close>,
  \<open>trap_stub\<close>). With \<open>F\<close> the set of faulting addresses, what a real core does is what the total bus
  does up to the first access in \<open>F\<close> (\<open>Bus.first_fault\<close> on the trace of a traced bus). The properties on
  stopping, on the parser's totality, on mediation and on the functions of RISC-V are stated with \<open>F\<close>
  (\<open>Faults.fturn\<close>, \<open>Session.parse_faulting\<close>); every other property describes executions in which no
  access faults.
\<close>

end
